(* ===== verification/Prelude.thy ===== *)
theory Prelude
  imports Main "HOL-Library.Word" "HOL-Library.AList" "HOL-Library.Monad_Syntax"
begin

text \<open>
  Shared vocabulary of the development: the machine integers of the C++ sources, the two
  hash containers they use (\<^verbatim>\<open>std::unordered_map\<close> and \<^verbatim>\<open>std::unordered_set\<close>), the
  collections of rewrite rules the components fill, and generic facts about lists and
  options.

  \<^item> \<open>u8\<close>, \<open>u16\<close>, \<open>u32\<close>, \<open>u64\<close> are \<^verbatim>\<open>uint8_t\<close> to \<^verbatim>\<open>uint64_t\<close>; arithmetic wraps.
  \<^item> A hash map is an association list with distinct keys. The order of the list stands
    for the iteration order, which C++ leaves open; assigning to a present key keeps its
    place, a new key goes to the end.
  \<^item> A hash set is a list without repetitions, under the same reading.
\<close>

unbundle bit_operations_syntax

type_synonym u8 = "8 word"
type_synonym u16 = "16 word"
type_synonym u32 = "32 word"
type_synonym u64 = "64 word"

named_theorems wire_simps \<open>rewriting of serialised byte sequences and of reads from them\<close>
named_theorems frame_simps \<open>fields that an operation leaves unchanged\<close>
named_theorems inv_intros \<open>preservation of component invariants\<close>

subsection \<open>Hash maps\<close>

type_synonym ('k, 'v) umap = "('k \<times> 'v) list"

definition umap_find :: "('k, 'v) umap \<Rightarrow> 'k \<Rightarrow> 'v option" where
  "umap_find m k = map_of m k"

definition umap_assign :: "'k \<Rightarrow> 'v \<Rightarrow> ('k, 'v) umap \<Rightarrow> ('k, 'v) umap" where
  "umap_assign k v m = AList.update k v m"

definition umap_emplace :: "'k \<Rightarrow> 'v \<Rightarrow> ('k, 'v) umap \<Rightarrow> ('k, 'v) umap" where
  "umap_emplace k v m = (case umap_find m k of None \<Rightarrow> m @ [(k, v)] | Some _ \<Rightarrow> m)"

definition umap_erase :: "'k \<Rightarrow> ('k, 'v) umap \<Rightarrow> ('k, 'v) umap" where
  "umap_erase k m = AList.delete k m"

definition umap_ok :: "('k, 'v) umap \<Rightarrow> bool" where
  "umap_ok m = distinct (map fst m)"

definition umap_keys :: "('k, 'v) umap \<Rightarrow> 'k set" where
  "umap_keys m = set (map fst m)"

subsection \<open>Hash sets\<close>

type_synonym 'a uset = "'a list"

definition uset_insert :: "'a \<Rightarrow> 'a uset \<Rightarrow> 'a uset" where
  "uset_insert x xs = (if List.member xs x then xs else xs @ [x])"

definition uset_erase :: "'a \<Rightarrow> 'a uset \<Rightarrow> 'a uset" where
  "uset_erase x xs = removeAll x xs"

subsection \<open>The interface of a hash map\<close>

text \<open>
  What the clients of \<^verbatim>\<open>std::unordered_map\<close> rely on: lookups after assignment, insertion
  and removal, and that every operation keeps keys unique.
\<close>

locale hash_map =
  fixes find :: "'m \<Rightarrow> 'k \<Rightarrow> 'v option"
    and assign :: "'k \<Rightarrow> 'v \<Rightarrow> 'm \<Rightarrow> 'm"
    and emplace :: "'k \<Rightarrow> 'v \<Rightarrow> 'm \<Rightarrow> 'm"
    and erase :: "'k \<Rightarrow> 'm \<Rightarrow> 'm"
    and clear :: 'm
    and invar :: "'m \<Rightarrow> bool"
  assumes find_assign: "find (assign k v m) k' = (if k' = k then Some v else find m k')"
    and find_emplace: "find (emplace k v m) k' =
      (if k' = k \<and> find m k = None then Some v else find m k')"
    and find_erase: "find (erase k m) k' = (if k' = k then None else find m k')"
    and find_clear: "find clear k = None"
    and invar_assign: "invar m \<Longrightarrow> invar (assign k v m)"
    and invar_emplace: "invar m \<Longrightarrow> invar (emplace k v m)"
    and invar_erase: "invar m \<Longrightarrow> invar (erase k m)"
    and invar_clear: "invar clear"
begin

text \<open>Assigning twice under one key is the last assignment, as far as lookups can tell.\<close>

lemma assign_assign: "find (assign k v (assign k w m)) = find (assign k v m)"
  by (rule ext) (simp add: find_assign)

lemma assign_commute:
  "k \<noteq> l \<Longrightarrow> find (assign k v (assign l w m)) = find (assign l w (assign k v m))"
  by (rule ext) (simp add: find_assign)

text \<open>Loading a list of pairs into an empty map keeps the first value of every key.\<close>

lemma find_fold_emplace:
  "find (fold (\<lambda>(k, v). emplace k v) kvs m) k =
     (case find m k of Some v \<Rightarrow> Some v | None \<Rightarrow> map_of kvs k)"
proof (induction kvs arbitrary: m)
  case Nil
  then show ?case by (simp split: option.split)
next
  case (Cons kv kvs)
  then show ?case
    by (cases kv) (auto simp: find_emplace split: option.split if_splits)
qed

lemma invar_fold_emplace: "invar m \<Longrightarrow> invar (fold (\<lambda>(k, v). emplace k v) kvs m)"
  by (induction kvs arbitrary: m) (auto intro: invar_emplace)

end

lemma umap_find_assign:
  "umap_find (umap_assign k v m) k' = (if k' = k then Some v else umap_find m k')"
  by (simp add: umap_find_def umap_assign_def update_conv)

lemma umap_find_erase:
  "umap_find (umap_erase k m) k' = (if k' = k then None else umap_find m k')"
  by (simp add: umap_find_def umap_erase_def delete_conv)

lemma umap_find_emplace:
  "umap_find (umap_emplace k v m) k' =
     (if k' = k \<and> umap_find m k = None then Some v else umap_find m k')"
  by (auto simp: umap_emplace_def umap_find_def map_add_def split: option.splits)

lemma umap_ok_assign: "umap_ok m \<Longrightarrow> umap_ok (umap_assign k v m)"
  by (simp add: umap_ok_def umap_assign_def distinct_update)

lemma umap_ok_erase: "umap_ok m \<Longrightarrow> umap_ok (umap_erase k m)"
  by (simp add: umap_ok_def umap_erase_def distinct_delete)

lemma umap_ok_emplace: "umap_ok m \<Longrightarrow> umap_ok (umap_emplace k v m)"
  by (auto simp: umap_ok_def umap_emplace_def umap_find_def map_of_eq_None_iff
      split: option.splits)

lemma umap_erase_assign:
  assumes "umap_find m k = None"
  shows "umap_erase k (umap_assign k v m) = m"
proof -
  have "k \<notin> fst ` set m" using assms by (simp add: umap_find_def map_of_eq_None_iff)
  then show ?thesis
    unfolding umap_erase_def umap_assign_def by (induction m) (auto simp: AList.delete_eq)
qed

lemma umap_ok_Nil [simp]: "umap_ok []"
  by (simp add: umap_ok_def)

lemma umap_find_Nil [simp]: "umap_find [] k = None"
  by (simp add: umap_find_def)

interpretation um: hash_map umap_find umap_assign umap_emplace umap_erase "[]" umap_ok
  by unfold_locales
    (simp_all add: umap_find_assign umap_find_emplace umap_find_erase
      umap_ok_assign umap_ok_emplace umap_ok_erase)

lemma umap_keys_iff: "k \<in> umap_keys m \<longleftrightarrow> umap_find m k \<noteq> None"
  by (auto simp: umap_keys_def umap_find_def map_of_eq_None_iff)

lemma umap_keys_assign [simp]: "umap_keys (umap_assign k v m) = insert k (umap_keys m)"
  by (auto simp: umap_keys_iff umap_find_assign split: if_splits)

subsection \<open>Facts about hash sets\<close>

lemma set_uset_insert [simp]: "set (uset_insert x xs) = insert x (set xs)"
  by (auto simp: uset_insert_def)

lemma set_uset_erase [simp]: "set (uset_erase x xs) = set xs - {x}"
  by (simp add: uset_erase_def)

lemma distinct_uset_insert [simp]: "distinct (uset_insert x xs) \<longleftrightarrow> distinct xs"
  by (simp add: uset_insert_def)

lemma distinct_uset_erase: "distinct xs \<Longrightarrow> distinct (uset_erase x xs)"
  by (simp add: uset_erase_def distinct_removeAll)

lemma length_uset_insert_le: "length (uset_insert x xs) \<le> Suc (length xs)"
  by (simp add: uset_insert_def)

lemma length_uset_erase_le: "length (uset_erase x xs) \<le> length xs"
  by (simp add: uset_erase_def length_removeAll_less_eq)

subsection \<open>Remainders\<close>

lemma mod_add_left_cancel_nat:
  assumes "((a :: nat) + i) mod n = (a + j) mod n"
  shows "i mod n = j mod n"
  using assms by (auto simp: nat_mod_eq_iff)

subsection \<open>Counting in lists\<close>

lemma count_list_distinct: "distinct xs \<Longrightarrow> x \<in> set xs \<Longrightarrow> count_list xs x = 1"
  by (induction xs) (auto simp: count_list_0_iff)

lemma upt_split:
  assumes "[0..<m] = pre @ i # post"
  shows "i < m \<and> pre = [0..<i]"
proof -
  have len: "length pre < m" using arg_cong[OF assms, of length] by simp
  have "i = length pre"
    using arg_cong[OF assms, of "\<lambda>xs. xs ! length pre"] len by simp
  moreover have "pre = take (length pre) [0..<m]" by (simp add: assms)
  ultimately show ?thesis using len by (simp add: take_upt)
qed

subsection \<open>Lists updated by index\<close>

lemma nth_list_update_cases:
  "j < length xs \<Longrightarrow> xs[i := v] ! j = (if j = i then v else xs ! j)"
  by (simp add: nth_list_update)

subsection \<open>Ranks in a sorted list\<close>

lemma filter_sort_length: "length (filter P (sort xs)) = length (filter P xs)"
  by (simp add: filter_sort)

lemma sorted_nth_rank:
  assumes "sorted xs" and "i < length xs"
  shows "Suc i \<le> length (filter (\<lambda>x. x \<le> xs ! i) xs)"
    and "length xs - i \<le> length (filter (\<lambda>x. xs ! i \<le> x) xs)"
proof -
  have eq: "xs = take (Suc i) xs @ drop (Suc i) xs" "xs = take i xs @ drop i xs" by simp_all
  have "filter (\<lambda>x. x \<le> xs ! i) (take (Suc i) xs) = take (Suc i) xs"
    using assms by (intro filter_True) (auto simp: in_set_conv_nth sorted_nth_mono)
  then have "length (filter (\<lambda>x. x \<le> xs ! i) xs) =
      Suc i + length (filter (\<lambda>x. x \<le> xs ! i) (drop (Suc i) xs))"
    using assms(2) by (subst eq(1)) (simp del: append_take_drop_id)
  then show "Suc i \<le> length (filter (\<lambda>x. x \<le> xs ! i) xs)" by simp
  have "filter (\<lambda>x. xs ! i \<le> x) (drop i xs) = drop i xs"
    using assms by (intro filter_True) (auto simp: in_set_conv_nth sorted_nth_mono)
  then have "length (filter (\<lambda>x. xs ! i \<le> x) xs) =
      length (filter (\<lambda>x. xs ! i \<le> x) (take i xs)) + (length xs - i)"
    by (subst eq(2)) (simp del: append_take_drop_id)
  then show "length xs - i \<le> length (filter (\<lambda>x. xs ! i \<le> x) xs)" by simp
qed

end
