(* ===== verification/Config.thy ===== *)
theory Config
  imports Prelude
begin

text \<open>
  The constants of \<^verbatim>\<open>include/config/system_config.hpp\<close> that the modelled code reads.
  Sizes (\<^verbatim>\<open>size_t\<close>) are natural numbers, times and counters keep their width.
\<close>

definition WORKER_QUEUE_CAPACITY :: nat where "WORKER_QUEUE_CAPACITY = 64"
definition HEARTBEAT_INTERVAL_NS :: u64 where "HEARTBEAT_INTERVAL_NS = 200000000"
definition WORKER_OUT_BUDGET :: nat where "WORKER_OUT_BUDGET = 128"
definition WORKER_OUT_PER_THREAD_CAP :: nat where "WORKER_OUT_PER_THREAD_CAP = 8"
definition MAX_WORKER_THREADS :: nat where "MAX_WORKER_THREADS = 8"

definition QUEUE_RETRY_COUNT :: nat where "QUEUE_RETRY_COUNT = 10"
definition WORKER_CONNECTION_RETRY_COUNT :: nat where "WORKER_CONNECTION_RETRY_COUNT = 0"
definition COORDINATOR_CONNECTION_RETRY_COUNT :: nat where
  "COORDINATOR_CONNECTION_RETRY_COUNT = 2"
definition ROUTER_CONNECTION_RETRY_COUNT :: nat where "ROUTER_CONNECTION_RETRY_COUNT = 4"
definition CLIENT_CONNECTION_RETRY_COUNT :: nat where "CLIENT_CONNECTION_RETRY_COUNT = 30"
definition REGISTER_RETRY_COUNT :: nat where "REGISTER_RETRY_COUNT = 10"

definition COORDINATOR_CONTROL_QUEUE_CAPACITY :: nat where
  "COORDINATOR_CONTROL_QUEUE_CAPACITY = 64"
definition CONTROL_BUDGET :: nat where
  "CONTROL_BUDGET = COORDINATOR_CONTROL_QUEUE_CAPACITY div 2"
definition COORDINATOR_TASK_QUEUE_CAPACITY :: nat where
  "COORDINATOR_TASK_QUEUE_CAPACITY = 16384"
definition TASK_FALLBACK_BUDGET :: nat where "TASK_FALLBACK_BUDGET = 1024"
definition COORDINATOR_OUTGOING_QUEUE_CAPACITY :: nat where
  "COORDINATOR_OUTGOING_QUEUE_CAPACITY = 2 * COORDINATOR_TASK_QUEUE_CAPACITY"
definition COORDINATOR_OUT_BUDGET :: nat where "COORDINATOR_OUT_BUDGET = 1024"
definition WORKER_MAX_QUEUE_DEPTH :: nat where
  "WORKER_MAX_QUEUE_DEPTH = WORKER_QUEUE_CAPACITY"
definition HEARTBEAT_TIMEOUT_NS :: u64 where "HEARTBEAT_TIMEOUT_NS = 1000000000"
definition SWEEP_INTERVAL_NS :: u64 where "SWEEP_INTERVAL_NS = 200000000"
definition MAX_LOG_SIZE :: nat where "MAX_LOG_SIZE = 10000"
definition THROUGHPUT_WINDOW_NS :: u64 where "THROUGHPUT_WINDOW_NS = 1000000000"
definition MAX_LATENCY_SAMPLES :: nat where "MAX_LATENCY_SAMPLES = 10000"

definition RETRY_SHARDS :: nat where "RETRY_SHARDS = 2"
definition RETRY_TASK :: nat where "RETRY_TASK = 2"

definition BACKLOG :: nat where "BACKLOG = 256"
definition SOCKET_TIMEOUT_US :: int where "SOCKET_TIMEOUT_US = 500000"

definition SHORT_TEXT_WORDS :: nat where "SHORT_TEXT_WORDS = 10"
definition MEDIUM_TEXT_WORDS :: nat where "MEDIUM_TEXT_WORDS = 100"
definition LONG_TEXT_WORDS :: nat where "LONG_TEXT_WORDS = 1000"

definition SHORT_DURATION_US :: u64 where "SHORT_DURATION_US = 100"
definition MEDIUM_DURATION_US :: u64 where "MEDIUM_DURATION_US = 1000"
definition LONG_DURATION_US :: u64 where "LONG_DURATION_US = 5000"

definition MAX_BACKOFF_US :: nat where "MAX_BACKOFF_US = 100"
definition MAX_CLIENTS :: nat where "MAX_CLIENTS = 256"

end
