(* ===== verification/Buffer.thy ===== *)
theory Buffer
  imports Config
begin

text \<open>
  \<^verbatim>\<open>include/serialization/buffer.hpp\<close>: byte order conversion, \<^verbatim>\<open>BufferWriter\<close> and
  \<^verbatim>\<open>BufferReader\<close>.

  A buffer is a list of bytes. \<^verbatim>\<open>memcpy\<close> of an integer object into the buffer copies its
  object representation, which depends on the host: \<open>object_bytes\<close> and \<open>of_object_bytes\<close>
  take the host's byte order. The conversions (\<^verbatim>\<open>htons\<close>, \<^verbatim>\<open>htonl\<close> of the C library and
  \<^verbatim>\<open>htonll\<close> of the header) take it too, with one branch per branch of the header's
  \<^verbatim>\<open>#if __BYTE_ORDER\<close>; the operations of the writer and the reader run on a
  little-endian host. The lemmas show that on either host the bytes written are the
  big-endian representation of the value.

  An \<^verbatim>\<open>assert\<close> that fails ends the process; operations that assert return an option,
  \<open>None\<close> being the failed assertion. A \<^verbatim>\<open>std::string\<close> is a \<open>string\<close>, each \<^verbatim>\<open>char\<close> one byte.
\<close>

subsection \<open>Object representation and byte order\<close>

datatype byte_order = LITTLE_ENDIAN | BIG_ENDIAN

definition host_order :: byte_order where
  "host_order = LITTLE_ENDIAN"

definition byte_of :: "'a::len word \<Rightarrow> nat \<Rightarrow> u8" where
  "byte_of w k = ucast (drop_bit (8 * k) w)"

definition le_bytes :: "nat \<Rightarrow> 'a::len word \<Rightarrow> u8 list" where
  "le_bytes n w = map (byte_of w) [0..<n]"

definition be_bytes :: "nat \<Rightarrow> 'a::len word \<Rightarrow> u8 list" where
  "be_bytes n w = rev (le_bytes n w)"

fun of_le_bytes :: "u8 list \<Rightarrow> 'a::len word" where
  "of_le_bytes [] = 0"
| "of_le_bytes (b # bs) = ucast b OR push_bit 8 (of_le_bytes bs)"

definition of_be_bytes :: "u8 list \<Rightarrow> 'a::len word" where
  "of_be_bytes bs = of_le_bytes (rev bs)"

definition object_bytes :: "byte_order \<Rightarrow> nat \<Rightarrow> 'a::len word \<Rightarrow> u8 list" where
  "object_bytes e n w = (case e of LITTLE_ENDIAN \<Rightarrow> le_bytes n w | BIG_ENDIAN \<Rightarrow> be_bytes n w)"

definition of_object_bytes :: "byte_order \<Rightarrow> u8 list \<Rightarrow> 'a::len word" where
  "of_object_bytes e bs =
     (case e of LITTLE_ENDIAN \<Rightarrow> of_le_bytes bs | BIG_ENDIAN \<Rightarrow> of_be_bytes bs)"

definition htons :: "byte_order \<Rightarrow> u16 \<Rightarrow> u16" where
  "htons e v = (case e of LITTLE_ENDIAN \<Rightarrow> of_be_bytes (le_bytes 2 v) | BIG_ENDIAN \<Rightarrow> v)"

definition ntohs :: "byte_order \<Rightarrow> u16 \<Rightarrow> u16" where
  "ntohs e v = htons e v"

definition htonl :: "byte_order \<Rightarrow> u32 \<Rightarrow> u32" where
  "htonl e v = (case e of LITTLE_ENDIAN \<Rightarrow> of_be_bytes (le_bytes 4 v) | BIG_ENDIAN \<Rightarrow> v)"

definition ntohl :: "byte_order \<Rightarrow> u32 \<Rightarrow> u32" where
  "ntohl e v = htonl e v"

definition htonll :: "byte_order \<Rightarrow> u64 \<Rightarrow> u64" where
  "htonll e v = (case e of
     LITTLE_ENDIAN \<Rightarrow>
       push_bit 32 (ucast (htonl e (ucast (v AND 0xFFFFFFFF))))
       OR ucast (htonl e (ucast (drop_bit 32 v)))
   | BIG_ENDIAN \<Rightarrow> v)"

definition ntohll :: "byte_order \<Rightarrow> u64 \<Rightarrow> u64" where
  "ntohll e v = (case e of
     LITTLE_ENDIAN \<Rightarrow>
       push_bit 32 (ucast (ntohl e (ucast (v AND 0xFFFFFFFF))))
       OR ucast (ntohl e (ucast (drop_bit 32 v)))
   | BIG_ENDIAN \<Rightarrow> v)"

subsection \<open>BufferWriter\<close>

record BufferWriter =
  w_buffer :: "u8 list"

definition BufferWriter_init :: BufferWriter where
  "BufferWriter_init = \<lparr>w_buffer = []\<rparr>"

definition write_bytes :: "u8 list \<Rightarrow> BufferWriter \<Rightarrow> BufferWriter" where
  "write_bytes bs w = w\<lparr>w_buffer := w_buffer w @ bs\<rparr>"

definition write_u8 :: "u8 \<Rightarrow> BufferWriter \<Rightarrow> BufferWriter" where
  "write_u8 v w = w\<lparr>w_buffer := w_buffer w @ [v]\<rparr>"

definition write_u16 :: "u16 \<Rightarrow> BufferWriter \<Rightarrow> BufferWriter" where
  "write_u16 v w = write_bytes (object_bytes host_order 2 (htons host_order v)) w"

definition write_u32 :: "u32 \<Rightarrow> BufferWriter \<Rightarrow> BufferWriter" where
  "write_u32 v w = write_bytes (object_bytes host_order 4 (htonl host_order v)) w"

definition write_u64 :: "u64 \<Rightarrow> BufferWriter \<Rightarrow> BufferWriter" where
  "write_u64 v w = write_bytes (object_bytes host_order 8 (htonll host_order v)) w"

definition u8_of_char :: "char \<Rightarrow> u8" where
  "u8_of_char c = of_nat (of_char c)"

definition char_of_u8 :: "u8 \<Rightarrow> char" where
  "char_of_u8 b = char_of (unat b)"

definition write_string :: "string \<Rightarrow> BufferWriter \<Rightarrow> BufferWriter" where
  "write_string s w = write_bytes (map u8_of_char s) (write_u32 (of_nat (length s)) w)"

definition reserve_u32 :: "BufferWriter \<Rightarrow> BufferWriter" where
  "reserve_u32 w = write_u32 0 w"

definition write_payload_size :: "u32 \<Rightarrow> BufferWriter \<Rightarrow> BufferWriter option" where
  "write_payload_size n w =
     (if length (w_buffer w) \<ge> 4
      then Some (w\<lparr>w_buffer := object_bytes host_order 4 (htonl host_order n)
                               @ drop 4 (w_buffer w)\<rparr>)
      else None)"

definition get_buffer :: "BufferWriter \<Rightarrow> u8 list" where
  "get_buffer w = w_buffer w"

subsection \<open>BufferReader\<close>

record BufferReader =
  r_buffer :: "u8 list"
  offset :: nat

definition BufferReader_init :: "u8 list \<Rightarrow> BufferReader" where
  "BufferReader_init bs = \<lparr>r_buffer = bs, offset = 0\<rparr>"

definition advance :: "nat \<Rightarrow> BufferReader \<Rightarrow> BufferReader" where
  "advance n r = r\<lparr>offset := offset r + n\<rparr>"

definition remaining :: "BufferReader \<Rightarrow> u8 list" where
  "remaining r = drop (offset r) (r_buffer r)"

definition fits :: "nat \<Rightarrow> BufferReader \<Rightarrow> bool" where
  "fits n r = (offset r + n \<le> length (r_buffer r))"

definition read_u8 :: "BufferReader \<Rightarrow> (u8 \<times> BufferReader) option" where
  "read_u8 r = (if fits 1 r then Some (r_buffer r ! offset r, advance 1 r) else None)"

definition read_u16 :: "BufferReader \<Rightarrow> (u16 \<times> BufferReader) option" where
  "read_u16 r =
     (if fits 2 r
      then Some (ntohs host_order (of_object_bytes host_order (take 2 (remaining r))), advance 2 r)
      else None)"

definition read_u32 :: "BufferReader \<Rightarrow> (u32 \<times> BufferReader) option" where
  "read_u32 r =
     (if fits 4 r
      then Some (ntohl host_order (of_object_bytes host_order (take 4 (remaining r))), advance 4 r)
      else None)"

definition read_u64 :: "BufferReader \<Rightarrow> (u64 \<times> BufferReader) option" where
  "read_u64 r =
     (if fits 8 r
      then Some (ntohll host_order (of_object_bytes host_order (take 8 (remaining r))), advance 8 r)
      else None)"

definition read_string :: "BufferReader \<Rightarrow> (string \<times> BufferReader) option" where
  "read_string r = do {
     (size, r) \<leftarrow> read_u32 r;
     if fits (unat size) r
     then Some (map char_of_u8 (take (unat size) (remaining r)), advance (unat size) r)
     else None
   }"

subsection \<open>Bits of byte sequences\<close>

lemma length_le_bytes [simp]: "length (le_bytes n w) = n"
  by (simp add: le_bytes_def)

lemma length_be_bytes [simp, wire_simps]: "length (be_bytes n w) = n"
  by (simp add: be_bytes_def)

lemma length_object_bytes [simp]: "length (object_bytes e n w) = n"
  by (cases e) (simp_all add: object_bytes_def)

lemma bit_byte_of: "bit (byte_of w k) i \<longleftrightarrow> i < 8 \<and> bit w (8 * k + i)"
  by (auto simp: byte_of_def bit_simps)

lemma bit_of_le_bytes:
  "bit (of_le_bytes bs :: 'a::len word) i \<longleftrightarrow>
     i < LENGTH('a) \<and> i div 8 < length bs \<and> bit (bs ! (i div 8)) (i mod 8)"
proof (induction bs arbitrary: i)
  case Nil
  then show ?case by simp
next
  case (Cons b bs)
  show ?case
  proof (cases "i < 8")
    case True
    then show ?thesis by (auto simp: bit_simps)
  next
    case False
    then obtain j where j: "i = 8 + j"
      using le_Suc_ex not_less by blast
    have "\<not> bit b i" using False
      by (auto dest: bit_imp_le_length)
    moreover have "(8 + j) div 8 = Suc (j div 8)" by simp
    ultimately show ?thesis
      using Cons[of j] j by (auto simp: bit_simps)
  qed
qed

lemma byte_of_of_le_bytes:
  assumes "LENGTH('a::len) = 8 * length bs" and "k < length bs"
  shows "byte_of (of_le_bytes bs :: 'a word) k = bs ! k"
proof (rule bit_word_eqI)
  fix i assume "i < LENGTH(8)"
  then have "i < 8" by simp
  moreover from this have "(8 * k + i) div 8 = k" and "(8 * k + i) mod 8 = i" by auto
  moreover from \<open>i < 8\<close> have "8 * k + i < LENGTH('a)" using assms by linarith
  ultimately show "bit (byte_of (of_le_bytes bs :: 'a word) k) i = bit (bs ! k) i"
    using assms(2) by (simp add: bit_byte_of bit_of_le_bytes)
qed

lemma le_bytes_of_le_bytes:
  assumes "LENGTH('a::len) = 8 * length bs"
  shows "le_bytes (length bs) (of_le_bytes bs :: 'a word) = bs"
  by (rule nth_equalityI) (simp_all add: le_bytes_def byte_of_of_le_bytes[OF assms])

lemma of_le_bytes_le_bytes:
  assumes "LENGTH('a::len) = 8 * n"
  shows "of_le_bytes (le_bytes n (w :: 'a word)) = w"
proof (rule bit_word_eqI)
  fix i assume i: "i < LENGTH('a)"
  then have "i div 8 < n" using assms by simp
  then show "bit (of_le_bytes (le_bytes n w) :: 'a word) i = bit w i"
    using i by (simp add: bit_of_le_bytes le_bytes_def bit_byte_of)
qed

lemma of_be_bytes_be_bytes:
  "LENGTH('a::len) = 8 * n \<Longrightarrow> of_be_bytes (be_bytes n (w :: 'a word)) = w"
  by (simp add: of_be_bytes_def be_bytes_def of_le_bytes_le_bytes)

lemma of_be_bytes_be_bytes_numeral [simp, wire_simps]:
  "of_be_bytes (be_bytes 2 v) = (v :: u16)"
  "of_be_bytes (be_bytes 4 w) = (w :: u32)"
  "of_be_bytes (be_bytes 8 x) = (x :: u64)"
  by (simp_all add: of_be_bytes_be_bytes)

subsection \<open>The conversions give big-endian bytes on either host\<close>

lemma object_bytes_htons: "object_bytes e 2 (htons e v) = be_bytes 2 v"
  using le_bytes_of_le_bytes[of "be_bytes 2 v", where 'a = 16]
  by (cases e) (simp_all add: object_bytes_def htons_def of_be_bytes_def be_bytes_def)

lemma object_bytes_htonl: "object_bytes e 4 (htonl e v) = be_bytes 4 v"
  using le_bytes_of_le_bytes[of "be_bytes 4 v", where 'a = 32]
  by (cases e) (simp_all add: object_bytes_def htonl_def of_be_bytes_def be_bytes_def)

lemma bit_htonl_little:
  "bit (htonl LITTLE_ENDIAN v) i \<longleftrightarrow> i < 32 \<and> bit v (8 * (3 - i div 8) + i mod 8)"
  by (auto simp: htonl_def of_be_bytes_def bit_of_le_bytes le_bytes_def rev_nth bit_byte_of)

lemma ucast_mask_32: "(ucast ((v :: u64) AND 0xFFFFFFFF) :: u32) = ucast v"
proof -
  have "v AND 0xFFFFFFFF = take_bit 32 v"
    by (simp add: take_bit_eq_mask mask_eq_exp_minus_1)
  then show ?thesis
    by (auto intro!: bit_word_eqI simp: bit_simps)
qed

lemma htonll_little: "htonll LITTLE_ENDIAN v = of_be_bytes (le_bytes 8 v)"
proof (rule bit_word_eqI)
  fix i assume i: "i < LENGTH(64)"
  have rhs: "bit (of_be_bytes (le_bytes 8 v) :: u64) i \<longleftrightarrow> bit v (8 * (7 - i div 8) + i mod 8)"
    using i by (auto simp: of_be_bytes_def bit_of_le_bytes le_bytes_def rev_nth bit_byte_of)
  show "bit (htonll LITTLE_ENDIAN v) i = bit (of_be_bytes (le_bytes 8 v) :: u64) i"
  proof (cases "i < 32")
    case True
    then have "i div 8 \<le> 3" by linarith
    then have eq: "8 * (7 - i div 8) + i mod 8 = 32 + (8 * (3 - i div 8) + i mod 8)"
      and "8 * (3 - i div 8) + i mod 8 < 32"
      by linarith+
    then show ?thesis
      using True i unfolding rhs eq
      by (auto simp: htonll_def ucast_mask_32 bit_simps bit_htonl_little)
  next
    case False
    then obtain j where j: "i = 32 + j" using le_Suc_ex not_less by blast
    with i have "j < 32" by simp
    moreover have "i div 8 = 4 + j div 8" and "i mod 8 = j mod 8" using j by presburger+
    ultimately show ?thesis
      using i j unfolding rhs
      by (auto simp: htonll_def ucast_mask_32 bit_simps bit_htonl_little)
  qed
qed

lemma ntohll_eq_htonll: "ntohll e v = htonll e v"
  by (cases e) (simp_all add: ntohll_def htonll_def ntohl_def)

lemma object_bytes_htonll: "object_bytes e 8 (htonll e v) = be_bytes 8 v"
  using le_bytes_of_le_bytes[of "be_bytes 8 v", where 'a = 64]
  by (cases e)
    (simp_all add: object_bytes_def htonll_little of_be_bytes_def be_bytes_def
      htonll_def[of BIG_ENDIAN])

subsection \<open>What the writer writes\<close>

lemma w_buffer_write [simp, wire_simps]:
  "w_buffer (write_bytes bs w) = w_buffer w @ bs"
  "w_buffer (write_u8 a w) = w_buffer w @ [a]"
  "w_buffer (write_u16 b w) = w_buffer w @ be_bytes 2 b"
  "w_buffer (write_u32 c w) = w_buffer w @ be_bytes 4 c"
  "w_buffer (write_u64 d w) = w_buffer w @ be_bytes 8 d"
  "w_buffer (write_string s w) =
     w_buffer w @ be_bytes 4 (of_nat (length s) :: u32) @ map u8_of_char s"
  by (simp_all add: write_bytes_def write_u8_def write_u16_def write_u32_def write_u64_def
      write_string_def object_bytes_htons object_bytes_htonl object_bytes_htonll)

lemma char_of_u8_of_char [simp, wire_simps]: "char_of_u8 (u8_of_char c) = c"
  by (simp add: char_of_u8_def u8_of_char_def unat_of_nat)

lemma char_of_u8_comp_u8_of_char [simp, wire_simps]: "char_of_u8 \<circ> u8_of_char = id"
  by (simp add: fun_eq_iff)

subsection \<open>What the reader reads\<close>

lemma remaining_init [simp, wire_simps]: "remaining (BufferReader_init bs) = bs"
  by (simp add: remaining_def BufferReader_init_def)

lemma remaining_advance [simp, wire_simps]: "remaining (advance n r) = drop n (remaining r)"
  by (simp add: remaining_def advance_def add.commute)

lemma advance_advance [simp, wire_simps]: "advance m (advance n r) = advance (n + m) r"
  by (simp add: advance_def add.assoc)

lemma fits_iff: "0 < n \<Longrightarrow> fits n r \<longleftrightarrow> n \<le> length (remaining r)"
  by (auto simp: fits_def remaining_def)

lemma object_conversions_le:
  "length bs = 2 \<Longrightarrow> ntohs host_order (of_object_bytes host_order bs) = of_be_bytes bs"
  "length bs = 4 \<Longrightarrow> ntohl host_order (of_object_bytes host_order bs) = of_be_bytes bs"
  "length bs = 8 \<Longrightarrow> ntohll host_order (of_object_bytes host_order bs) = of_be_bytes bs"
  using le_bytes_of_le_bytes[of bs, where 'a = 16] le_bytes_of_le_bytes[of bs, where 'a = 32]
    le_bytes_of_le_bytes[of bs, where 'a = 64]
  by (simp_all add: host_order_def ntohs_def ntohl_def ntohll_eq_htonll htons_def htonl_def
      htonll_little of_object_bytes_def)

lemma read_u8_eq:
  "read_u8 r = (case remaining r of [] \<Rightarrow> None | b # _ \<Rightarrow> Some (b, advance 1 r))"
proof (cases "offset r < length (r_buffer r)")
  case True
  then have "remaining r = r_buffer r ! offset r # drop (Suc (offset r)) (r_buffer r)"
    by (simp add: remaining_def Cons_nth_drop_Suc)
  with True show ?thesis by (simp add: read_u8_def fits_def)
qed (simp add: read_u8_def fits_def remaining_def)

lemma read_u16_eq:
  "read_u16 r = (if 2 \<le> length (remaining r)
     then Some (of_be_bytes (take 2 (remaining r)), advance 2 r) else None)"
  by (simp add: read_u16_def fits_iff object_conversions_le)

lemma read_u32_eq:
  "read_u32 r = (if 4 \<le> length (remaining r)
     then Some (of_be_bytes (take 4 (remaining r)), advance 4 r) else None)"
  by (simp add: read_u32_def fits_iff object_conversions_le)

lemma read_u64_eq:
  "read_u64 r = (if 8 \<le> length (remaining r)
     then Some (of_be_bytes (take 8 (remaining r)), advance 8 r) else None)"
  by (simp add: read_u64_def fits_iff object_conversions_le)

lemmas read_eqs [wire_simps] = read_u8_eq read_u16_eq read_u32_eq read_u64_eq

text \<open>Reading back what was written, whatever follows it in the buffer.\<close>

lemma read_write_string [wire_simps]:
  assumes "remaining r = be_bytes 4 (of_nat (length s) :: u32) @ map u8_of_char s @ rest"
    and "length s < 2 ^ 32"
  shows "read_string r = Some (s, advance (4 + length s) r)"
proof -
  have n: "unat (of_nat (length s) :: u32) = length s"
    using assms(2) by (simp add: unat_of_nat)
  have "offset r + 4 + length s \<le> length (r_buffer r)"
    using arg_cong[OF assms(1), of length] by (simp add: remaining_def)
  then have "fits (length s) (advance 4 r)" by (simp add: fits_def advance_def)
  then show ?thesis
    using assms(1) by (simp add: read_string_def read_u32_eq n)
qed

subsection \<open>Properties\<close>

text \<open>
  The wire format does not depend on the host: on little-endian and on big-endian hosts the
  bytes that \<^verbatim>\<open>htonll\<close> and \<^verbatim>\<open>memcpy\<close> leave in the buffer are the big-endian representation
  of the value, and \<^verbatim>\<open>ntohll\<close> of these bytes on any host is the value again.
\<close>

theorem htonll_wire_format:
  "object_bytes e 8 (htonll e v) = be_bytes 8 v \<and>
   ntohll e' (of_object_bytes e' (object_bytes e 8 (htonll e v))) = v"
proof -
  have "ntohll e' (of_object_bytes e' (be_bytes 8 v)) = v"
    using object_conversions_le(3)[of "be_bytes 8 v"]
    by (cases e')
      (simp_all add: host_order_def of_object_bytes_def ntohll_eq_htonll htonll_def[of BIG_ENDIAN])
  then show ?thesis by (simp add: object_bytes_htonll)
qed

end
