(* ===== verification/Codec.thy ===== *)
theory Codec
  imports Buffer
begin

text \<open>
  The contract shared by every \<^verbatim>\<open>serialize\<close> / \<^verbatim>\<open>deserialize\<close> pair of the headers.

  \<^verbatim>\<open>serialize\<close> is a const member that appends to a writer; \<^verbatim>\<open>deserialize\<close> overwrites the
  fields of an existing object and leaves alone what it does not read. The contract has
  the value sent (\<open>x\<close>), the object read into (\<open>old\<close>), the values the format can carry
  (\<open>wf\<close>) and what the receiver ends with (\<open>recv old x\<close>).

  \<open>for_read\<close> is the counting loop of the container formats (\<^verbatim>\<open>SnapshotMsg\<close>,
  \<^verbatim>\<open>TopResponseMsg\<close>).
\<close>

definition wire_bytes :: "('a \<Rightarrow> BufferWriter \<Rightarrow> BufferWriter) \<Rightarrow> 'a \<Rightarrow> u8 list" where
  "wire_bytes ser x = w_buffer (ser x BufferWriter_init)"

primrec for_read ::
  "nat \<Rightarrow> ('s \<Rightarrow> BufferReader \<Rightarrow> ('s \<times> BufferReader) option) \<Rightarrow> 's \<Rightarrow> BufferReader
     \<Rightarrow> ('s \<times> BufferReader) option" where
  "for_read 0 body s r = Some (s, r)"
| "for_read (Suc n) body s r = do { (s, r) \<leftarrow> body s r; for_read n body s r }"

lemma w_buffer_init [simp, wire_simps]: "w_buffer BufferWriter_init = []"
  by (simp add: BufferWriter_init_def)

locale codec =
  fixes ser :: "'a \<Rightarrow> BufferWriter \<Rightarrow> BufferWriter"
    and des :: "'a \<Rightarrow> BufferReader \<Rightarrow> ('a \<times> BufferReader) option"
    and wf :: "'a \<Rightarrow> bool"
    and recv :: "'a \<Rightarrow> 'a \<Rightarrow> 'a"
  assumes ser_append: "w_buffer (ser x w) = w_buffer w @ wire_bytes ser x"
    and des_ser: "remaining r = wire_bytes ser x @ rest \<Longrightarrow> wf x \<Longrightarrow>
      des old r = Some (recv old x, advance (length (wire_bytes ser x)) r)"
begin

text \<open>A whole buffer: everything is consumed and the value arrives.\<close>

lemma des_whole:
  "wf x \<Longrightarrow> des old (BufferReader_init (wire_bytes ser x)) =
     Some (recv old x, advance (length (wire_bytes ser x)) (BufferReader_init (wire_bytes ser x)))"
  by (rule des_ser[where rest = "[]"]) simp_all

text \<open>The bytes of a value determine what the receiver sees: no format is ambiguous.\<close>

lemma wire_inj: "wf x \<Longrightarrow> wf y \<Longrightarrow> wire_bytes ser x = wire_bytes ser y \<Longrightarrow> recv old x = recv old y"
  using des_whole[of x old] des_whole[of y old] by simp

lemma fold_ser: "w_buffer (fold ser xs w) = w_buffer w @ concat (map (wire_bytes ser) xs)"
  by (induction xs arbitrary: w) (simp_all add: ser_append)

text \<open>
  The counting loop over a container: one element per round, each folded into the
  receiving container.
\<close>

lemma for_read_concat:
  assumes "\<forall>x\<in>set xs. wf x"
    and "remaining r = concat (map (wire_bytes ser) xs) @ rest"
    and body: "\<And>s r. body s r = do { (x, r) \<leftarrow> des new r; Some (put x s, r) }"
  shows "for_read (length xs) body s r =
    Some (fold (\<lambda>x. put (recv new x)) xs s,
          advance (length (concat (map (wire_bytes ser) xs))) r)"
  using assms(1,2)
proof (induction xs arbitrary: s r)
  case Nil
  then show ?case by (simp add: advance_def)
next
  case (Cons x xs)
  then have "des new r = Some (recv new x, advance (length (wire_bytes ser x)) r)"
    by (intro des_ser) simp_all
  with Cons show ?case by (simp add: body)
qed

end

end
