(* ===== verification/Task.thy ===== *)
theory Task
  imports Codec
begin

text \<open>
  \<^verbatim>\<open>include/task/task.hpp\<close>: tasks, their types and states, and their wire format.

  The enumerations have an underlying type \<^verbatim>\<open>uint8_t\<close>, so \<^verbatim>\<open>static_cast\<close> from a received
  byte gives a value for every byte; \<open>TaskType_undef\<close> and \<open>TaskState_undef\<close> are the values
  without an enumerator, which the \<^verbatim>\<open>switch\<close> statements send to their default.
\<close>

datatype TaskType = SYNTHETIC | WORD_COUNT | TaskType_undef u8

datatype TaskState = QUEUED | RUNNING | COMPLETED | TaskState_undef u8

fun TaskType_code :: "TaskType \<Rightarrow> u8" where
  "TaskType_code SYNTHETIC = 0"
| "TaskType_code WORD_COUNT = 1"
| "TaskType_code (TaskType_undef n) = n"

definition TaskType_cast :: "u8 \<Rightarrow> TaskType" where
  "TaskType_cast n = (if n = 0 then SYNTHETIC else if n = 1 then WORD_COUNT else TaskType_undef n)"

fun TaskState_code :: "TaskState \<Rightarrow> u8" where
  "TaskState_code QUEUED = 0"
| "TaskState_code RUNNING = 1"
| "TaskState_code COMPLETED = 2"
| "TaskState_code (TaskState_undef n) = n"

definition TaskState_cast :: "u8 \<Rightarrow> TaskState" where
  "TaskState_cast n = (if n = 0 then QUEUED else if n = 1 then RUNNING
     else if n = 2 then COMPLETED else TaskState_undef n)"

record SyntheticTask =
  duration_us :: u32

record WordCountTask =
  words :: string

record Task =
  t_id :: u64
  queued_at :: u64
  started_at :: u64
  completed_at :: u64
  t_client_id :: u32
  t_worker_id :: u32
  t_result :: u32
  t_success :: u8
  t_type :: TaskType
  t_state :: TaskState
  synthetic_task :: SyntheticTask
  word_count_task :: WordCountTask

definition Task_default :: Task where
  "Task_default = \<lparr>t_id = 0, queued_at = 0, started_at = 0, completed_at = 0,
     t_client_id = 0, t_worker_id = 0, t_result = 0, t_success = 0,
     t_type = SYNTHETIC, t_state = QUEUED,
     synthetic_task = \<lparr>duration_us = 0\<rparr>, word_count_task = \<lparr>words = []\<rparr>\<rparr>"

definition Task_new :: "u64 \<Rightarrow> u32 \<Rightarrow> TaskType \<Rightarrow> u64 \<Rightarrow> Task" where
  "Task_new tid client_id type now =
     Task_default\<lparr>t_id := tid, queued_at := now, t_client_id := client_id,
       t_type := type, t_state := QUEUED\<rparr>"

definition Task_serialize :: "Task \<Rightarrow> BufferWriter \<Rightarrow> BufferWriter" where
  "Task_serialize t w = (let
     w = write_u64 (t_id t) w;
     w = write_u8 (TaskType_code (t_type t)) w;
     w = write_u8 (TaskState_code (t_state t)) w;
     w = write_u32 (t_client_id t) w;
     w = write_u32 (t_worker_id t) w;
     w = write_u64 (queued_at t) w;
     w = write_u64 (started_at t) w;
     w = write_u64 (completed_at t) w;
     w = write_u8 (t_success t) w;
     w = write_u32 (t_result t) w
   in case t_type t of
        SYNTHETIC \<Rightarrow> write_u64 (ucast (duration_us (synthetic_task t))) w
      | _ \<Rightarrow> w)"

definition Task_deserialize :: "Task \<Rightarrow> BufferReader \<Rightarrow> (Task \<times> BufferReader) option" where
  "Task_deserialize t r = do {
     (v, r) \<leftarrow> read_u64 r; let t = t\<lparr>t_id := v\<rparr>;
     (v, r) \<leftarrow> read_u8 r; let t = t\<lparr>t_type := TaskType_cast v\<rparr>;
     (v, r) \<leftarrow> read_u8 r; let t = t\<lparr>t_state := TaskState_cast v\<rparr>;
     (v, r) \<leftarrow> read_u32 r; let t = t\<lparr>t_client_id := v\<rparr>;
     (v, r) \<leftarrow> read_u32 r; let t = t\<lparr>t_worker_id := v\<rparr>;
     (v, r) \<leftarrow> read_u64 r; let t = t\<lparr>queued_at := v\<rparr>;
     (v, r) \<leftarrow> read_u64 r; let t = t\<lparr>started_at := v\<rparr>;
     (v, r) \<leftarrow> read_u64 r; let t = t\<lparr>completed_at := v\<rparr>;
     (v, r) \<leftarrow> read_u8 r; let t = t\<lparr>t_success := v\<rparr>;
     (v, r) \<leftarrow> read_u32 r; let t = t\<lparr>t_result := v\<rparr>;
     case t_type t of
       SYNTHETIC \<Rightarrow> do {
         (v, r) \<leftarrow> read_u64 r;
         Some (t\<lparr>synthetic_task := (synthetic_task t)\<lparr>duration_us := ucast v\<rparr>\<rparr>, r)
       }
     | _ \<Rightarrow> Some (t, r)
   }"

text \<open>
  \<open>Task_recv\<close> is what a receiver has after reading a sent task over \<open>old\<close>: every field of
  the sent task, except that the synthetic payload travels only with synthetic tasks and
  the text of a word-count task does not travel at all.
\<close>

definition Task_recv :: "Task \<Rightarrow> Task \<Rightarrow> Task" where
  "Task_recv old t = t\<lparr>
     synthetic_task := (if t_type t = SYNTHETIC
       then (synthetic_task old)\<lparr>duration_us := duration_us (synthetic_task t)\<rparr>
       else synthetic_task old),
     word_count_task := word_count_task old\<rparr>"

definition TaskType_ok :: "TaskType \<Rightarrow> bool" where
  "TaskType_ok ty = (TaskType_cast (TaskType_code ty) = ty)"

definition TaskState_ok :: "TaskState \<Rightarrow> bool" where
  "TaskState_ok st = (TaskState_cast (TaskState_code st) = st)"

definition Task_wf :: "Task \<Rightarrow> bool" where
  "Task_wf t \<longleftrightarrow> TaskType_ok (t_type t) \<and> TaskState_ok (t_state t)"

lemma TaskType_ok_enum [simp]: "TaskType_ok SYNTHETIC" "TaskType_ok WORD_COUNT"
  by (simp_all add: TaskType_ok_def TaskType_cast_def)

lemma TaskState_ok_enum [simp]: "TaskState_ok QUEUED" "TaskState_ok RUNNING" "TaskState_ok COMPLETED"
  by (simp_all add: TaskState_ok_def TaskState_cast_def)

lemma TaskType_cast_ok: "TaskType_ok (TaskType_cast n)"
  by (simp add: TaskType_ok_def TaskType_cast_def)

lemma TaskState_cast_ok: "TaskState_ok (TaskState_cast n)"
  by (simp add: TaskState_ok_def TaskState_cast_def)

lemma Task_bytes:
  "wire_bytes Task_serialize t =
     be_bytes 8 (t_id t) @ [TaskType_code (t_type t), TaskState_code (t_state t)] @
     be_bytes 4 (t_client_id t) @ be_bytes 4 (t_worker_id t) @
     be_bytes 8 (queued_at t) @ be_bytes 8 (started_at t) @ be_bytes 8 (completed_at t) @
     [t_success t] @ be_bytes 4 (t_result t) @
     (if t_type t = SYNTHETIC then be_bytes 8 (ucast (duration_us (synthetic_task t)) :: u64)
      else [])"
  by (simp add: wire_bytes_def Task_serialize_def Let_def split: TaskType.split)

lemma Task_ser_append:
  "w_buffer (Task_serialize t w) = w_buffer w @ wire_bytes Task_serialize t"
  by (simp add: wire_bytes_def Task_serialize_def Let_def split: TaskType.split)

lemma ucast_u32_u64_u32 [simp]: "(ucast (ucast (v :: u32) :: u64) :: u32) = v"
  by (auto intro!: bit_word_eqI simp: bit_simps)

lemma Task_des_ser:
  assumes "Task_wf t" and "remaining r = wire_bytes Task_serialize t @ rest"
  shows "Task_deserialize old r =
    Some (Task_recv old t, advance (length (wire_bytes Task_serialize t)) r)"
proof -
  have ok: "TaskType_cast (TaskType_code (t_type t)) = t_type t"
    "TaskState_cast (TaskState_code (t_state t)) = t_state t"
    using assms(1) by (simp_all add: Task_wf_def TaskType_ok_def TaskState_ok_def)
  show ?thesis
    using assms(2) ok unfolding Task_bytes
    by (cases "t_type t")
      (simp_all add: Task_deserialize_def Task_recv_def read_eqs Let_def)
qed

interpretation task_codec: codec Task_serialize Task_deserialize Task_wf Task_recv
  by unfold_locales (simp_all add: Task_ser_append Task_des_ser)

text \<open>The size of a serialised task: 55 bytes for a synthetic one, 47 for any other.\<close>

lemma Task_length:
  "length (wire_bytes Task_serialize t) = (if t_type t = SYNTHETIC then 55 else 47)"
  by (simp add: Task_bytes)

end
