(* ===== verification/Top_Types.thy ===== *)
theory Top_Types
  imports Codec
begin

text \<open>
  \<^verbatim>\<open>include/top/types.hpp\<close>: the metric records that a coordinator reports to the monitoring
  tool, with their wire format.
\<close>

record CoordinatorMetrics =
  min_latency_us :: u64
  max_latency_us :: u64
  avg_latency_us :: u64
  p95_latency_us :: u64
  cm_tasks_completed :: u64
  cm_tasks_queued :: u64
  cm_tasks_running :: u64
  throughput :: u64
  cm_active_workers :: u32
  cm_is_primary :: u8

definition CoordinatorMetrics_default :: CoordinatorMetrics where
  "CoordinatorMetrics_default = \<lparr>min_latency_us = 0, max_latency_us = 0, avg_latency_us = 0,
     p95_latency_us = 0, cm_tasks_completed = 0, cm_tasks_queued = 0, cm_tasks_running = 0,
     throughput = 0, cm_active_workers = 0, cm_is_primary = 0\<rparr>"

definition CoordinatorMetrics_serialize :: "CoordinatorMetrics \<Rightarrow> BufferWriter \<Rightarrow> BufferWriter" where
  "CoordinatorMetrics_serialize m w = (let
     w = write_u64 (min_latency_us m) w;
     w = write_u64 (max_latency_us m) w;
     w = write_u64 (avg_latency_us m) w;
     w = write_u64 (p95_latency_us m) w;
     w = write_u64 (cm_tasks_completed m) w;
     w = write_u64 (cm_tasks_queued m) w;
     w = write_u64 (cm_tasks_running m) w;
     w = write_u64 (throughput m) w;
     w = write_u32 (cm_active_workers m) w
   in write_u8 (cm_is_primary m) w)"

definition CoordinatorMetrics_deserialize ::
  "CoordinatorMetrics \<Rightarrow> BufferReader \<Rightarrow> (CoordinatorMetrics \<times> BufferReader) option" where
  "CoordinatorMetrics_deserialize m r = do {
     (v, r) \<leftarrow> read_u64 r; let m = m\<lparr>min_latency_us := v\<rparr>;
     (v, r) \<leftarrow> read_u64 r; let m = m\<lparr>max_latency_us := v\<rparr>;
     (v, r) \<leftarrow> read_u64 r; let m = m\<lparr>avg_latency_us := v\<rparr>;
     (v, r) \<leftarrow> read_u64 r; let m = m\<lparr>p95_latency_us := v\<rparr>;
     (v, r) \<leftarrow> read_u64 r; let m = m\<lparr>cm_tasks_completed := v\<rparr>;
     (v, r) \<leftarrow> read_u64 r; let m = m\<lparr>cm_tasks_queued := v\<rparr>;
     (v, r) \<leftarrow> read_u64 r; let m = m\<lparr>cm_tasks_running := v\<rparr>;
     (v, r) \<leftarrow> read_u64 r; let m = m\<lparr>throughput := v\<rparr>;
     (v, r) \<leftarrow> read_u32 r; let m = m\<lparr>cm_active_workers := v\<rparr>;
     (v, r) \<leftarrow> read_u8 r; let m = m\<lparr>cm_is_primary := v\<rparr>;
     Some (m, r)
   }"

record WorkerMetrics =
  wm_avg_latency_us :: u64
  wm_tasks_completed :: u64
  wm_tasks_running :: u64
  last_heartbeat_ms :: u64
  wm_worker_id :: u32
  wm_alive :: u8

definition WorkerMetrics_default :: WorkerMetrics where
  "WorkerMetrics_default = \<lparr>wm_avg_latency_us = 0, wm_tasks_completed = 0, wm_tasks_running = 0,
     last_heartbeat_ms = 0, wm_worker_id = 0, wm_alive = 0\<rparr>"

definition WorkerMetrics_serialize :: "WorkerMetrics \<Rightarrow> BufferWriter \<Rightarrow> BufferWriter" where
  "WorkerMetrics_serialize m w = (let
     w = write_u64 (wm_avg_latency_us m) w;
     w = write_u64 (wm_tasks_completed m) w;
     w = write_u64 (wm_tasks_running m) w;
     w = write_u64 (last_heartbeat_ms m) w;
     w = write_u32 (wm_worker_id m) w
   in write_u8 (wm_alive m) w)"

definition WorkerMetrics_deserialize ::
  "WorkerMetrics \<Rightarrow> BufferReader \<Rightarrow> (WorkerMetrics \<times> BufferReader) option" where
  "WorkerMetrics_deserialize m r = do {
     (v, r) \<leftarrow> read_u64 r; let m = m\<lparr>wm_avg_latency_us := v\<rparr>;
     (v, r) \<leftarrow> read_u64 r; let m = m\<lparr>wm_tasks_completed := v\<rparr>;
     (v, r) \<leftarrow> read_u64 r; let m = m\<lparr>wm_tasks_running := v\<rparr>;
     (v, r) \<leftarrow> read_u64 r; let m = m\<lparr>last_heartbeat_ms := v\<rparr>;
     (v, r) \<leftarrow> read_u32 r; let m = m\<lparr>wm_worker_id := v\<rparr>;
     (v, r) \<leftarrow> read_u8 r; let m = m\<lparr>wm_alive := v\<rparr>;
     Some (m, r)
   }"

interpretation cm_codec: codec CoordinatorMetrics_serialize CoordinatorMetrics_deserialize
  "\<lambda>_. True" "\<lambda>_ m. m"
  by unfold_locales
    (simp_all add: wire_bytes_def CoordinatorMetrics_serialize_def
      CoordinatorMetrics_deserialize_def Let_def read_eqs)

interpretation wm_codec: codec WorkerMetrics_serialize WorkerMetrics_deserialize
  "\<lambda>_. True" "\<lambda>_ m. m"
  by unfold_locales
    (simp_all add: wire_bytes_def WorkerMetrics_serialize_def WorkerMetrics_deserialize_def
      Let_def read_eqs)

end
