(* ===== verification/Message.thy ===== *)
theory Message
  imports Task Top_Types
begin

text \<open>
  \<^verbatim>\<open>include/message/message.hpp\<close>: the messages exchanged by clients, the router, the
  coordinators and the workers, with their wire formats.

  A \<open>Message\<close> holds one slot for every kind of payload, as the C++ struct does; the type
  field says which slot travels. Reading a message overwrites the slot of the received
  type and leaves the others as they were.
\<close>

subsection \<open>Message types\<close>

datatype MessageType = SUBMIT | ASSIGN | COMPLETE | RESULT | ASSIGNED_REPLICATE
  | COMPLETED_REPLICATE | HEARTBEAT | REGISTER | ACKNOWLEDGE | SNAPSHOT | PEER_RECONNECTED
  | TOP_REQUEST | TOP_RESPONSE | MessageType_undef u8

fun MessageType_code :: "MessageType \<Rightarrow> u8" where
  "MessageType_code SUBMIT = 0"
| "MessageType_code ASSIGN = 1"
| "MessageType_code COMPLETE = 2"
| "MessageType_code RESULT = 3"
| "MessageType_code ASSIGNED_REPLICATE = 4"
| "MessageType_code COMPLETED_REPLICATE = 5"
| "MessageType_code HEARTBEAT = 6"
| "MessageType_code REGISTER = 7"
| "MessageType_code ACKNOWLEDGE = 8"
| "MessageType_code SNAPSHOT = 9"
| "MessageType_code PEER_RECONNECTED = 10"
| "MessageType_code TOP_REQUEST = 11"
| "MessageType_code TOP_RESPONSE = 12"
| "MessageType_code (MessageType_undef n) = n"

definition MessageType_cast :: "u8 \<Rightarrow> MessageType" where
  "MessageType_cast n =
     (if n = 0 then SUBMIT else if n = 1 then ASSIGN else if n = 2 then COMPLETE
      else if n = 3 then RESULT else if n = 4 then ASSIGNED_REPLICATE
      else if n = 5 then COMPLETED_REPLICATE else if n = 6 then HEARTBEAT
      else if n = 7 then REGISTER else if n = 8 then ACKNOWLEDGE else if n = 9 then SNAPSHOT
      else if n = 10 then PEER_RECONNECTED else if n = 11 then TOP_REQUEST
      else if n = 12 then TOP_RESPONSE else MessageType_undef n)"

subsection \<open>Payloads\<close>

record SubmitMsg =
  sm_task_id :: u64
  sm_client_id :: u32
  sm_duration_us :: u32
  sm_type :: TaskType
  sm_words :: string

definition SubmitMsg_default :: SubmitMsg where
  "SubmitMsg_default = \<lparr>sm_task_id = 0, sm_client_id = 0, sm_duration_us = 0,
     sm_type = SYNTHETIC, sm_words = []\<rparr>"

definition SubmitMsg_serialize :: "SubmitMsg \<Rightarrow> BufferWriter \<Rightarrow> BufferWriter" where
  "SubmitMsg_serialize m w = (let
     w = write_u64 (sm_task_id m) w;
     w = write_u32 (sm_client_id m) w;
     w = write_u8 (TaskType_code (sm_type m)) w
   in if sm_type m = WORD_COUNT then write_string (sm_words m) w
      else write_u32 (sm_duration_us m) w)"

definition SubmitMsg_deserialize ::
  "SubmitMsg \<Rightarrow> BufferReader \<Rightarrow> (SubmitMsg \<times> BufferReader) option" where
  "SubmitMsg_deserialize m r = do {
     (v, r) \<leftarrow> read_u64 r; let m = m\<lparr>sm_task_id := v\<rparr>;
     (v, r) \<leftarrow> read_u32 r; let m = m\<lparr>sm_client_id := v\<rparr>;
     (v, r) \<leftarrow> read_u8 r; let m = m\<lparr>sm_type := TaskType_cast v\<rparr>;
     if sm_type m = WORD_COUNT then do {
       (v, r) \<leftarrow> read_string r; Some (m\<lparr>sm_words := v\<rparr>, r)
     } else do {
       (v, r) \<leftarrow> read_u32 r; Some (m\<lparr>sm_duration_us := v\<rparr>, r)
     }
   }"

record AssignMsg =
  am_task_id :: u64
  am_duration_us :: u32
  am_type :: TaskType
  am_words :: string

definition AssignMsg_default :: AssignMsg where
  "AssignMsg_default = \<lparr>am_task_id = 0, am_duration_us = 0, am_type = SYNTHETIC, am_words = []\<rparr>"

definition AssignMsg_serialize :: "AssignMsg \<Rightarrow> BufferWriter \<Rightarrow> BufferWriter" where
  "AssignMsg_serialize m w = (let
     w = write_u64 (am_task_id m) w;
     w = write_u8 (TaskType_code (am_type m)) w
   in if am_type m = WORD_COUNT then write_string (am_words m) w
      else write_u32 (am_duration_us m) w)"

definition AssignMsg_deserialize ::
  "AssignMsg \<Rightarrow> BufferReader \<Rightarrow> (AssignMsg \<times> BufferReader) option" where
  "AssignMsg_deserialize m r = do {
     (v, r) \<leftarrow> read_u64 r; let m = m\<lparr>am_task_id := v\<rparr>;
     (v, r) \<leftarrow> read_u8 r; let m = m\<lparr>am_type := TaskType_cast v\<rparr>;
     if am_type m = WORD_COUNT then do {
       (v, r) \<leftarrow> read_string r; Some (m\<lparr>am_words := v\<rparr>, r)
     } else do {
       (v, r) \<leftarrow> read_u32 r; Some (m\<lparr>am_duration_us := v\<rparr>, r)
     }
   }"

record CompleteMsg =
  com_task_id :: u64
  com_started_at :: u64
  com_completed_at :: u64
  com_result :: u32
  com_success :: u8

definition CompleteMsg_default :: CompleteMsg where
  "CompleteMsg_default = \<lparr>com_task_id = 0, com_started_at = 0, com_completed_at = 0,
     com_result = 0, com_success = 0\<rparr>"

definition CompleteMsg_serialize :: "CompleteMsg \<Rightarrow> BufferWriter \<Rightarrow> BufferWriter" where
  "CompleteMsg_serialize m w = (let
     w = write_u64 (com_task_id m) w;
     w = write_u64 (com_started_at m) w;
     w = write_u64 (com_completed_at m) w;
     w = write_u32 (com_result m) w
   in write_u8 (com_success m) w)"

definition CompleteMsg_deserialize ::
  "CompleteMsg \<Rightarrow> BufferReader \<Rightarrow> (CompleteMsg \<times> BufferReader) option" where
  "CompleteMsg_deserialize m r = do {
     (v, r) \<leftarrow> read_u64 r; let m = m\<lparr>com_task_id := v\<rparr>;
     (v, r) \<leftarrow> read_u64 r; let m = m\<lparr>com_started_at := v\<rparr>;
     (v, r) \<leftarrow> read_u64 r; let m = m\<lparr>com_completed_at := v\<rparr>;
     (v, r) \<leftarrow> read_u32 r; let m = m\<lparr>com_result := v\<rparr>;
     (v, r) \<leftarrow> read_u8 r; let m = m\<lparr>com_success := v\<rparr>;
     Some (m, r)
   }"

record ResultMsg =
  rm_task_id :: u64
  rm_result :: u32
  rm_success :: u8

definition ResultMsg_default :: ResultMsg where
  "ResultMsg_default = \<lparr>rm_task_id = 0, rm_result = 0, rm_success = 0\<rparr>"

definition ResultMsg_serialize :: "ResultMsg \<Rightarrow> BufferWriter \<Rightarrow> BufferWriter" where
  "ResultMsg_serialize m w = (let
     w = write_u64 (rm_task_id m) w;
     w = write_u32 (rm_result m) w
   in write_u8 (rm_success m) w)"

definition ResultMsg_deserialize ::
  "ResultMsg \<Rightarrow> BufferReader \<Rightarrow> (ResultMsg \<times> BufferReader) option" where
  "ResultMsg_deserialize m r = do {
     (v, r) \<leftarrow> read_u64 r; let m = m\<lparr>rm_task_id := v\<rparr>;
     (v, r) \<leftarrow> read_u32 r; let m = m\<lparr>rm_result := v\<rparr>;
     (v, r) \<leftarrow> read_u8 r; let m = m\<lparr>rm_success := v\<rparr>;
     Some (m, r)
   }"

record AssignedReplicationMsg =
  ar_duration_us :: u64
  ar_task_id :: u64
  ar_queued_at :: u64
  ar_started_at :: u64
  ar_client_id :: u32
  ar_worker_id :: u32
  ar_task_type :: TaskType
  ar_words :: string

definition AssignedReplicationMsg_default :: AssignedReplicationMsg where
  "AssignedReplicationMsg_default = \<lparr>ar_duration_us = 0, ar_task_id = 0, ar_queued_at = 0,
     ar_started_at = 0, ar_client_id = 0, ar_worker_id = 0, ar_task_type = SYNTHETIC,
     ar_words = []\<rparr>"

definition AssignedReplicationMsg_serialize ::
  "AssignedReplicationMsg \<Rightarrow> BufferWriter \<Rightarrow> BufferWriter" where
  "AssignedReplicationMsg_serialize m w = (let
     w = write_u64 (ar_task_id m) w;
     w = write_u64 (ar_queued_at m) w;
     w = write_u64 (ar_started_at m) w;
     w = write_u32 (ar_client_id m) w;
     w = write_u32 (ar_worker_id m) w;
     w = write_u8 (TaskType_code (ar_task_type m)) w
   in case ar_task_type m of
        SYNTHETIC \<Rightarrow> write_u64 (ar_duration_us m) w
      | WORD_COUNT \<Rightarrow> write_string (ar_words m) w
      | _ \<Rightarrow> w)"

definition AssignedReplicationMsg_deserialize ::
  "AssignedReplicationMsg \<Rightarrow> BufferReader \<Rightarrow> (AssignedReplicationMsg \<times> BufferReader) option" where
  "AssignedReplicationMsg_deserialize m r = do {
     (v, r) \<leftarrow> read_u64 r; let m = m\<lparr>ar_task_id := v\<rparr>;
     (v, r) \<leftarrow> read_u64 r; let m = m\<lparr>ar_queued_at := v\<rparr>;
     (v, r) \<leftarrow> read_u64 r; let m = m\<lparr>ar_started_at := v\<rparr>;
     (v, r) \<leftarrow> read_u32 r; let m = m\<lparr>ar_client_id := v\<rparr>;
     (v, r) \<leftarrow> read_u32 r; let m = m\<lparr>ar_worker_id := v\<rparr>;
     (v, r) \<leftarrow> read_u8 r; let m = m\<lparr>ar_task_type := TaskType_cast v\<rparr>;
     case ar_task_type m of
       SYNTHETIC \<Rightarrow> do { (v, r) \<leftarrow> read_u64 r; Some (m\<lparr>ar_duration_us := v\<rparr>, r) }
     | WORD_COUNT \<Rightarrow> do { (v, r) \<leftarrow> read_string r; Some (m\<lparr>ar_words := v\<rparr>, r) }
     | _ \<Rightarrow> Some (m, r)
   }"

record CompletedReplicationMsg =
  cr_task_id :: u64
  cr_started_at :: u64
  cr_completed_at :: u64
  cr_worker_id :: u32
  cr_result :: u32
  cr_success :: u8

definition CompletedReplicationMsg_default :: CompletedReplicationMsg where
  "CompletedReplicationMsg_default = \<lparr>cr_task_id = 0, cr_started_at = 0, cr_completed_at = 0,
     cr_worker_id = 0, cr_result = 0, cr_success = 0\<rparr>"

definition CompletedReplicationMsg_serialize ::
  "CompletedReplicationMsg \<Rightarrow> BufferWriter \<Rightarrow> BufferWriter" where
  "CompletedReplicationMsg_serialize m w = (let
     w = write_u64 (cr_task_id m) w;
     w = write_u64 (cr_started_at m) w;
     w = write_u64 (cr_completed_at m) w;
     w = write_u32 (cr_worker_id m) w;
     w = write_u32 (cr_result m) w
   in write_u8 (cr_success m) w)"

definition CompletedReplicationMsg_deserialize ::
  "CompletedReplicationMsg \<Rightarrow> BufferReader \<Rightarrow> (CompletedReplicationMsg \<times> BufferReader) option" where
  "CompletedReplicationMsg_deserialize m r = do {
     (v, r) \<leftarrow> read_u64 r; let m = m\<lparr>cr_task_id := v\<rparr>;
     (v, r) \<leftarrow> read_u64 r; let m = m\<lparr>cr_started_at := v\<rparr>;
     (v, r) \<leftarrow> read_u64 r; let m = m\<lparr>cr_completed_at := v\<rparr>;
     (v, r) \<leftarrow> read_u32 r; let m = m\<lparr>cr_worker_id := v\<rparr>;
     (v, r) \<leftarrow> read_u32 r; let m = m\<lparr>cr_result := v\<rparr>;
     (v, r) \<leftarrow> read_u8 r; let m = m\<lparr>cr_success := v\<rparr>;
     Some (m, r)
   }"

record HeartBeatMsg =
  hb_worker_id :: u32

definition HeartBeatMsg_serialize :: "HeartBeatMsg \<Rightarrow> BufferWriter \<Rightarrow> BufferWriter" where
  "HeartBeatMsg_serialize m w = write_u32 (hb_worker_id m) w"

definition HeartBeatMsg_deserialize ::
  "HeartBeatMsg \<Rightarrow> BufferReader \<Rightarrow> (HeartBeatMsg \<times> BufferReader) option" where
  "HeartBeatMsg_deserialize m r = do {
     (v, r) \<leftarrow> read_u32 r; Some (m\<lparr>hb_worker_id := v\<rparr>, r)
   }"

record AcknowledgeMsg =
  ack_worker_id :: u32

definition AcknowledgeMsg_serialize :: "AcknowledgeMsg \<Rightarrow> BufferWriter \<Rightarrow> BufferWriter" where
  "AcknowledgeMsg_serialize m w = write_u32 (ack_worker_id m) w"

definition AcknowledgeMsg_deserialize ::
  "AcknowledgeMsg \<Rightarrow> BufferReader \<Rightarrow> (AcknowledgeMsg \<times> BufferReader) option" where
  "AcknowledgeMsg_deserialize m r = do {
     (v, r) \<leftarrow> read_u32 r; Some (m\<lparr>ack_worker_id := v\<rparr>, r)
   }"

record SnapshotMsg =
  snap_tasks :: "(u64, Task) umap"

definition SnapshotMsg_serialize :: "SnapshotMsg \<Rightarrow> BufferWriter \<Rightarrow> BufferWriter" where
  "SnapshotMsg_serialize m w =
     fold Task_serialize (map snd (snap_tasks m))
       (write_u32 (of_nat (length (snap_tasks m))) w)"

definition SnapshotMsg_read_task ::
  "(u64, Task) umap \<Rightarrow> BufferReader \<Rightarrow> ((u64, Task) umap \<times> BufferReader) option" where
  "SnapshotMsg_read_task tasks r = do {
     (task, r) \<leftarrow> Task_deserialize Task_default r;
     Some (umap_emplace (t_id task) task tasks, r)
   }"

definition SnapshotMsg_deserialize ::
  "SnapshotMsg \<Rightarrow> BufferReader \<Rightarrow> (SnapshotMsg \<times> BufferReader) option" where
  "SnapshotMsg_deserialize m r = do {
     (num_tasks, r) \<leftarrow> read_u32 r;
     (tasks, r) \<leftarrow> for_read (unat num_tasks) SnapshotMsg_read_task [] r;
     Some (m\<lparr>snap_tasks := tasks\<rparr>, r)
   }"

record TopResponseMsg =
  coordinator_metrics :: CoordinatorMetrics
  workers_metrics :: "WorkerMetrics list"

definition TopResponseMsg_default :: TopResponseMsg where
  "TopResponseMsg_default =
     \<lparr>coordinator_metrics = CoordinatorMetrics_default, workers_metrics = []\<rparr>"

definition TopResponseMsg_serialize :: "TopResponseMsg \<Rightarrow> BufferWriter \<Rightarrow> BufferWriter" where
  "TopResponseMsg_serialize m w = (let
     w = CoordinatorMetrics_serialize (coordinator_metrics m) w;
     w = write_u32 (of_nat (length (workers_metrics m))) w
   in fold WorkerMetrics_serialize (workers_metrics m) w)"

definition TopResponseMsg_read_worker ::
  "WorkerMetrics list \<Rightarrow> BufferReader \<Rightarrow> (WorkerMetrics list \<times> BufferReader) option" where
  "TopResponseMsg_read_worker ws r = do {
     (wm, r) \<leftarrow> WorkerMetrics_deserialize WorkerMetrics_default r;
     Some (ws @ [wm], r)
   }"

definition TopResponseMsg_deserialize ::
  "TopResponseMsg \<Rightarrow> BufferReader \<Rightarrow> (TopResponseMsg \<times> BufferReader) option" where
  "TopResponseMsg_deserialize m r = do {
     (cm, r) \<leftarrow> CoordinatorMetrics_deserialize (coordinator_metrics m) r;
     let m = m\<lparr>coordinator_metrics := cm\<rparr>;
     (num_workers, r) \<leftarrow> read_u32 r;
     (ws, r) \<leftarrow> for_read (unat num_workers) TopResponseMsg_read_worker [] r;
     Some (m\<lparr>workers_metrics := ws\<rparr>, r)
   }"

subsection \<open>Messages\<close>

record Message =
  epoch :: u64
  m_type :: MessageType
  submit :: SubmitMsg
  assign :: AssignMsg
  complete :: CompleteMsg
  result :: ResultMsg
  assigned_rep :: AssignedReplicationMsg
  completed_rep :: CompletedReplicationMsg
  heartbeat :: HeartBeatMsg
  acknowledge :: AcknowledgeMsg
  snapshot :: SnapshotMsg
  top_response :: TopResponseMsg

definition Message_new :: "MessageType \<Rightarrow> Message" where
  "Message_new ty = \<lparr>epoch = 0, m_type = ty, submit = SubmitMsg_default,
     assign = AssignMsg_default, complete = CompleteMsg_default, result = ResultMsg_default,
     assigned_rep = AssignedReplicationMsg_default,
     completed_rep = CompletedReplicationMsg_default, heartbeat = \<lparr>hb_worker_id = 0\<rparr>,
     acknowledge = \<lparr>ack_worker_id = 0\<rparr>, snapshot = \<lparr>snap_tasks = []\<rparr>,
     top_response = TopResponseMsg_default\<rparr>"

definition Message_default :: Message where
  "Message_default = Message_new SUBMIT"

definition Message_serialize :: "Message \<Rightarrow> BufferWriter \<Rightarrow> BufferWriter" where
  "Message_serialize m w = (let
     w = write_u64 (epoch m) w;
     w = write_u8 (MessageType_code (m_type m)) w
   in case m_type m of
        SUBMIT \<Rightarrow> SubmitMsg_serialize (submit m) w
      | ASSIGN \<Rightarrow> AssignMsg_serialize (assign m) w
      | COMPLETE \<Rightarrow> CompleteMsg_serialize (complete m) w
      | RESULT \<Rightarrow> ResultMsg_serialize (result m) w
      | ASSIGNED_REPLICATE \<Rightarrow> AssignedReplicationMsg_serialize (assigned_rep m) w
      | COMPLETED_REPLICATE \<Rightarrow> CompletedReplicationMsg_serialize (completed_rep m) w
      | HEARTBEAT \<Rightarrow> HeartBeatMsg_serialize (heartbeat m) w
      | ACKNOWLEDGE \<Rightarrow> AcknowledgeMsg_serialize (acknowledge m) w
      | SNAPSHOT \<Rightarrow> SnapshotMsg_serialize (snapshot m) w
      | TOP_RESPONSE \<Rightarrow> TopResponseMsg_serialize (top_response m) w
      | _ \<Rightarrow> w)"

definition Message_deserialize :: "Message \<Rightarrow> BufferReader \<Rightarrow> (Message \<times> BufferReader) option" where
  "Message_deserialize m r = do {
     (v, r) \<leftarrow> read_u64 r; let m = m\<lparr>epoch := v\<rparr>;
     (v, r) \<leftarrow> read_u8 r; let m = m\<lparr>m_type := MessageType_cast v\<rparr>;
     case m_type m of
       SUBMIT \<Rightarrow> do {
         (x, r) \<leftarrow> SubmitMsg_deserialize (submit m) r; Some (m\<lparr>submit := x\<rparr>, r) }
     | ASSIGN \<Rightarrow> do {
         (x, r) \<leftarrow> AssignMsg_deserialize (assign m) r; Some (m\<lparr>assign := x\<rparr>, r) }
     | COMPLETE \<Rightarrow> do {
         (x, r) \<leftarrow> CompleteMsg_deserialize (complete m) r; Some (m\<lparr>complete := x\<rparr>, r) }
     | RESULT \<Rightarrow> do {
         (x, r) \<leftarrow> ResultMsg_deserialize (result m) r; Some (m\<lparr>result := x\<rparr>, r) }
     | ASSIGNED_REPLICATE \<Rightarrow> do {
         (x, r) \<leftarrow> AssignedReplicationMsg_deserialize (assigned_rep m) r;
         Some (m\<lparr>assigned_rep := x\<rparr>, r) }
     | COMPLETED_REPLICATE \<Rightarrow> do {
         (x, r) \<leftarrow> CompletedReplicationMsg_deserialize (completed_rep m) r;
         Some (m\<lparr>completed_rep := x\<rparr>, r) }
     | HEARTBEAT \<Rightarrow> do {
         (x, r) \<leftarrow> HeartBeatMsg_deserialize (heartbeat m) r; Some (m\<lparr>heartbeat := x\<rparr>, r) }
     | ACKNOWLEDGE \<Rightarrow> do {
         (x, r) \<leftarrow> AcknowledgeMsg_deserialize (acknowledge m) r;
         Some (m\<lparr>acknowledge := x\<rparr>, r) }
     | SNAPSHOT \<Rightarrow> do {
         (x, r) \<leftarrow> SnapshotMsg_deserialize (snapshot m) r; Some (m\<lparr>snapshot := x\<rparr>, r) }
     | TOP_RESPONSE \<Rightarrow> do {
         (x, r) \<leftarrow> TopResponseMsg_deserialize (top_response m) r;
         Some (m\<lparr>top_response := x\<rparr>, r) }
     | _ \<Rightarrow> Some (m, r)
   }"

definition is_replication :: "Message \<Rightarrow> bool" where
  "is_replication m \<longleftrightarrow> m_type m = ASSIGNED_REPLICATE \<or> m_type m = COMPLETED_REPLICATE \<or>
     m_type m = SNAPSHOT"

end
