(* ===== verification/Message_Codec.thy ===== *)
theory Message_Codec
  imports Message
begin

text \<open>
  Round trips of the message formats: every payload format meets the contract \<open>codec\<close>, and
  so does \<open>Message\<close>. \<open>Message_wf\<close> says which messages the format can carry: texts and
  containers whose sizes fit the 32-bit length fields, enumeration values in canonical
  form. \<open>Message_recv old m\<close> is what the receiver of \<open>m\<close> has: \<open>old\<close> with the epoch, the type
  and the payload of that type replaced.
\<close>

subsection \<open>What can be sent, and what arrives\<close>

definition string_wf :: "string \<Rightarrow> bool" where
  "string_wf s \<longleftrightarrow> length s < 2 ^ 32"

definition SubmitMsg_wf :: "SubmitMsg \<Rightarrow> bool" where
  "SubmitMsg_wf m \<longleftrightarrow> TaskType_ok (sm_type m) \<and> string_wf (sm_words m)"

definition SubmitMsg_recv :: "SubmitMsg \<Rightarrow> SubmitMsg \<Rightarrow> SubmitMsg" where
  "SubmitMsg_recv old m = (if sm_type m = WORD_COUNT
     then m\<lparr>sm_duration_us := sm_duration_us old\<rparr> else m\<lparr>sm_words := sm_words old\<rparr>)"

definition AssignMsg_wf :: "AssignMsg \<Rightarrow> bool" where
  "AssignMsg_wf m \<longleftrightarrow> TaskType_ok (am_type m) \<and> string_wf (am_words m)"

definition AssignMsg_recv :: "AssignMsg \<Rightarrow> AssignMsg \<Rightarrow> AssignMsg" where
  "AssignMsg_recv old m = (if am_type m = WORD_COUNT
     then m\<lparr>am_duration_us := am_duration_us old\<rparr> else m\<lparr>am_words := am_words old\<rparr>)"

definition AssignedReplicationMsg_wf :: "AssignedReplicationMsg \<Rightarrow> bool" where
  "AssignedReplicationMsg_wf m \<longleftrightarrow> TaskType_ok (ar_task_type m) \<and> string_wf (ar_words m)"

definition AssignedReplicationMsg_recv ::
  "AssignedReplicationMsg \<Rightarrow> AssignedReplicationMsg \<Rightarrow> AssignedReplicationMsg" where
  "AssignedReplicationMsg_recv old m = (case ar_task_type m of
     SYNTHETIC \<Rightarrow> m\<lparr>ar_words := ar_words old\<rparr>
   | WORD_COUNT \<Rightarrow> m\<lparr>ar_duration_us := ar_duration_us old\<rparr>
   | _ \<Rightarrow> m\<lparr>ar_duration_us := ar_duration_us old, ar_words := ar_words old\<rparr>)"

definition SnapshotMsg_wf :: "SnapshotMsg \<Rightarrow> bool" where
  "SnapshotMsg_wf m \<longleftrightarrow>
     length (snap_tasks m) < 2 ^ 32 \<and> (\<forall>t\<in>set (map snd (snap_tasks m)). Task_wf t)"

definition snapshot_recv_tasks :: "(u64, Task) umap \<Rightarrow> (u64, Task) umap" where
  "snapshot_recv_tasks ts =
     fold (\<lambda>t. umap_emplace (t_id (Task_recv Task_default t)) (Task_recv Task_default t))
       (map snd ts) []"

definition SnapshotMsg_recv :: "SnapshotMsg \<Rightarrow> SnapshotMsg \<Rightarrow> SnapshotMsg" where
  "SnapshotMsg_recv old m = m\<lparr>snap_tasks := snapshot_recv_tasks (snap_tasks m)\<rparr>"

definition TopResponseMsg_wf :: "TopResponseMsg \<Rightarrow> bool" where
  "TopResponseMsg_wf m \<longleftrightarrow> length (workers_metrics m) < 2 ^ 32"

definition Message_wf :: "Message \<Rightarrow> bool" where
  "Message_wf m \<longleftrightarrow> MessageType_cast (MessageType_code (m_type m)) = m_type m \<and>
     (case m_type m of
        SUBMIT \<Rightarrow> SubmitMsg_wf (submit m)
      | ASSIGN \<Rightarrow> AssignMsg_wf (assign m)
      | ASSIGNED_REPLICATE \<Rightarrow> AssignedReplicationMsg_wf (assigned_rep m)
      | SNAPSHOT \<Rightarrow> SnapshotMsg_wf (snapshot m)
      | TOP_RESPONSE \<Rightarrow> TopResponseMsg_wf (top_response m)
      | _ \<Rightarrow> True)"

definition Message_recv :: "Message \<Rightarrow> Message \<Rightarrow> Message" where
  "Message_recv old m = (let new = old\<lparr>epoch := epoch m, m_type := m_type m\<rparr> in
     case m_type m of
       SUBMIT \<Rightarrow> new\<lparr>submit := SubmitMsg_recv (submit old) (submit m)\<rparr>
     | ASSIGN \<Rightarrow> new\<lparr>assign := AssignMsg_recv (assign old) (assign m)\<rparr>
     | COMPLETE \<Rightarrow> new\<lparr>complete := complete m\<rparr>
     | RESULT \<Rightarrow> new\<lparr>result := result m\<rparr>
     | ASSIGNED_REPLICATE \<Rightarrow>
         new\<lparr>assigned_rep := AssignedReplicationMsg_recv (assigned_rep old) (assigned_rep m)\<rparr>
     | COMPLETED_REPLICATE \<Rightarrow> new\<lparr>completed_rep := completed_rep m\<rparr>
     | HEARTBEAT \<Rightarrow> new\<lparr>heartbeat := heartbeat m\<rparr>
     | ACKNOWLEDGE \<Rightarrow> new\<lparr>acknowledge := acknowledge m\<rparr>
     | SNAPSHOT \<Rightarrow> new\<lparr>snapshot := SnapshotMsg_recv (snapshot old) (snapshot m)\<rparr>
     | TOP_RESPONSE \<Rightarrow> new\<lparr>top_response := top_response m\<rparr>
     | _ \<Rightarrow> new)"

subsection \<open>Fixed-size payloads\<close>

interpretation complete_codec: codec CompleteMsg_serialize CompleteMsg_deserialize
  "\<lambda>_. True" "\<lambda>_ m. m"
  by unfold_locales
    (simp_all add: wire_bytes_def CompleteMsg_serialize_def CompleteMsg_deserialize_def
      Let_def read_eqs)

interpretation result_codec: codec ResultMsg_serialize ResultMsg_deserialize
  "\<lambda>_. True" "\<lambda>_ m. m"
  by unfold_locales
    (simp_all add: wire_bytes_def ResultMsg_serialize_def ResultMsg_deserialize_def
      Let_def read_eqs)

interpretation completed_rep_codec:
  codec CompletedReplicationMsg_serialize CompletedReplicationMsg_deserialize
  "\<lambda>_. True" "\<lambda>_ m. m"
  by unfold_locales
    (simp_all add: wire_bytes_def CompletedReplicationMsg_serialize_def
      CompletedReplicationMsg_deserialize_def Let_def read_eqs)

interpretation heartbeat_codec: codec HeartBeatMsg_serialize HeartBeatMsg_deserialize
  "\<lambda>_. True" "\<lambda>_ m. m"
  by unfold_locales
    (simp_all add: wire_bytes_def HeartBeatMsg_serialize_def HeartBeatMsg_deserialize_def read_eqs)

interpretation acknowledge_codec: codec AcknowledgeMsg_serialize AcknowledgeMsg_deserialize
  "\<lambda>_. True" "\<lambda>_ m. m"
  by unfold_locales
    (simp_all add: wire_bytes_def AcknowledgeMsg_serialize_def AcknowledgeMsg_deserialize_def
      read_eqs)

subsection \<open>Payloads with a text\<close>

lemma SubmitMsg_des_ser:
  assumes "SubmitMsg_wf m" and "remaining r = wire_bytes SubmitMsg_serialize m @ rest"
  shows "SubmitMsg_deserialize old r =
    Some (SubmitMsg_recv old m, advance (length (wire_bytes SubmitMsg_serialize m)) r)"
proof -
  have ok: "TaskType_cast (TaskType_code (sm_type m)) = sm_type m" "length (sm_words m) < 2 ^ 32"
    using assms(1) by (simp_all add: SubmitMsg_wf_def TaskType_ok_def string_wf_def)
  show ?thesis
    using assms(2) ok
      read_write_string[of "advance 13 r" "sm_words m" rest]
    by (cases "sm_type m = WORD_COUNT")
      (simp_all add: wire_bytes_def SubmitMsg_serialize_def SubmitMsg_deserialize_def
        SubmitMsg_recv_def Let_def read_eqs)
qed

interpretation submit_codec: codec SubmitMsg_serialize SubmitMsg_deserialize
  SubmitMsg_wf SubmitMsg_recv
  by unfold_locales
    (simp add: wire_bytes_def SubmitMsg_serialize_def Let_def, rule SubmitMsg_des_ser)

lemma AssignMsg_des_ser:
  assumes "AssignMsg_wf m" and "remaining r = wire_bytes AssignMsg_serialize m @ rest"
  shows "AssignMsg_deserialize old r =
    Some (AssignMsg_recv old m, advance (length (wire_bytes AssignMsg_serialize m)) r)"
proof -
  have ok: "TaskType_cast (TaskType_code (am_type m)) = am_type m" "length (am_words m) < 2 ^ 32"
    using assms(1) by (simp_all add: AssignMsg_wf_def TaskType_ok_def string_wf_def)
  show ?thesis
    using assms(2) ok
      read_write_string[of "advance 9 r" "am_words m" rest]
    by (cases "am_type m = WORD_COUNT")
      (simp_all add: wire_bytes_def AssignMsg_serialize_def AssignMsg_deserialize_def
        AssignMsg_recv_def Let_def read_eqs)
qed

interpretation assign_codec: codec AssignMsg_serialize AssignMsg_deserialize
  AssignMsg_wf AssignMsg_recv
  by unfold_locales
    (simp add: wire_bytes_def AssignMsg_serialize_def Let_def, rule AssignMsg_des_ser)

lemma AssignedReplicationMsg_des_ser:
  assumes "AssignedReplicationMsg_wf m"
    and "remaining r = wire_bytes AssignedReplicationMsg_serialize m @ rest"
  shows "AssignedReplicationMsg_deserialize old r =
    Some (AssignedReplicationMsg_recv old m,
          advance (length (wire_bytes AssignedReplicationMsg_serialize m)) r)"
proof -
  have ok: "TaskType_cast (TaskType_code (ar_task_type m)) = ar_task_type m"
    "length (ar_words m) < 2 ^ 32"
    using assms(1) by (simp_all add: AssignedReplicationMsg_wf_def TaskType_ok_def string_wf_def)
  show ?thesis
    using assms(2) ok
      read_write_string[of "advance 33 r" "ar_words m" rest]
    by (cases "ar_task_type m")
      (simp_all add: wire_bytes_def AssignedReplicationMsg_serialize_def
        AssignedReplicationMsg_deserialize_def AssignedReplicationMsg_recv_def Let_def read_eqs)
qed

interpretation assigned_rep_codec:
  codec AssignedReplicationMsg_serialize AssignedReplicationMsg_deserialize
  AssignedReplicationMsg_wf AssignedReplicationMsg_recv
  by unfold_locales
    (simp add: wire_bytes_def AssignedReplicationMsg_serialize_def Let_def split: TaskType.split,
      rule AssignedReplicationMsg_des_ser)

subsection \<open>Containers\<close>

lemma SnapshotMsg_bytes:
  "wire_bytes SnapshotMsg_serialize m =
     be_bytes 4 (of_nat (length (snap_tasks m)) :: u32) @
     concat (map (wire_bytes Task_serialize) (map snd (snap_tasks m)))"
  by (simp add: wire_bytes_def[of SnapshotMsg_serialize] SnapshotMsg_serialize_def
      task_codec.fold_ser del: map_map)

lemma SnapshotMsg_des_ser:
  assumes "SnapshotMsg_wf m" and "remaining r = wire_bytes SnapshotMsg_serialize m @ rest"
  shows "SnapshotMsg_deserialize old r =
    Some (SnapshotMsg_recv old m, advance (length (wire_bytes SnapshotMsg_serialize m)) r)"
proof -
  let ?ts = "map snd (snap_tasks m)"
  have n: "unat (of_nat (length (snap_tasks m)) :: u32) = length ?ts"
    using assms(1) by (simp add: SnapshotMsg_wf_def unat_of_nat)
  have wf: "\<forall>t\<in>set ?ts. Task_wf t"
    using assms(1) by (simp add: SnapshotMsg_wf_def)
  have rem: "remaining (advance 4 r) = concat (map (wire_bytes Task_serialize) ?ts) @ rest"
    using assms(2) by (simp add: SnapshotMsg_bytes)
  have loop: "for_read (length ?ts) SnapshotMsg_read_task [] (advance 4 r) =
      Some (snapshot_recv_tasks (snap_tasks m),
        advance (length (concat (map (wire_bytes Task_serialize) ?ts))) (advance 4 r))"
    unfolding snapshot_recv_tasks_def
    by (rule task_codec.for_read_concat[OF wf rem, of _ _ "\<lambda>t. umap_emplace (t_id t) t"])
      (rule SnapshotMsg_read_task_def)
  have "read_u32 r = Some (of_nat (length (snap_tasks m)), advance 4 r)"
    using assms(2) by (simp add: SnapshotMsg_bytes read_eqs)
  with loop n show ?thesis
    by (simp add: SnapshotMsg_deserialize_def SnapshotMsg_recv_def SnapshotMsg_bytes
        del: map_map length_map)
qed

interpretation snapshot_codec: codec SnapshotMsg_serialize SnapshotMsg_deserialize
  SnapshotMsg_wf SnapshotMsg_recv
  by unfold_locales
    (simp add: SnapshotMsg_bytes SnapshotMsg_serialize_def task_codec.fold_ser del: map_map,
      rule SnapshotMsg_des_ser)

lemma TopResponseMsg_bytes:
  "wire_bytes TopResponseMsg_serialize m =
     wire_bytes CoordinatorMetrics_serialize (coordinator_metrics m) @
     be_bytes 4 (of_nat (length (workers_metrics m)) :: u32) @
     concat (map (wire_bytes WorkerMetrics_serialize) (workers_metrics m))"
  by (simp add: wire_bytes_def[of TopResponseMsg_serialize] TopResponseMsg_serialize_def
      wm_codec.fold_ser cm_codec.ser_append)

lemma fold_append_singleton: "fold (\<lambda>x ys. ys @ [x]) xs ys = ys @ xs"
  by (induction xs arbitrary: ys) simp_all

lemma TopResponseMsg_des_ser:
  assumes "TopResponseMsg_wf m" and "remaining r = wire_bytes TopResponseMsg_serialize m @ rest"
  shows "TopResponseMsg_deserialize old r =
    Some (m, advance (length (wire_bytes TopResponseMsg_serialize m)) r)"
proof -
  let ?ws = "workers_metrics m" and ?c = "wire_bytes CoordinatorMetrics_serialize (coordinator_metrics m)"
  let ?r1 = "advance (length ?c) r"
  have n: "unat (of_nat (length ?ws) :: u32) = length ?ws"
    using assms(1) by (simp add: TopResponseMsg_wf_def unat_of_nat)
  have cm: "CoordinatorMetrics_deserialize (coordinator_metrics old) r =
      Some (coordinator_metrics m, ?r1)"
    using assms(2) by (intro cm_codec.des_ser) (simp_all add: TopResponseMsg_bytes)
  have rd: "read_u32 ?r1 = Some (of_nat (length ?ws), advance 4 ?r1)"
    using assms(2) by (simp add: TopResponseMsg_bytes read_eqs)
  have rem: "remaining (advance 4 ?r1) = concat (map (wire_bytes WorkerMetrics_serialize) ?ws) @ rest"
    using assms(2) by (simp add: TopResponseMsg_bytes)
  have loop: "for_read (length ?ws) TopResponseMsg_read_worker [] (advance 4 ?r1) =
      Some (?ws, advance (length (concat (map (wire_bytes WorkerMetrics_serialize) ?ws)))
                   (advance 4 ?r1))"
    using wm_codec.for_read_concat[OF _ rem, of TopResponseMsg_read_worker
        WorkerMetrics_default "\<lambda>x ys. ys @ [x]" "[]"]
    by (simp add: TopResponseMsg_read_worker_def fold_append_singleton)
  show ?thesis
    using cm rd loop n
    by (simp add: TopResponseMsg_deserialize_def TopResponseMsg_bytes Let_def add.assoc)
qed

interpretation top_codec: codec TopResponseMsg_serialize TopResponseMsg_deserialize
  TopResponseMsg_wf "\<lambda>_ m. m"
  by unfold_locales
    (simp add: TopResponseMsg_bytes TopResponseMsg_serialize_def wm_codec.fold_ser
      cm_codec.ser_append, rule TopResponseMsg_des_ser)

subsection \<open>Messages\<close>

lemmas payload_ser_append =
  submit_codec.ser_append assign_codec.ser_append complete_codec.ser_append
  result_codec.ser_append assigned_rep_codec.ser_append completed_rep_codec.ser_append
  heartbeat_codec.ser_append acknowledge_codec.ser_append snapshot_codec.ser_append
  top_codec.ser_append

lemmas payload_des_ser =
  submit_codec.des_ser assign_codec.des_ser complete_codec.des_ser
  result_codec.des_ser assigned_rep_codec.des_ser completed_rep_codec.des_ser
  heartbeat_codec.des_ser acknowledge_codec.des_ser snapshot_codec.des_ser
  top_codec.des_ser

definition payload_bytes :: "Message \<Rightarrow> u8 list" where
  "payload_bytes m = (case m_type m of
     SUBMIT \<Rightarrow> wire_bytes SubmitMsg_serialize (submit m)
   | ASSIGN \<Rightarrow> wire_bytes AssignMsg_serialize (assign m)
   | COMPLETE \<Rightarrow> wire_bytes CompleteMsg_serialize (complete m)
   | RESULT \<Rightarrow> wire_bytes ResultMsg_serialize (result m)
   | ASSIGNED_REPLICATE \<Rightarrow> wire_bytes AssignedReplicationMsg_serialize (assigned_rep m)
   | COMPLETED_REPLICATE \<Rightarrow> wire_bytes CompletedReplicationMsg_serialize (completed_rep m)
   | HEARTBEAT \<Rightarrow> wire_bytes HeartBeatMsg_serialize (heartbeat m)
   | ACKNOWLEDGE \<Rightarrow> wire_bytes AcknowledgeMsg_serialize (acknowledge m)
   | SNAPSHOT \<Rightarrow> wire_bytes SnapshotMsg_serialize (snapshot m)
   | TOP_RESPONSE \<Rightarrow> wire_bytes TopResponseMsg_serialize (top_response m)
   | _ \<Rightarrow> [])"

lemma Message_ser_append:
  "w_buffer (Message_serialize m w) =
     w_buffer w @ be_bytes 8 (epoch m) @ [MessageType_code (m_type m)] @ payload_bytes m"
  by (simp add: Message_serialize_def payload_bytes_def payload_ser_append Let_def
      split: MessageType.split)

lemma Message_bytes:
  "wire_bytes Message_serialize m =
     be_bytes 8 (epoch m) @ [MessageType_code (m_type m)] @ payload_bytes m"
  by (simp add: wire_bytes_def Message_ser_append)

lemma Message_des_ser:
  assumes wf: "Message_wf m" and rem: "remaining r = wire_bytes Message_serialize m @ rest"
  shows "Message_deserialize old r =
    Some (Message_recv old m, advance (length (wire_bytes Message_serialize m)) r)"
proof -
  have hdr: "read_u64 r = Some (epoch m, advance 8 r)"
    "read_u8 (advance 8 r) = Some (MessageType_code (m_type m), advance 9 r)"
    using rem by (simp_all add: Message_bytes read_eqs)
  have ty: "MessageType_cast (MessageType_code (m_type m)) = m_type m"
    using wf by (simp add: Message_wf_def)
  have pay: "remaining (advance 9 r) = payload_bytes m @ rest"
    using rem by (simp add: Message_bytes)
  show ?thesis
    using wf pay
    by (cases "m_type m")
      (simp_all add: Message_deserialize_def Message_recv_def Message_wf_def Message_bytes
        payload_bytes_def hdr[simplified] ty[simplified] Let_def payload_des_ser)
qed

interpretation message_codec: codec Message_serialize Message_deserialize
  Message_wf Message_recv
  by unfold_locales (simp add: Message_ser_append Message_bytes, rule Message_des_ser)

subsection \<open>Snapshots\<close>

lemma fold_emplace_map:
  "fold (\<lambda>t. umap_emplace (t_id (g t)) (g t)) ts m =
     fold (\<lambda>(k, v). umap_emplace k v) (map (\<lambda>t. (t_id (g t), g t)) ts) m"
  by (induction ts arbitrary: m) simp_all

lemma t_id_Task_recv [simp]: "t_id (Task_recv old t) = t_id t"
  by (simp add: Task_recv_def)

lemma Task_recv_fresh:
  "Task_recv Task_default = (\<lambda>t. t\<lparr>word_count_task := \<lparr>words = []\<rparr>,
     synthetic_task := if t_type t = SYNTHETIC then synthetic_task t else \<lparr>duration_us = 0\<rparr>\<rparr>)"
  by (rule ext) (simp add: Task_recv_def Task_default_def)

lemma snapshot_recv_find:
  assumes "\<forall>(k, t)\<in>set ts. t_id t = k"
  shows "umap_find (snapshot_recv_tasks ts) k = map_option (Task_recv Task_default) (umap_find ts k)"
proof -
  have eq: "map (\<lambda>t. (t_id t, Task_recv Task_default t)) (map snd ts) =
      map (\<lambda>(k, t). (k, Task_recv Task_default t)) ts"
    using assms by auto
  have "snapshot_recv_tasks ts = fold (\<lambda>(k, v). umap_emplace k v)
      (map (\<lambda>(k, t). (k, Task_recv Task_default t)) ts) []"
    unfolding snapshot_recv_tasks_def by (subst fold_emplace_map) (simp only: t_id_Task_recv eq)
  then show ?thesis
    using um.find_fold_emplace[of "map (\<lambda>(k, t). (k, Task_recv Task_default t)) ts" "[]" k]
    by (simp add: umap_find_def map_of_map)
qed

lemma snapshot_recv_ok: "umap_ok (snapshot_recv_tasks ts)"
  unfolding snapshot_recv_tasks_def fold_emplace_map by (rule um.invar_fold_emplace) simp

subsection \<open>Properties\<close>

text \<open>The fields that the type of a message uses: the text of a word count, the duration of any other task.\<close>

definition same_payload :: "Message \<Rightarrow> Message \<Rightarrow> bool" where
  "same_payload m' m = (case m_type m of
     SUBMIT \<Rightarrow> (let a = submit m'; b = submit m in sm_task_id a = sm_task_id b \<and> sm_client_id a = sm_client_id b \<and>
       sm_type a = sm_type b \<and> (if sm_type b = WORD_COUNT then sm_words a = sm_words b else sm_duration_us a = sm_duration_us b))
   | ASSIGN \<Rightarrow> (let a = assign m'; b = assign m in am_task_id a = am_task_id b \<and> am_type a = am_type b \<and>
       (if am_type b = WORD_COUNT then am_words a = am_words b else am_duration_us a = am_duration_us b))
   | COMPLETE \<Rightarrow> complete m' = complete m
   | RESULT \<Rightarrow> result m' = result m
   | ASSIGNED_REPLICATE \<Rightarrow> (let a = assigned_rep m'; b = assigned_rep m in ar_task_id a = ar_task_id b \<and>
       ar_queued_at a = ar_queued_at b \<and> ar_started_at a = ar_started_at b \<and> ar_client_id a = ar_client_id b \<and>
       ar_worker_id a = ar_worker_id b \<and> ar_task_type a = ar_task_type b \<and>
       (ar_task_type b = WORD_COUNT \<longrightarrow> ar_words a = ar_words b) \<and>
       (ar_task_type b = SYNTHETIC \<longrightarrow> ar_duration_us a = ar_duration_us b))
   | COMPLETED_REPLICATE \<Rightarrow> completed_rep m' = completed_rep m
   | HEARTBEAT \<Rightarrow> heartbeat m' = heartbeat m
   | ACKNOWLEDGE \<Rightarrow> acknowledge m' = acknowledge m
   | TOP_RESPONSE \<Rightarrow> top_response m' = top_response m
   | SNAPSHOT \<Rightarrow> snap_tasks (snapshot m') = snapshot_recv_tasks (snap_tasks (snapshot m))
   | _ \<Rightarrow> True)"

lemma Message_recv_payload: "same_payload (Message_recv old m) m"
  by (cases "m_type m")
    (simp_all add: same_payload_def Message_recv_def SubmitMsg_recv_def AssignMsg_recv_def SnapshotMsg_recv_def
      AssignedReplicationMsg_recv_def Let_def split: TaskType.split)

text \<open>C11:
  Every message survives serialisation, but for the texts inside a snapshot: reading the bytes
  of a message back, over any object, gives its epoch, its type and every field that its
  type uses, leaves the rest of the object as it was, and consumes the whole buffer. The tasks
  of a snapshot arrive as \<open>snapshot_recv_tasks\<close> has them, without their texts.
\<close>

theorem message_roundtrip:
  assumes "Message_wf m"
  shows "\<exists>m' r. Message_deserialize old
      (BufferReader_init (get_buffer (Message_serialize m BufferWriter_init))) = Some (m', r) \<and> remaining r = [] \<and>
    epoch m' = epoch m \<and> m_type m' = m_type m \<and> same_payload m' m \<and> m' = Message_recv old m"
proof -
  obtain r where "Message_deserialize old (BufferReader_init (get_buffer (Message_serialize m BufferWriter_init))) =
      Some (Message_recv old m, r)" "remaining r = []"
    using message_codec.des_whole[OF assms, of old] by (auto simp: wire_bytes_def get_buffer_def)
  moreover have "epoch (Message_recv old m) = epoch m" "m_type (Message_recv old m) = m_type m"
    by (simp_all add: Message_recv_def Let_def split: MessageType.split)
  ultimately show ?thesis using Message_recv_payload by blast
qed

theorem message_roundtrip_witness:
  "\<exists>r. Message_deserialize Message_default (BufferReader_init (get_buffer (Message_serialize
      ((Message_new HEARTBEAT)\<lparr>heartbeat := \<lparr>hb_worker_id = 5\<rparr>\<rparr>) BufferWriter_init))) =
    Some ((Message_new HEARTBEAT)\<lparr>heartbeat := \<lparr>hb_worker_id = 5\<rparr>\<rparr>, r) \<and> remaining r = []"
  using message_roundtrip[of "(Message_new HEARTBEAT)\<lparr>heartbeat := \<lparr>hb_worker_id = 5\<rparr>\<rparr>" Message_default]
  by (auto simp: Message_wf_def Message_new_def MessageType_cast_def Message_recv_def
      Message_default_def)

text \<open>C28:
  A snapshot carries the whole task table except the texts: the receiver of a serialised
  table whose entries are stored under their ids has exactly the same keys, and every task
  arrives with all its fields but the text of a word-count task, which is empty (and the
  duration of a task that is not synthetic, which is zero).
\<close>

theorem snapshot_roundtrip:
  assumes "SnapshotMsg_wf m" and "\<forall>(k, t)\<in>set (snap_tasks m). t_id t = k"
  shows "\<exists>m' r. SnapshotMsg_deserialize old
      (BufferReader_init (get_buffer (SnapshotMsg_serialize m BufferWriter_init))) = Some (m', r) \<and>
    remaining r = [] \<and> umap_ok (snap_tasks m') \<and>
    (\<forall>k. umap_find (snap_tasks m') k = map_option (\<lambda>t. t\<lparr>word_count_task := \<lparr>words = []\<rparr>,
       synthetic_task := if t_type t = SYNTHETIC then synthetic_task t else \<lparr>duration_us = 0\<rparr>\<rparr>)
       (umap_find (snap_tasks m) k))"
  using snapshot_codec.des_whole[OF assms(1), of old] snapshot_recv_find[OF assms(2)]
    snapshot_recv_ok[of "snap_tasks m"]
  by (simp add: wire_bytes_def get_buffer_def SnapshotMsg_recv_def Task_recv_fresh)

text \<open>One queued word-count task with its text.\<close>

definition word_task :: Task where
  "word_task = (Task_new 7 1 WORD_COUNT 100)\<lparr>word_count_task := \<lparr>words = ''two words''\<rparr>\<rparr>"

theorem snapshot_roundtrip_witness:
  "\<exists>m' r. SnapshotMsg_deserialize \<lparr>snap_tasks = []\<rparr> (BufferReader_init (get_buffer
      (SnapshotMsg_serialize \<lparr>snap_tasks = [(7, word_task)]\<rparr> BufferWriter_init))) = Some (m', r) \<and>
    umap_find (snap_tasks m') 7 = Some (word_task\<lparr>word_count_task := \<lparr>words = []\<rparr>\<rparr>) \<and>
    words (word_count_task word_task) = ''two words''"
  using snapshot_roundtrip[of "\<lparr>snap_tasks = [(7, word_task)]\<rparr>" "\<lparr>snap_tasks = []\<rparr>"]
  by (auto simp: SnapshotMsg_wf_def Task_wf_def word_task_def Task_new_def Task_default_def umap_find_def)

end
