(* ===== verification/Net.thy ===== *)
theory Net
  imports Message_Codec
begin

text \<open>
  \<^verbatim>\<open>src/net/net_utils.cpp\<close>: sending and receiving whole messages over a stream socket.

  The kernel is a parameter. A \<open>Socket\<close> has the bytes that can still be read from it, the
  bytes it has accepted, and a script: the outcomes of the \<^verbatim>\<open>send\<close> and \<^verbatim>\<open>recv\<close> calls to
  come. \<open>Transfer k\<close> moves up to \<open>k\<close> bytes (at least one, at most what was asked for and
  is there), as POSIX allows; \<open>Would_block\<close> is the timeout set with \<^verbatim>\<open>SO_RCVTIMEO\<close> and
  \<^verbatim>\<open>SO_SNDTIMEO\<close>; after the end of the script every call fails. Theorems quantify over the
  script, so they hold for every way the stream can be cut into pieces.

  Functions return the C++ return code first. \<open>None\<close> is an assertion that failed.
\<close>

subsection \<open>Sockets\<close>

datatype os_result = Transfer nat | Closed | Interrupted | Would_block | Failed

record Socket =
  stream_in :: "u8 list"
  stream_out :: "u8 list"
  script :: "os_result list"

definition sys_send :: "u8 list \<Rightarrow> Socket \<Rightarrow> os_result \<times> Socket" where
  "sys_send bs sk = (case script sk of
     [] \<Rightarrow> (Failed, sk)
   | Transfer k # rest \<Rightarrow> (let n = min (max 1 k) (length bs) in
       (Transfer n, sk\<lparr>stream_out := stream_out sk @ take n bs, script := rest\<rparr>))
   | r # rest \<Rightarrow> (r, sk\<lparr>script := rest\<rparr>))"

definition sys_recv :: "nat \<Rightarrow> Socket \<Rightarrow> os_result \<times> u8 list \<times> Socket" where
  "sys_recv len sk = (case script sk of
     [] \<Rightarrow> (Failed, [], sk)
   | Transfer k # rest \<Rightarrow>
       (let n = min (max 1 k) (min len (length (stream_in sk))) in
        if n = 0 then (Would_block, [], sk\<lparr>script := rest\<rparr>)
        else (Transfer n, take n (stream_in sk),
              sk\<lparr>stream_in := drop n (stream_in sk), script := rest\<rparr>))
   | r # rest \<Rightarrow> (r, [], sk\<lparr>script := rest\<rparr>))"

text \<open>\<^verbatim>\<open>static_cast<int>\<close> of a size: 32 bits, two's complement.\<close>

definition int_cast :: "nat \<Rightarrow> int" where
  "int_cast n = sint (of_nat n :: u32)"

lemma sys_send_script:
  "sys_send bs sk = (r, sk') \<Longrightarrow> r \<noteq> Failed \<Longrightarrow> length (script sk') < length (script sk)"
  by (auto simp: sys_send_def Let_def split: list.splits os_result.splits)

lemma sys_recv_script:
  "sys_recv n sk = (r, bs, sk') \<Longrightarrow> r \<noteq> Failed \<Longrightarrow> length (script sk') < length (script sk)"
  by (auto simp: sys_recv_def Let_def split: list.splits os_result.splits if_splits)

subsection \<open>Whole buffers\<close>

function send_loop :: "u8 list \<Rightarrow> nat \<Rightarrow> Socket \<Rightarrow> int \<times> Socket" where
  "send_loop buf sent sk =
     (if sent < length buf then
        (case sys_send (drop sent buf) sk of
           (Transfer n, sk') \<Rightarrow> send_loop buf (sent + n) sk'
         | (Closed, sk') \<Rightarrow> (-1, sk')
         | (Interrupted, sk') \<Rightarrow> send_loop buf sent sk'
         | (Would_block, sk') \<Rightarrow> (-2, sk')
         | (Failed, sk') \<Rightarrow> (-1, sk'))
      else (int_cast sent, sk))"
  by pat_completeness auto
termination
  by (relation "measure (\<lambda>(buf, sent, sk). length (script sk))")
    (auto dest: sys_send_script[OF sym])

definition send_all :: "u8 list \<Rightarrow> Socket \<Rightarrow> int \<times> Socket" where
  "send_all buf sk = send_loop buf 0 sk"

function recv_loop :: "nat \<Rightarrow> u8 list \<Rightarrow> Socket \<Rightarrow> int \<times> u8 list \<times> Socket" where
  "recv_loop len got sk =
     (if length got < len then
        (case sys_recv (len - length got) sk of
           (Transfer n, bs, sk') \<Rightarrow> recv_loop len (got @ bs) sk'
         | (Closed, _, sk') \<Rightarrow> (-1, got, sk')
         | (Interrupted, _, sk') \<Rightarrow> recv_loop len got sk'
         | (Would_block, _, sk') \<Rightarrow> (-2, got, sk')
         | (Failed, _, sk') \<Rightarrow> (-1, got, sk'))
      else (int_cast (length got), got, sk))"
  by pat_completeness auto
termination
  by (relation "measure (\<lambda>(len, got, sk). length (script sk))")
    (auto dest: sys_recv_script[OF sym])

declare send_loop.simps [simp del] recv_loop.simps [simp del]

definition receive_all :: "nat \<Rightarrow> Socket \<Rightarrow> int \<times> u8 list \<times> Socket" where
  "receive_all len sk = recv_loop len [] sk"

subsection \<open>Messages\<close>

definition prepare_send_buffer :: "BufferWriter \<Rightarrow> Message \<Rightarrow> BufferWriter option" where
  "prepare_send_buffer writer m = (let
     writer = reserve_u32 writer;
     writer = Message_serialize m writer;
     buffer = get_buffer writer;
     payload_size = of_nat (length buffer - 4)
   in write_payload_size payload_size writer)"

definition MAX_MESSAGE_SIZE :: u32 where
  "MAX_MESSAGE_SIZE = push_bit 27 1"

definition get_payload_size :: "Socket \<Rightarrow> int \<times> u32 \<times> Socket" where
  "get_payload_size sk = (case receive_all 4 sk of (n, bs, sk) \<Rightarrow>
     if n = -2 then (-2, 0, sk)
     else if n \<le> 0 then (-1, 0, sk)
     else let payload_size = ntohl host_order (of_object_bytes host_order bs) in
       if payload_size = 0 \<or> payload_size > MAX_MESSAGE_SIZE then (-3, payload_size, sk)
       else (1, payload_size, sk))"

definition send_message :: "Socket \<Rightarrow> Message \<Rightarrow> (int \<times> Socket) option" where
  "send_message sk m = do {
     writer \<leftarrow> prepare_send_buffer BufferWriter_init m;
     let (n, sk) = send_all (get_buffer writer) sk;
     if n = -2 then Some (-2, sk)
     else if n \<le> 0 then Some (-1, sk)
     else Some (n, sk)
   }"

definition receive_message :: "Socket \<Rightarrow> Message \<Rightarrow> (int \<times> Message \<times> Socket) option" where
  "receive_message sk m = (case get_payload_size sk of (header_status, payload_size, sk) \<Rightarrow>
     if header_status < 0 then Some (header_status, m, sk)
     else case receive_all (unat payload_size) sk of (n, buffer, sk) \<Rightarrow>
       if n = -2 then Some (-2, m, sk)
       else if n \<le> 0 then Some (-1, m, sk)
       else do {
         (m, r) \<leftarrow> Message_deserialize m (BufferReader_init buffer);
         Some (int_cast (unat payload_size), m, sk)
       })"

primrec send_retry_loop :: "nat \<Rightarrow> u8 list \<Rightarrow> Socket \<Rightarrow> int \<times> Socket" where
  "send_retry_loop 0 buf sk = (-1, sk)"
| "send_retry_loop (Suc n) buf sk = (case send_all buf sk of (code, sk) \<Rightarrow>
     if code = -2 then send_retry_loop n buf sk
     else if code \<le> 0 then (-1, sk)
     else (code, sk))"

definition send_message_with_retry :: "Socket \<Rightarrow> Message \<Rightarrow> nat \<Rightarrow> (int \<times> Socket) option" where
  "send_message_with_retry sk m retries = do {
     writer \<leftarrow> prepare_send_buffer BufferWriter_init m;
     Some (send_retry_loop (retries + 1) (get_buffer writer) sk)
   }"

primrec header_retry_loop :: "nat \<Rightarrow> int \<Rightarrow> u32 \<Rightarrow> Socket \<Rightarrow> int \<times> u32 \<times> Socket" where
  "header_retry_loop 0 status psize sk = (status, psize, sk)"
| "header_retry_loop (Suc n) status psize sk = (case get_payload_size sk of (status, psize, sk) \<Rightarrow>
     if status = -2 then header_retry_loop n status psize sk
     else (status, psize, sk))"

definition receive_message_with_retry ::
  "Socket \<Rightarrow> Message \<Rightarrow> nat \<Rightarrow> (int \<times> Message \<times> Socket) option" where
  "receive_message_with_retry sk m retries =
     (case header_retry_loop (retries + 1) (-1) 0 sk of (header_status, payload_size, sk) \<Rightarrow>
       if header_status < 0 \<and> header_status \<noteq> -2 then Some (header_status, m, sk)
       else if header_status \<noteq> 1 then Some (-1, m, sk)
       else case receive_all (unat payload_size) sk of (n, buffer, sk) \<Rightarrow>
         if n = -2 then Some (-1, m, sk)
         else if n \<le> 0 then Some (-1, m, sk)
         else do {
           (m, r) \<leftarrow> Message_deserialize m (BufferReader_init buffer);
           Some (int_cast (unat payload_size), m, sk)
         })"

text \<open>The bytes of a message on the wire: a length field and the payload.\<close>

definition frame :: "Message \<Rightarrow> u8 list" where
  "frame m = be_bytes 4 (of_nat (length (wire_bytes Message_serialize m)) :: u32)
     @ wire_bytes Message_serialize m"

text \<open>A script without timeouts and errors that can move \<open>n\<close> bytes one at a time.\<close>

definition smooth :: "nat \<Rightarrow> os_result list \<Rightarrow> bool" where
  "smooth n rs \<longleftrightarrow> (\<forall>r\<in>set rs. case r of Transfer _ \<Rightarrow> True | Interrupted \<Rightarrow> True | _ \<Rightarrow> False) \<and>
     n \<le> length (filter (\<lambda>r. r \<noteq> Interrupted) rs)"

subsection \<open>Frames\<close>

lemma prepare_send_buffer_frame:
  "prepare_send_buffer BufferWriter_init m = Some \<lparr>w_buffer = frame m\<rparr>"
  by (simp add: prepare_send_buffer_def reserve_u32_def write_payload_size_def get_buffer_def
      message_codec.ser_append frame_def object_bytes_htonl Let_def)

lemma length_frame: "length (frame m) = 4 + length (wire_bytes Message_serialize m)"
  by (simp add: frame_def)

lemma frame_nonempty: "9 \<le> length (wire_bytes Message_serialize m)"
  by (simp add: Message_bytes)

lemma int_cast_small: "n < 2 ^ 31 \<Longrightarrow> int_cast n = int n"
  by (simp add: int_cast_def signed_of_nat signed_take_bit_int_eq_self)

subsection \<open>Rounds of the transfer loops\<close>

lemma send_loop_done: "length buf \<le> sent \<Longrightarrow> send_loop buf sent sk = (int_cast sent, sk)"
  by (subst send_loop.simps) simp

lemma send_loop_Transfer:
  "sent < length buf \<Longrightarrow> script sk = Transfer k # rs \<Longrightarrow> j = min (max 1 k) (length buf - sent) \<Longrightarrow>
     send_loop buf sent sk = send_loop buf (sent + j)
       (sk\<lparr>stream_out := stream_out sk @ take j (drop sent buf), script := rs\<rparr>)"
  by (subst send_loop.simps) (simp add: sys_send_def Let_def)

lemma send_loop_Interrupted:
  "sent < length buf \<Longrightarrow> script sk = Interrupted # rs \<Longrightarrow>
     send_loop buf sent sk = send_loop buf sent (sk\<lparr>script := rs\<rparr>)"
  by (subst send_loop.simps) (simp add: sys_send_def)

lemma recv_loop_done: "len \<le> length got \<Longrightarrow> recv_loop len got sk = (int_cast (length got), got, sk)"
  by (subst recv_loop.simps) simp

lemma recv_loop_Transfer:
  "length got < len \<Longrightarrow> script sk = Transfer k # rs \<Longrightarrow>
     j = min (max 1 k) (min (len - length got) (length (stream_in sk))) \<Longrightarrow> 0 < j \<Longrightarrow>
     recv_loop len got sk = recv_loop len (got @ take j (stream_in sk))
       (sk\<lparr>stream_in := drop j (stream_in sk), script := rs\<rparr>)"
  by (subst recv_loop.simps, simp only: sys_recv_def Let_def) (auto simp del: min_less_iff_conj)

lemma recv_loop_Interrupted:
  "length got < len \<Longrightarrow> script sk = Interrupted # rs \<Longrightarrow>
     recv_loop len got sk = recv_loop len got (sk\<lparr>script := rs\<rparr>)"
  by (subst recv_loop.simps) (simp add: sys_recv_def)

subsection \<open>Sending\<close>

text \<open>
  Whatever the kernel does, \<open>send_loop\<close> has passed on a prefix of what was left of the
  buffer; all of it when the return code is not negative.
\<close>

lemma send_loop_prefix:
  assumes "send_loop buf sent sk = (n, sk')" and "sent \<le> length buf" and "length buf < 2 ^ 31"
  shows "\<exists>k\<ge>sent. k \<le> length buf \<and> stream_out sk' = stream_out sk @ take (k - sent) (drop sent buf) \<and>
    (n = int (length buf) \<and> k = length buf \<or> n \<in> {-1, -2} \<and> k < length buf)"
  using assms
proof (induction buf sent sk rule: send_loop.induct)
  case (1 buf sent sk)
  show ?case
  proof (cases "sent < length buf")
    case False
    then show ?thesis
      using "1.prems" int_cast_small[OF "1.prems"(3)]
      by (intro exI[of _ "length buf"]) (auto simp: send_loop_done)
  next
    case True
    obtain r sk1 where c: "sys_send (drop sent buf) sk = (r, sk1)" by fastforce
    show ?thesis
    proof (cases r)
      case (Transfer j)
      then have j: "j \<le> length buf - sent" "stream_out sk1 = stream_out sk @ take j (drop sent buf)"
        using c by (auto simp: sys_send_def Let_def split: list.splits os_result.splits)
      have "send_loop buf (sent + j) sk1 = (n, sk')"
        using "1.prems"(1) True c Transfer by (simp add: send_loop.simps[of buf sent])
      then obtain k where "k \<ge> sent + j" "k \<le> length buf"
        "stream_out sk' = stream_out sk1 @ take (k - (sent + j)) (drop (sent + j) buf)"
        "n = int (length buf) \<and> k = length buf \<or> n \<in> {-1, -2} \<and> k < length buf"
        using "1.IH"(1)[OF True c[symmetric] _ ] Transfer j True "1.prems"(3) by fastforce
      moreover have "k - sent = j + (k - (sent + j))" using \<open>k \<ge> sent + j\<close> by simp
      ultimately show ?thesis
        using j take_add[of j "k - (sent + j)" "drop sent buf"]
        by (intro exI[of _ k]) (auto simp: add.commute)
    next
      case Interrupted
      then have "stream_out sk1 = stream_out sk"
        using c by (auto simp: sys_send_def Let_def split: list.splits os_result.splits)
      then show ?thesis
        using "1.IH"(2)[OF True c[symmetric]] Interrupted "1.prems" True c
        by (simp add: send_loop.simps[of buf sent])
    qed (use "1.prems" True c in \<open>auto simp: send_loop.simps[of buf sent] sys_send_def Let_def
        split: list.splits os_result.splits\<close>)
  qed
qed

lemma smooth_Cons:
  "smooth n (r # rs) \<longleftrightarrow>
     (case r of Transfer _ \<Rightarrow> smooth (n - 1) rs | Interrupted \<Rightarrow> smooth n rs | _ \<Rightarrow> False)"
  by (cases r) (auto simp: smooth_def)

lemma smooth_mono: "smooth n rs \<Longrightarrow> m \<le> n \<Longrightarrow> smooth m rs"
  by (auto simp: smooth_def)

lemma send_loop_smooth:
  assumes "smooth (length buf - sent) (script sk)" and "sent \<le> length buf" and "length buf < 2 ^ 31"
  shows "\<exists>sk'. send_loop buf sent sk = (int (length buf), sk') \<and>
    stream_out sk' = stream_out sk @ drop sent buf \<and> stream_in sk' = stream_in sk"
  using assms(1,2)
proof (induction "script sk" arbitrary: sent sk)
  case Nil
  then have "sent = length buf" by (simp add: smooth_def)
  then show ?case using assms(3) by (simp add: send_loop_done int_cast_small)
next
  case (Cons r rs)
  note sc = Cons.hyps(2)[symmetric]
  show ?case
  proof (cases "sent < length buf")
    case False
    then show ?thesis
      using Cons.prems assms(3) by (simp add: send_loop_done int_cast_small)
  next
    case True
    show ?thesis
    proof (cases r)
      case (Transfer k)
      define j where "j = min (max 1 k) (length buf - sent)"
      then have j: "1 \<le> j" "sent + j \<le> length buf" using True by auto
      let ?sk = "sk\<lparr>stream_out := stream_out sk @ take j (drop sent buf), script := rs\<rparr>"
      have "smooth (length buf - (sent + j)) rs"
        using Cons.prems(1) Transfer j by (auto simp: sc smooth_Cons intro: smooth_mono)
      then obtain sk' where sk': "send_loop buf (sent + j) ?sk = (int (length buf), sk')"
        "stream_out sk' = stream_out ?sk @ drop (sent + j) buf" "stream_in sk' = stream_in ?sk"
        using Cons.hyps(1)[of ?sk "sent + j"] j by auto
      have "send_loop buf sent sk = send_loop buf (sent + j) ?sk"
        using send_loop_Transfer[OF True _ j_def] Transfer sc by simp
      then show ?thesis
        using sk' append_take_drop_id[of j "drop sent buf"] by (simp add: add.commute)
    next
      case Interrupted
      let ?sk = "sk\<lparr>script := rs\<rparr>"
      show ?thesis
        using Cons.hyps(1)[of ?sk sent] Cons.prems True Interrupted
        by (simp add: send_loop_Interrupted sc smooth_Cons)
    qed (use Cons.prems(1) in \<open>simp_all add: sc smooth_Cons\<close>)
  qed
qed

subsection \<open>Receiving\<close>

lemma recv_loop_smooth:
  assumes "smooth (length bs) (script sk)" and "stream_in sk = bs @ rest"
    and "length got + length bs < 2 ^ 31"
  shows "\<exists>sk'. recv_loop (length got + length bs) got sk =
      (int (length got + length bs), got @ bs, sk') \<and> stream_in sk' = rest \<and>
      (\<forall>m. smooth (length bs + m) (script sk) \<longrightarrow> smooth m (script sk'))"
  using assms
proof (induction "script sk" arbitrary: got bs sk)
  case Nil
  then have "bs = []" by (simp add: smooth_def)
  with Nil show ?case by (simp add: recv_loop_done int_cast_small)
next
  case (Cons r rs)
  note sc = Cons.hyps(2)[symmetric]
  show ?case
  proof (cases "bs = []")
    case True
    with Cons.prems show ?thesis by (simp add: recv_loop_done int_cast_small)
  next
    case False
    let ?n = "length got + length bs"
    show ?thesis
    proof (cases r)
      case (Transfer k)
      define j where "j = min (max 1 k) (length bs)"
      then have j: "1 \<le> j" "j \<le> length bs" using False by (cases bs; auto)+
      let ?sk = "sk\<lparr>stream_in := drop j (stream_in sk), script := rs\<rparr>"
      have sm: "smooth (length (drop j bs)) rs"
        using Cons.prems(1) Transfer j by (auto simp: sc smooth_Cons intro: smooth_mono)
      have len: "length (got @ take j bs) + length (drop j bs) = ?n" using j by simp
      have "\<exists>sk'. recv_loop (length (got @ take j bs) + length (drop j bs)) (got @ take j bs) ?sk =
        (int (length (got @ take j bs) + length (drop j bs)),
          (got @ take j bs) @ drop j bs, sk') \<and> stream_in sk' = rest \<and>
        (\<forall>m. smooth (length (drop j bs) + m) (script ?sk) \<longrightarrow> smooth m (script sk'))"
        using sm Cons.prems(2,3) len j by (intro Cons.hyps(1)) simp_all
      then obtain sk' where sk': "recv_loop ?n (got @ take j bs) ?sk = (int ?n, got @ bs, sk')"
        "stream_in sk' = rest"
        "\<And>m. smooth (length bs - j + m) rs \<Longrightarrow> smooth m (script sk')"
        unfolding len by auto
      have "recv_loop ?n got sk = recv_loop ?n (got @ take j bs) ?sk"
        using False Transfer j Cons.prems(2) recv_loop_Transfer[of got ?n sk k rs j]
        by (simp add: sc j_def)
      moreover have "smooth m (script sk')" if "smooth (length bs + m) (script sk)" for m
      proof -
        have "smooth (length bs + m - 1) rs" using that Transfer by (simp add: sc smooth_Cons)
        then have "smooth (length bs - j + m) rs" by (rule smooth_mono) (use j in simp)
        then show ?thesis by (rule sk'(3))
      qed
      ultimately show ?thesis using sk'(1,2) by auto
    next
      case Interrupted
      let ?sk = "sk\<lparr>script := rs\<rparr>"
      have "recv_loop ?n got sk = recv_loop ?n got ?sk"
        using False Interrupted by (simp add: recv_loop_Interrupted sc)
      then show ?thesis
        using Cons.hyps(1)[of ?sk bs got] Cons.prems Interrupted by (simp add: sc smooth_Cons)
    qed (use Cons.prems(1) in \<open>simp_all add: sc smooth_Cons\<close>)
  qed
qed

lemma receive_all_smooth:
  assumes "smooth (length bs) (script sk)" and "stream_in sk = bs @ rest" and "length bs < 2 ^ 31"
  shows "\<exists>sk'. receive_all (length bs) sk = (int (length bs), bs, sk') \<and> stream_in sk' = rest \<and>
      (\<forall>m. smooth (length bs + m) (script sk) \<longrightarrow> smooth m (script sk'))"
  using recv_loop_smooth[of bs sk rest "[]"] assms by (simp add: receive_all_def)

lemma unat_MAX_MESSAGE_SIZE: "unat MAX_MESSAGE_SIZE = 2 ^ 27"
  by (simp add: MAX_MESSAGE_SIZE_def push_bit_eq_mult)

lemma get_payload_size_header:
  assumes "stream_in sk = be_bytes 4 n @ rest" and "smooth 4 (script sk)"
    and "0 < unat n" and "unat n \<le> 2 ^ 27"
  shows "\<exists>sk'. get_payload_size sk = (1, n, sk') \<and> stream_in sk' = rest \<and>
    (\<forall>m. smooth (4 + m) (script sk) \<longrightarrow> smooth m (script sk'))"
proof -
  obtain sk' where sk': "receive_all 4 sk = (4, be_bytes 4 n, sk')" "stream_in sk' = rest"
    "\<forall>m. smooth (4 + m) (script sk) \<longrightarrow> smooth m (script sk')"
    using receive_all_smooth[of "be_bytes 4 n" sk rest] assms(1,2) by auto
  have "n \<noteq> 0" "\<not> n > MAX_MESSAGE_SIZE"
    using assms(3,4) by (auto simp: word_less_nat_alt unat_MAX_MESSAGE_SIZE)
  then show ?thesis
    using sk' by (simp add: get_payload_size_def object_conversions_le)
qed

lemma receive_frame:
  assumes "stream_in sk = frame m @ rest" and "smooth (length (frame m)) (script sk)"
    and "Message_wf m" and "length (wire_bytes Message_serialize m) \<le> 2 ^ 27"
  shows "\<exists>sk'. receive_message_with_retry sk old retries =
      Some (int (length (wire_bytes Message_serialize m)), Message_recv old m, sk') \<and>
      stream_in sk' = rest"
proof -
  let ?p = "wire_bytes Message_serialize m"
  let ?n = "of_nat (length ?p) :: u32"
  have n: "unat ?n = length ?p" using assms(4) by (simp add: unat_of_nat)
  have pos: "0 < length ?p" using frame_nonempty[of m] by linarith
  obtain sk1 where sk1: "get_payload_size sk = (1, ?n, sk1)" "stream_in sk1 = ?p @ rest"
    "\<forall>m. smooth (4 + m) (script sk) \<longrightarrow> smooth m (script sk1)"
    using get_payload_size_header[of sk ?n "?p @ rest"] assms(1,4) n pos
      smooth_mono[OF assms(2), of 4]
    by (auto simp: frame_def)
  have "smooth (length ?p) (script sk1)"
    using sk1(3) assms(2) by (simp add: length_frame)
  then obtain sk2 where sk2: "receive_all (length ?p) sk1 = (int (length ?p), ?p, sk2)"
    "stream_in sk2 = rest"
    using receive_all_smooth[of ?p sk1 rest] sk1(2) assms(4) by auto
  have "header_retry_loop (retries + 1) (-1) 0 sk = (1, ?n, sk1)"
    using sk1(1) by simp
  moreover have "int_cast (length ?p) = int (length ?p)"
    using assms(4) by (intro int_cast_small) simp
  ultimately show ?thesis
    using sk2 n pos message_codec.des_whole[OF assms(3), of old]
    by (simp add: receive_message_with_retry_def)
qed

lemma send_frame:
  assumes "smooth (length (frame m)) (script sk)" and "length (frame m) < 2 ^ 31"
  shows "\<exists>sk'. send_message_with_retry sk m retries = Some (int (length (frame m)), sk') \<and>
    stream_out sk' = stream_out sk @ frame m"
proof -
  obtain sk' where "send_all (frame m) sk = (int (length (frame m)), sk')"
    "stream_out sk' = stream_out sk @ frame m"
    using send_loop_smooth[of "frame m" 0 sk] assms by (auto simp: send_all_def)
  moreover have "0 < length (frame m)" by (simp add: length_frame)
  ultimately show ?thesis
    by (simp add: send_message_with_retry_def prepare_send_buffer_frame get_buffer_def)
qed

subsection \<open>Properties\<close>

text \<open>C8:
  A message sent with \<^verbatim>\<open>send_message_with_retry\<close> and read with \<^verbatim>\<open>receive_message_with_retry\<close>
  arrives: however the kernel cuts the two streams into pieces and however often it
  interrupts the calls, the sender's socket has accepted exactly the frame, and a receiver
  whose stream starts with these bytes gets the message (the payload of its type, over the
  object it reads into) and is left at the first byte after the frame.
\<close>

theorem message_delivery:
  assumes "Message_wf m" and "length (wire_bytes Message_serialize m) \<le> 2 ^ 27"
    and "smooth (length (frame m)) (script sender)" and "stream_out sender = []"
    and "send_message_with_retry sender m n = Some (code, sender')"
    and "stream_in receiver = stream_out sender' @ rest"
    and "smooth (length (stream_out sender')) (script receiver)"
  shows "code = int (length (frame m)) \<and>
    (\<exists>receiver'. receive_message_with_retry receiver old k =
       Some (int (length (wire_bytes Message_serialize m)), Message_recv old m, receiver') \<and>
       stream_in receiver' = rest)"
proof -
  have "length (frame m) < 2 ^ 31" using assms(2) by (simp add: length_frame)
  then have "code = int (length (frame m))" "stream_out sender' = frame m"
    using send_frame[OF assms(3), of n] assms(4,5) by auto
  then show ?thesis
    using receive_frame[of receiver m rest old k] assms by simp
qed

definition example_submit :: Message where
  "example_submit = (Message_new SUBMIT)\<lparr>epoch := 3,
     submit := \<lparr>sm_task_id = 7, sm_client_id = 1, sm_duration_us = 0, sm_type = WORD_COUNT,
       sm_words = ''two words''\<rparr>\<rparr>"

lemma example_submit_wf: "Message_wf example_submit"
  by (simp add: example_submit_def Message_new_def Message_wf_def MessageType_cast_def
      SubmitMsg_wf_def string_wf_def)

lemma example_submit_length: "length (wire_bytes Message_serialize example_submit) = 35"
  by (simp add: Message_bytes payload_bytes_def wire_bytes_def[of SubmitMsg_serialize]
      example_submit_def Message_new_def SubmitMsg_serialize_def Let_def)

lemma smooth_replicate: "smooth n (replicate n (Transfer k))"
  by (simp add: smooth_def)

theorem message_delivery_witness:
  "\<exists>code sender' receiver'.
     send_message_with_retry \<lparr>stream_in = [], stream_out = [], script = replicate 39 (Transfer 1)\<rparr>
       example_submit 2 = Some (code, sender') \<and> code = 39 \<and>
     receive_message_with_retry
       \<lparr>stream_in = stream_out sender' @ [1, 2], stream_out = [], script = replicate 39 (Transfer 5)\<rparr>
       Message_default 2 =
       Some (35, Message_recv Message_default example_submit, receiver') \<and>
     stream_in receiver' = [1, 2]"
proof -
  let ?s = "\<lparr>stream_in = [], stream_out = [], script = replicate 39 (Transfer 1)\<rparr>"
  have len: "length (frame example_submit) = 39"
    by (simp add: length_frame example_submit_length)
  have sm: "smooth (length (frame example_submit)) (script ?s)"
    unfolding len by (simp add: smooth_replicate)
  obtain s' where s': "send_message_with_retry ?s example_submit 2 = Some (39, s')"
    "stream_out s' = frame example_submit"
    using send_frame[OF sm, of 2] len by auto
  let ?r = "\<lparr>stream_in = stream_out s' @ [1, 2], stream_out = [], script = replicate 39 (Transfer 5)\<rparr>"
  have "smooth (length (stream_out s')) (script ?r)"
    unfolding s'(2) len by (simp add: smooth_replicate)
  then show ?thesis
    using message_delivery[OF example_submit_wf _ sm _ s'(1), of ?r "[1, 2]" Message_default 2]
      s' example_submit_length len
    by auto
qed

text \<open>
  The return code of \<^verbatim>\<open>send_all\<close> tells what happened to the stream, for every kernel: a
  non-negative code is the length of the buffer and the whole buffer has been accepted; a
  negative code is -1 or -2 and a proper prefix of the buffer has been accepted, in which
  case the stream may end in the middle of a frame.
\<close>

theorem send_all_code:
  assumes "send_all buf sk = (n, sk')" and "length buf < 2 ^ 31"
  shows "\<exists>k. stream_out sk' = stream_out sk @ take k buf \<and>
    (n = int (length buf) \<and> k = length buf \<or> n \<in> {-1, -2} \<and> k < length buf)"
proof -
  obtain k where "stream_out sk' = stream_out sk @ take (k - 0) (drop 0 buf)"
    "n = int (length buf) \<and> k = length buf \<or> n \<in> {-1, -2} \<and> k < length buf"
    using send_loop_prefix[of buf 0 sk n sk'] assms by (auto simp: send_all_def)
  then show ?thesis by (intro exI[of _ k]) simp
qed

theorem send_all_code_witness:
  "\<exists>n sk' k. send_all [1, 2, 3] \<lparr>stream_in = [], stream_out = [9], script = [Transfer 2, Would_block]\<rparr>
     = (n, sk') \<and> stream_out sk' = [9] @ take k [1, 2, 3] \<and>
     (n = 3 \<and> k = 3 \<or> n \<in> {-1, -2} \<and> k < 3)"
proof -
  let ?sk = "\<lparr>stream_in = [], stream_out = [9], script = [Transfer 2, Would_block]\<rparr>"
  obtain n sk' where "send_all [1, 2, 3] ?sk = (n, sk')" by fastforce
  with send_all_code[OF this] show ?thesis by auto
qed

text \<open>C36:
  A send that times out after part of a frame has been accepted is retried from the first
  byte: the call reports success, and the stream has the accepted part followed by the
  whole frame, so the receiver loses the frame boundary.
\<close>

theorem send_retry_repeats_prefix:
  assumes "0 < k" and "k < length (frame m)" and "length (frame m) < 2 ^ 31" and "0 < retries"
    and "script sk = [Transfer k, Would_block, Transfer (length (frame m))]"
  shows "\<exists>sk'. send_message_with_retry sk m retries = Some (int (length (frame m)), sk') \<and>
    stream_out sk' = stream_out sk @ take k (frame m) @ frame m"
proof -
  let ?f = "frame m"
  let ?sk1 = "sk\<lparr>stream_out := stream_out sk @ take k ?f, script := [Transfer (length ?f)]\<rparr>"
  have ne: "?f \<noteq> []" using assms(2) by auto
  have "send_loop ?f 0 sk =
      send_loop ?f k (sk\<lparr>stream_out := stream_out sk @ take k ?f,
        script := [Would_block, Transfer (length ?f)]\<rparr>)"
    using send_loop_Transfer[of 0 ?f sk k "[Would_block, Transfer (length ?f)]" k] assms ne by simp
  also have "\<dots> = (-2, ?sk1)"
    using assms(2) by (subst send_loop.simps) (simp add: sys_send_def)
  finally have first: "send_all ?f sk = (-2, ?sk1)" by (simp add: send_all_def)
  have "send_loop ?f 0 ?sk1 = send_loop ?f (length ?f)
      (?sk1\<lparr>stream_out := stream_out ?sk1 @ ?f, script := []\<rparr>)"
    using send_loop_Transfer[of 0 ?f ?sk1 "length ?f" "[]" "length ?f"] ne by simp
  then have second: "send_all ?f ?sk1 =
      (int (length ?f), ?sk1\<lparr>stream_out := stream_out ?sk1 @ ?f, script := []\<rparr>)"
    using int_cast_small[OF assms(3)] by (simp add: send_all_def send_loop_done)
  obtain r where "retries = Suc r" using assms(4) by (cases retries) auto
  then show ?thesis
    using first second ne
    by (simp add: send_message_with_retry_def prepare_send_buffer_frame get_buffer_def)
qed

theorem send_retry_repeats_prefix_witness:
  "\<exists>sk'. send_message_with_retry \<lparr>stream_in = [], stream_out = [],
       script = [Transfer 6, Would_block, Transfer 39]\<rparr> example_submit 2 = Some (39, sk') \<and>
     stream_out sk' = take 6 (frame example_submit) @ frame example_submit"
proof -
  have len: "length (frame example_submit) = 39"
    by (simp add: length_frame example_submit_length)
  show ?thesis
    using send_retry_repeats_prefix[of 6 example_submit 2
        "\<lparr>stream_in = [], stream_out = [], script = [Transfer 6, Would_block, Transfer 39]\<rparr>"] len
    by simp
qed

text \<open>
  A frame whose payload is shorter than the nine bytes of a message header ends the
  receiving process: the reader's assertion fails.
\<close>

theorem short_frame_aborts:
  assumes "0 < length bs" and "length bs < 9" and "smooth (4 + length bs) (script sk)"
    and "stream_in sk = be_bytes 4 (of_nat (length bs) :: u32) @ bs @ rest"
  shows "receive_message_with_retry sk old retries = None"
proof -
  let ?n = "of_nat (length bs) :: u32"
  have n: "unat ?n = length bs" using assms(2) by (simp add: unat_of_nat)
  obtain sk1 where sk1: "get_payload_size sk = (1, ?n, sk1)" "stream_in sk1 = bs @ rest"
    "\<forall>m. smooth (4 + m) (script sk) \<longrightarrow> smooth m (script sk1)"
    using get_payload_size_header[of sk ?n "bs @ rest"] assms n smooth_mono[OF assms(3)] by auto
  have "smooth (length bs) (script sk1)" using sk1(3) assms(3) by simp
  then obtain sk2 where sk2: "receive_all (length bs) sk1 = (int (length bs), bs, sk2)"
    using receive_all_smooth[of bs sk1 rest] sk1(2) assms(2) by auto
  have "Message_deserialize old (BufferReader_init bs) = None"
  proof (cases "length bs = 8")
    case True
    then show ?thesis by (simp add: Message_deserialize_def read_eqs Let_def)
  next
    case False
    with assms(2) show ?thesis by (simp add: Message_deserialize_def read_eqs)
  qed
  then show ?thesis
    using sk1(1) sk2 n assms(1) by (simp add: receive_message_with_retry_def)
qed

theorem short_frame_aborts_witness:
  "receive_message_with_retry \<lparr>stream_in = be_bytes 4 (1 :: u32) @ [42], stream_out = [],
     script = replicate 5 (Transfer 1)\<rparr> Message_default 2 = None"
proof -
  have "smooth 5 (replicate 5 (Transfer 1))" by (rule smooth_replicate)
  then show ?thesis
    using short_frame_aborts[of "[42]" "\<lparr>stream_in = be_bytes 4 (1 :: u32) @ [42], stream_out = [],
        script = replicate 5 (Transfer 1)\<rparr>" "[]" Message_default 2]
    by simp
qed

end
