(* ===== verification/SPSC_Queue.thy ===== *)
theory SPSC_Queue
  imports Config
begin

text \<open>
  \<^verbatim>\<open>include/lock_free/spsc_queue.hpp\<close>: the bounded single-producer single-consumer queue.

  The indices \<^verbatim>\<open>head_\<close> and \<^verbatim>\<open>tail_\<close> are \<^verbatim>\<open>size_t\<close> counters that run freely and wrap at
  \<open>2 ^ 64\<close>; a slot is addressed by masking with \<^verbatim>\<open>capacity_ - 1\<close>. This theory has the
  operations run one at a time and the interface \<open>bounded_queue\<close> they implement;
  \<open>SPSC_Concurrent\<close> splits them into their atomic loads and stores.

  \<open>contents\<close> reads the queue as a list. \<open>spsc_inv\<close> asks for a capacity that is a power of
  two, which every queue of the program has.
\<close>

record 'a SPSCQueue =
  head :: u64
  tail :: u64
  buffer :: "'a list"
  capacity :: u64

definition SPSCQueue_init :: "'a \<Rightarrow> nat \<Rightarrow> 'a SPSCQueue" where
  "SPSCQueue_init d n = \<lparr>head = 0, tail = 0, buffer = replicate n d, capacity = of_nat n\<rparr>"

definition full :: "'a SPSCQueue \<Rightarrow> bool" where
  "full q \<longleftrightarrow> tail q - head q = capacity q"

definition empty :: "'a SPSCQueue \<Rightarrow> bool" where
  "empty q \<longleftrightarrow> tail q = head q"

definition queue_size :: "'a SPSCQueue \<Rightarrow> u64" where
  "queue_size q = tail q - head q"

definition slot_index :: "'a SPSCQueue \<Rightarrow> u64 \<Rightarrow> nat" where
  "slot_index q i = unat (i AND (capacity q - 1))"

definition try_pop :: "'a SPSCQueue \<Rightarrow> ('a \<times> 'a SPSCQueue) option" where
  "try_pop q =
     (if tail q = head q then None
      else Some (buffer q ! slot_index q (head q), q\<lparr>head := head q + 1\<rparr>))"

definition try_push :: "'a \<Rightarrow> 'a SPSCQueue \<Rightarrow> 'a SPSCQueue option" where
  "try_push v q =
     (if tail q - head q = capacity q then None
      else Some (q\<lparr>buffer := (buffer q)[slot_index q (tail q) := v], tail := tail q + 1\<rparr>))"

text \<open>
  The retry loops around the queue (\<^verbatim>\<open>try_push_outgoing\<close>, \<^verbatim>\<open>try_push_incoming\<close>,
  \<^verbatim>\<open>try_pop_incoming\<close> of the coordinator): one attempt, then up to \<open>n\<close> more, each after a
  sleep during which the thread at the other end may act. \<open>other i\<close> is what it does to the
  queue during the \<open>i\<close>-th sleep. The sleep's length (\<^verbatim>\<open>backoff_us\<close>) has no other effect.
\<close>

fun push_retry :: "nat \<Rightarrow> (nat \<Rightarrow> 'q \<Rightarrow> 'q) \<Rightarrow> ('q \<Rightarrow> 'q option) \<Rightarrow> nat \<Rightarrow> 'q \<Rightarrow> bool \<times> 'q" where
  "push_retry n other push i q = (case push q of
     Some q' \<Rightarrow> (True, q')
   | None \<Rightarrow> (case n of 0 \<Rightarrow> (False, q)
              | Suc m \<Rightarrow> push_retry m other push (Suc i) (other i q)))"

declare push_retry.simps [simp del]

fun pop_retry ::
  "nat \<Rightarrow> (nat \<Rightarrow> 'q \<Rightarrow> 'q) \<Rightarrow> ('q \<Rightarrow> ('a \<times> 'q) option) \<Rightarrow> nat \<Rightarrow> 'q \<Rightarrow> 'a option \<times> 'q" where
  "pop_retry n other pop i q = (case pop q of
     Some (v, q') \<Rightarrow> (Some v, q')
   | None \<Rightarrow> (case n of 0 \<Rightarrow> (None, q)
              | Suc m \<Rightarrow> pop_retry m other pop (Suc i) (other i q)))"

declare pop_retry.simps [simp del]

text \<open>Rules for the two retry loops: \<open>P\<close> holds before every attempt.\<close>

lemma push_retry_rule:
  assumes "push_retry n other push i q = (ok, q')" and "P q"
    and "\<And>i q. P q \<Longrightarrow> push q = None \<Longrightarrow> P (other i q)"
    and "\<And>q q'. P q \<Longrightarrow> push q = Some q' \<Longrightarrow> Q q'"
  shows "if ok then Q q' else P q'"
  using assms(1,2)
proof (induction n arbitrary: i q)
  case 0
  then show ?case
    using assms(4)[of q] by (auto simp: push_retry.simps[of 0] split: option.splits)
next
  case (Suc n)
  show ?case
  proof (cases "push q")
    case None
    then show ?thesis
      using Suc.prems Suc.IH[of "Suc i" "other i q"] assms(3)[of q i]
      by (simp add: push_retry.simps[of "Suc n"])
  next
    case (Some q1)
    then show ?thesis
      using Suc.prems assms(4) by (auto simp: push_retry.simps[of "Suc n"])
  qed
qed

text \<open>A retried push that gives up has just found the queue full once more.\<close>

lemma push_retry_gives_up:
  "push_retry n other push i q = (False, q') \<Longrightarrow> push q' = None"
proof (induction n arbitrary: i q)
  case 0
  then show ?case by (auto simp: push_retry.simps[of 0] split: option.splits)
next
  case (Suc n)
  then show ?case by (auto simp: push_retry.simps[of "Suc n"] split: option.splits)
qed

lemma pop_retry_rule:
  assumes "pop_retry n other pop i q = (r, q')" and "P q"
    and "\<And>i q. P q \<Longrightarrow> P (other i q)"
    and "\<And>q v q'. P q \<Longrightarrow> pop q = Some (v, q') \<Longrightarrow> Q v q'"
  shows "case r of Some v \<Rightarrow> Q v q' | None \<Rightarrow> P q'"
  using assms(1,2)
proof (induction n arbitrary: i q)
  case 0
  then show ?case
    using assms(4)[of q] by (auto simp: pop_retry.simps[of 0] split: option.splits)
next
  case (Suc n)
  show ?case
  proof (cases "pop q")
    case None
    then show ?thesis
      using Suc.prems Suc.IH[of "Suc i" "other i q"] assms(3)[of q i]
      by (simp add: pop_retry.simps[of "Suc n"])
  next
    case (Some p)
    then show ?thesis
      using Suc.prems assms(4)[of q] by (cases p) (auto simp: pop_retry.simps[of "Suc n"])
  qed
qed

text \<open>A consumer that pops \<open>n\<close> times in a row, with what it got.\<close>

primrec pop_many :: "('q \<Rightarrow> ('a \<times> 'q) option) \<Rightarrow> nat \<Rightarrow> 'q \<Rightarrow> 'a list \<times> 'q" where
  "pop_many pop 0 q = ([], q)"
| "pop_many pop (Suc n) q = (case pop q of
     None \<Rightarrow> ([], q)
   | Some (v, q') \<Rightarrow> (case pop_many pop n q' of (vs, q'') \<Rightarrow> (v # vs, q'')))"

subsection \<open>Invariant and abstraction\<close>

definition power_of_2 :: "nat \<Rightarrow> bool" where
  "power_of_2 n \<longleftrightarrow> (\<exists>k\<in>{0..<64}. n = 2 ^ k)"

definition spsc_inv :: "'a SPSCQueue \<Rightarrow> bool" where
  "spsc_inv q \<longleftrightarrow> power_of_2 (unat (capacity q)) \<and> length (buffer q) = unat (capacity q) \<and>
     unat (tail q - head q) \<le> unat (capacity q)"

definition contents :: "'a SPSCQueue \<Rightarrow> 'a list" where
  "contents q = map (\<lambda>i. buffer q ! slot_index q (head q + of_nat i)) [0..<unat (tail q - head q)]"

definition bound :: "'a SPSCQueue \<Rightarrow> nat" where
  "bound q = unat (capacity q)"

subsection \<open>The interface of a bounded queue\<close>

locale bounded_queue =
  fixes push :: "'a \<Rightarrow> 'q \<Rightarrow> 'q option"
    and pop :: "'q \<Rightarrow> ('a \<times> 'q) option"
    and items :: "'q \<Rightarrow> 'a list"
    and cap :: "'q \<Rightarrow> nat"
    and invar :: "'q \<Rightarrow> bool"
  assumes push_None: "invar q \<Longrightarrow> push v q = None \<longleftrightarrow> length (items q) = cap q"
    and push_Some: "invar q \<Longrightarrow> push v q = Some q' \<Longrightarrow>
      invar q' \<and> items q' = items q @ [v] \<and> cap q' = cap q"
    and pop_None: "invar q \<Longrightarrow> pop q = None \<longleftrightarrow> items q = []"
    and pop_Some: "invar q \<Longrightarrow> pop q = Some (v, q') \<Longrightarrow>
      invar q' \<and> items q = v # items q' \<and> cap q' = cap q"
    and items_le: "invar q \<Longrightarrow> length (items q) \<le> cap q"
begin

lemma pop_many:
  assumes "invar q" and "pop_many pop n q = (vs, q')"
  shows "invar q' \<and> vs = take n (items q) \<and> items q' = drop n (items q) \<and> cap q' = cap q"
  using assms
proof (induction n arbitrary: q vs)
  case (Suc n)
  show ?case
  proof (cases "pop q")
    case None
    with Suc.prems pop_None[of q] show ?thesis by simp
  next
    case (Some p)
    obtain v q1 where p: "pop q = Some (v, q1)" using Some by (cases p) simp
    from pop_Some[OF Suc.prems(1) p] Suc.prems(2) p Suc.IH[of q1] show ?thesis
      by (auto split: prod.splits)
  qed
qed simp

text \<open>
  A push that is retried while the consumer only takes elements from the front: the value
  is behind everything still queued when the push succeeds, and when it does not the queue
  has lost only what the consumer took.
\<close>

lemma push_retry:
  assumes "invar q"
    and other: "\<And>i q. invar q \<Longrightarrow>
      invar (other i q) \<and> cap (other i q) = cap q \<and> (\<exists>k. items (other i q) = drop k (items q))"
    and "push_retry n other (push v) i q = (ok, q')"
  shows "invar q' \<and> cap q' = cap q \<and>
    (\<exists>k. items q' = drop k (items q) @ (if ok then [v] else []))"
  using assms(1,3)
proof (induction n arbitrary: i q)
  case 0
  then show ?case
    using push_Some[of q v]
    by (auto simp: push_retry.simps[of 0] split: option.splits intro: exI[of _ 0])
next
  case (Suc n)
  show ?case
  proof (cases "push v q")
    case None
    then have "push_retry n other (push v) (Suc i) (other i q) = (ok, q')"
      using Suc.prems(2) by (simp add: push_retry.simps[of "Suc n"])
    then have "invar q' \<and> cap q' = cap (other i q) \<and>
      (\<exists>k. items q' = drop k (items (other i q)) @ (if ok then [v] else []))"
      using Suc.IH other[OF Suc.prems(1), of i] by blast
    moreover obtain k where "items (other i q) = drop k (items q)" "cap (other i q) = cap q"
      using other[OF Suc.prems(1), of i] by blast
    ultimately show ?thesis by auto
  next
    case (Some q1)
    then show ?thesis
      using Suc.prems push_Some[of q v q1]
      by (auto simp: push_retry.simps[of "Suc n"] intro: exI[of _ 0])
  qed
qed

text \<open>When there is room at the first attempt the push succeeds at once.\<close>

lemma push_retry_room:
  assumes "invar q" and "length (items q) < cap q"
  shows "\<exists>q'. push_retry n other (push v) i q = (True, q') \<and> invar q' \<and>
    items q' = items q @ [v] \<and> cap q' = cap q"
proof -
  obtain q' where "push v q = Some q'"
    using push_None[OF assms(1), of v] assms(2) by (cases "push v q") auto
  then show ?thesis
    using push_Some[OF assms(1)] by (simp add: push_retry.simps)
qed

end

subsection \<open>Slots\<close>

lemma slot_index_mod:
  assumes "unat (capacity q) = 2 ^ k" and "k < 64"
  shows "slot_index q i = unat i mod 2 ^ k"
proof -
  have "of_nat (unat (capacity q)) = (2 ^ k :: u64)"
    by (simp only: assms(1)) simp
  then have "capacity q = 2 ^ k" by simp
  then have "i AND (capacity q - 1) = take_bit k i"
    by (simp add: take_bit_eq_mask mask_eq_exp_minus_1)
  then have "slot_index q i = take_bit k (unat i)"
    by (simp add: slot_index_def unsigned_take_bit_eq)
  then show ?thesis by (simp add: take_bit_eq_mod)
qed

lemma slot_index_add:
  assumes "unat (capacity q) = 2 ^ k" and "k < 64"
  shows "slot_index q (i + of_nat n) = (unat i + n) mod 2 ^ k"
proof -
  have "unat (i + of_nat n) = (unat i + n) mod 2 ^ 64"
    by (simp add: unat_word_ariths unat_of_nat mod_add_right_eq)
  moreover have "(2 ^ k :: nat) dvd 2 ^ 64"
    using assms(2) by (intro le_imp_power_dvd) simp
  ultimately show ?thesis
    by (simp add: slot_index_mod[OF assms] mod_mod_cancel)
qed

lemma slot_index_inj:
  assumes "power_of_2 (unat (capacity q))" and "i < unat (capacity q)" and "j < unat (capacity q)"
    and "slot_index q (h + of_nat i) = slot_index q (h + of_nat j)"
  shows "i = j"
proof -
  obtain k where k: "unat (capacity q) = 2 ^ k" "k < 64"
    using assms(1) by (auto simp: power_of_2_def)
  have "(unat h + i) mod 2 ^ k = (unat h + j) mod 2 ^ k"
    using assms(4) slot_index_add[OF k] by simp
  then have "i mod 2 ^ k = j mod 2 ^ k"
    by (rule mod_add_left_cancel_nat)
  then show ?thesis using assms(2,3) k by simp
qed

lemma slot_index_less:
  assumes "power_of_2 (unat (capacity q))"
  shows "slot_index q i < unat (capacity q)"
proof -
  obtain k where k: "unat (capacity q) = 2 ^ k" "k < 64"
    using assms by (auto simp: power_of_2_def)
  then show ?thesis using slot_index_mod[OF k] by simp
qed

subsection \<open>The queue implements the interface\<close>

lemma length_contents [simp]: "length (contents q) = unat (tail q - head q)"
  by (simp add: contents_def)

lemma contents_nth:
  "i < unat (tail q - head q) \<Longrightarrow> contents q ! i = buffer q ! slot_index q (head q + of_nat i)"
  by (simp add: contents_def)

lemma unat_cap_bound: "power_of_2 (unat (c :: u64)) \<Longrightarrow> 0 < unat c \<and> unat c \<le> 2 ^ 63"
proof -
  assume "power_of_2 (unat c)"
  then obtain k where k: "unat c = 2 ^ k" "k < 64" by (auto simp: power_of_2_def)
  then have "(2::nat) ^ k \<le> 2 ^ 63" by (intro power_increasing) simp_all
  with k show ?thesis by simp
qed

lemma unat_Suc_diff:
  assumes "unat (t - h :: u64) < unat (c :: u64)"
  shows "unat (t + 1 - h) = Suc (unat (t - h))"
proof -
  have eq: "t + 1 - h = (t - h) + 1" by simp
  have "unat (t - h) < 2 ^ 64 - 1"
    using assms unsigned_less[of c, where 'a = nat] by simp
  then have "unat (t - h + 1) = Suc (unat (t - h))"
    by (simp only: unat_word_ariths) simp
  then show ?thesis by (simp only: eq)
qed

lemma unat_diff_Suc:
  assumes "(t :: u64) \<noteq> h"
  shows "unat (t - h) = Suc (unat (t - (h + 1)))"
proof -
  have "t - h \<noteq> 0" using assms by simp
  then have "unat (t - h - 1) = unat (t - h) - 1" and "0 < unat (t - h)"
    by (simp_all add: unat_minus_one unat_gt_0)
  then show ?thesis by (simp add: diff_diff_eq)
qed

lemma try_push_None:
  assumes "spsc_inv q"
  shows "try_push v q = None \<longleftrightarrow> length (contents q) = bound q"
  by (simp add: try_push_def bound_def word_unat_eq_iff)

lemma slot_index_upd [simp]:
  "slot_index (q\<lparr>buffer := b\<rparr>) = slot_index q"
  "slot_index (q\<lparr>tail := t\<rparr>) = slot_index q"
  "slot_index (q\<lparr>head := h\<rparr>) = slot_index q"
  by (simp_all add: slot_index_def fun_eq_iff)

lemma try_push_Some:
  assumes inv: "spsc_inv q" and "try_push v q = Some q'"
  shows "spsc_inv q' \<and> contents q' = contents q @ [v] \<and> bound q' = bound q"
proof -
  let ?n = "unat (tail q - head q)" and ?c = "unat (capacity q)"
  have q': "q' = q\<lparr>buffer := (buffer q)[slot_index q (tail q) := v], tail := tail q + 1\<rparr>"
    and "tail q - head q \<noteq> capacity q"
    using assms(2) by (auto simp: try_push_def split: if_splits)
  then have less: "?n < ?c"
    using inv by (simp add: spsc_inv_def word_unat_eq_iff)
  have p2: "power_of_2 ?c" and len: "length (buffer q) = ?c"
    using inv by (simp_all add: spsc_inv_def)
  have n': "unat (tail q + 1 - head q) = Suc ?n"
    using less by (rule unat_Suc_diff)
  have tl: "tail q = head q + of_nat ?n" by simp
  have "contents q' ! i = (contents q @ [v]) ! i" if "i < Suc ?n" for i
  proof (cases "i = ?n")
    case True
    then show ?thesis
      using n' q' len slot_index_less[OF p2, of "tail q"]
      by (simp add: contents_nth nth_append)
  next
    case False
    with that have "i < ?n" by simp
    moreover have "slot_index q (head q + of_nat i) \<noteq> slot_index q (tail q)"
      using slot_index_inj[OF p2, of i ?n "head q"] less \<open>i < ?n\<close> tl by auto
    ultimately show ?thesis
      using n' q' by (simp add: contents_nth nth_append)
  qed
  moreover have "length (contents q') = length (contents q @ [v])"
    using q' n' by simp
  ultimately have "contents q' = contents q @ [v]"
    using n' q' by (intro nth_equalityI) simp_all
  moreover have "spsc_inv q'"
    using inv q' n' less by (simp add: spsc_inv_def)
  ultimately show ?thesis using q' by (simp add: bound_def)
qed

lemma try_pop_None: "spsc_inv q \<Longrightarrow> try_pop q = None \<longleftrightarrow> contents q = []"
  by (simp add: try_pop_def unat_eq_0 flip: length_0_conv)

lemma try_pop_Some:
  assumes inv: "spsc_inv q" and "try_pop q = Some (v, q')"
  shows "spsc_inv q' \<and> contents q = v # contents q' \<and> bound q' = bound q"
proof -
  have q': "q' = q\<lparr>head := head q + 1\<rparr>" and v: "v = buffer q ! slot_index q (head q)"
    and "tail q \<noteq> head q"
    using assms(2) by (auto simp: try_pop_def split: if_splits)
  then have n: "unat (tail q - head q) = Suc (unat (tail q - (head q + 1)))"
    by (intro unat_diff_Suc)
  have "contents q = v # contents q'"
  proof (rule nth_equalityI)
    show "length (contents q) = length (v # contents q')"
      using n q' by simp
    show "contents q ! i = (v # contents q') ! i" if "i < length (contents q)" for i
      using that n q' v by (cases i) (simp_all add: contents_nth add.assoc)
  qed
  moreover have "spsc_inv q'"
    using inv q' n by (simp add: spsc_inv_def)
  ultimately show ?thesis using q' by (simp add: bound_def)
qed

interpretation spsc: bounded_queue try_push try_pop contents bound spsc_inv
proof unfold_locales
  show "length (contents q) \<le> bound q" if "spsc_inv q" for q :: "'a SPSCQueue"
    using that by (simp add: spsc_inv_def bound_def)
qed (fact try_push_None try_push_Some try_pop_None try_pop_Some)+

lemma SPSCQueue_init_inv:
  assumes "power_of_2 n"
  shows "spsc_inv (SPSCQueue_init d n) \<and> contents (SPSCQueue_init d n) = []
    \<and> bound (SPSCQueue_init d n) = n"
proof -
  obtain k where k: "n = 2 ^ k" "k < 64" using assms by (auto simp: power_of_2_def)
  then have "n < 2 ^ 64" by (simp only: power_strict_increasing_iff)
  then have "unat (of_nat n :: u64) = n" by (simp add: unat_of_nat)
  then show ?thesis
    using assms by (simp add: spsc_inv_def SPSCQueue_init_def bound_def contents_def)
qed

text \<open>Every queue the program creates has a power of two as its capacity.\<close>

lemma power_of_2_capacities:
  "power_of_2 WORKER_QUEUE_CAPACITY"
  "power_of_2 COORDINATOR_CONTROL_QUEUE_CAPACITY"
  "power_of_2 COORDINATOR_TASK_QUEUE_CAPACITY"
  "power_of_2 COORDINATOR_OUTGOING_QUEUE_CAPACITY"
  unfolding power_of_2_def WORKER_QUEUE_CAPACITY_def COORDINATOR_CONTROL_QUEUE_CAPACITY_def
    COORDINATOR_TASK_QUEUE_CAPACITY_def COORDINATOR_OUTGOING_QUEUE_CAPACITY_def
  by (rule bexI[of _ 6], simp, simp, rule bexI[of _ 6], simp, simp,
      rule bexI[of _ 14], simp, simp, rule bexI[of _ 15], simp, simp)

subsection \<open>Properties\<close>

text \<open>C15:
  The ring buffer implements a bounded first-in first-out queue, also while its free-running
  64-bit indices wrap around: on a queue whose capacity is a power of two, \<^verbatim>\<open>try_push\<close>
  fails exactly when the queue holds \<^verbatim>\<open>capacity_\<close> elements and otherwise appends the value,
  \<^verbatim>\<open>try_pop\<close> fails exactly when it is empty and otherwise takes the oldest value, and both
  keep the invariant.
\<close>

theorem spsc_refines_list_queue:
  assumes "spsc_inv q"
  shows "(try_push v q = None \<longleftrightarrow> length (contents q) = unat (capacity q)) \<and>
    (\<forall>q'. try_push v q = Some q' \<longrightarrow> spsc_inv q' \<and> contents q' = contents q @ [v]) \<and>
    (try_pop q = None \<longleftrightarrow> contents q = []) \<and>
    (\<forall>w q'. try_pop q = Some (w, q') \<longrightarrow> spsc_inv q' \<and> contents q = w # contents q') \<and>
    queue_size q = of_nat (length (contents q)) \<and> (full q \<longleftrightarrow> try_push v q = None) \<and>
    (empty q \<longleftrightarrow> try_pop q = None)"
proof (intro conjI)
  show "try_push v q = None \<longleftrightarrow> length (contents q) = unat (capacity q)"
    using spsc.push_None[OF assms, of v] by (simp only: bound_def)
  show "\<forall>q'. try_push v q = Some q' \<longrightarrow> spsc_inv q' \<and> contents q' = contents q @ [v]"
    using spsc.push_Some[OF assms, of v] by blast
  show "try_pop q = None \<longleftrightarrow> contents q = []"
    by (rule spsc.pop_None[OF assms])
  show "\<forall>w q'. try_pop q = Some (w, q') \<longrightarrow> spsc_inv q' \<and> contents q = w # contents q'"
    using spsc.pop_Some[OF assms] by blast
qed (simp_all add: queue_size_def full_def empty_def try_push_def try_pop_def)

text \<open>A queue of capacity 2 whose indices are about to wrap.\<close>

definition wrapping_queue :: "nat SPSCQueue" where
  "wrapping_queue = \<lparr>head = - 1, tail = 0, buffer = [5, 6], capacity = 2\<rparr>"

theorem spsc_refines_list_queue_witness:
  "spsc_inv wrapping_queue \<and> contents wrapping_queue = [6] \<and>
   (\<exists>q'. try_push 7 wrapping_queue = Some q' \<and> contents q' = [6, 7]) \<and>
   (\<exists>q'. try_pop wrapping_queue = Some (6, q') \<and> contents q' = [])"
proof -
  have inv: "spsc_inv wrapping_queue"
    by (auto simp: spsc_inv_def wrapping_queue_def power_of_2_def intro!: bexI[of _ 1])
  have c: "contents wrapping_queue = [6]"
    by (simp add: contents_def wrapping_queue_def slot_index_def)
  have "capacity wrapping_queue = 2" by (simp add: wrapping_queue_def)
  then obtain q1 where q1: "try_push 7 wrapping_queue = Some q1"
    using spsc_refines_list_queue[OF inv, of 7] c by auto
  obtain w q2 where q2: "try_pop wrapping_queue = Some (w, q2)"
    using spsc_refines_list_queue[OF inv, of 7] c by auto
  show ?thesis
    using spsc_refines_list_queue[OF inv, of 7] inv c q1 q2 by auto
qed

end
