(* ===== verification/SPSC_Concurrent.thy ===== *)
theory SPSC_Concurrent
  imports SPSC_Queue
begin

text \<open>
  The queue of \<^verbatim>\<open>spsc_queue.hpp\<close> under concurrency: one producer thread in \<^verbatim>\<open>try_push\<close> and
  one consumer thread in \<^verbatim>\<open>try_pop\<close>, interleaved at every load and store of \<^verbatim>\<open>head_\<close>,
  \<^verbatim>\<open>tail_\<close> and \<^verbatim>\<open>buffer_\<close>. A thread's local variables are in its program point, so a value
  of \<^verbatim>\<open>head\<close> or \<^verbatim>\<open>tail\<close> it has loaded may be out of date when it is used. Memory is
  sequentially consistent; the acquire and release orders of the source exist to make it
  look so to these two threads.

  \<open>pushed\<close> and \<open>popped\<close> record, in order, the values of the operations that have returned
  true.
\<close>

datatype 'a producer =
    P_idle
  | P_head 'a u64          \<comment> \<open>loaded \<open>head\<close>\<close>
  | P_tail 'a u64 u64      \<comment> \<open>loaded \<open>head\<close> and \<open>tail\<close>\<close>
  | P_write 'a u64         \<comment> \<open>not full: about to write the slot of \<open>tail\<close>\<close>
  | P_store 'a u64         \<comment> \<open>slot written: about to store \<open>tail + 1\<close>\<close>

datatype 'a consumer =
    C_idle
  | C_head u64             \<comment> \<open>loaded \<open>head\<close>\<close>
  | C_tail u64 u64         \<comment> \<open>loaded \<open>head\<close> and \<open>tail\<close>\<close>
  | C_read u64             \<comment> \<open>not empty: about to read the slot of \<open>head\<close>\<close>
  | C_store u64 'a         \<comment> \<open>value read: about to store \<open>head + 1\<close>\<close>

record 'a conc =
  queue :: "'a SPSCQueue"
  producer :: "'a producer"
  consumer :: "'a consumer"
  pushed :: "'a list"
  popped :: "'a list"

definition conc_init :: "'a \<Rightarrow> nat \<Rightarrow> 'a conc" where
  "conc_init d n = \<lparr>queue = SPSCQueue_init d n, producer = P_idle, consumer = C_idle,
     pushed = [], popped = []\<rparr>"

inductive producer_step :: "'a conc \<Rightarrow> 'a conc \<Rightarrow> bool" where
  load_head: "producer s = P_idle \<Longrightarrow>
    producer_step s (s\<lparr>producer := P_head v (head (queue s))\<rparr>)"
| load_tail: "producer s = P_head v h \<Longrightarrow>
    producer_step s (s\<lparr>producer := P_tail v h (tail (queue s))\<rparr>)"
| return_false: "producer s = P_tail v h t \<Longrightarrow> t - h = capacity (queue s) \<Longrightarrow>
    producer_step s (s\<lparr>producer := P_idle\<rparr>)"
| check: "producer s = P_tail v h t \<Longrightarrow> t - h \<noteq> capacity (queue s) \<Longrightarrow>
    producer_step s (s\<lparr>producer := P_write v t\<rparr>)"
| write_slot: "producer s = P_write v t \<Longrightarrow>
    producer_step s (s\<lparr>queue := (queue s)\<lparr>buffer :=
        (buffer (queue s))[slot_index (queue s) t := v]\<rparr>, producer := P_store v t\<rparr>)"
| store_tail: "producer s = P_store v t \<Longrightarrow>
    producer_step s (s\<lparr>queue := (queue s)\<lparr>tail := t + 1\<rparr>, producer := P_idle,
        pushed := pushed s @ [v]\<rparr>)"

inductive consumer_step :: "'a conc \<Rightarrow> 'a conc \<Rightarrow> bool" where
  load_head: "consumer s = C_idle \<Longrightarrow>
    consumer_step s (s\<lparr>consumer := C_head (head (queue s))\<rparr>)"
| load_tail: "consumer s = C_head h \<Longrightarrow>
    consumer_step s (s\<lparr>consumer := C_tail h (tail (queue s))\<rparr>)"
| return_false: "consumer s = C_tail h t \<Longrightarrow> t = h \<Longrightarrow>
    consumer_step s (s\<lparr>consumer := C_idle\<rparr>)"
| check: "consumer s = C_tail h t \<Longrightarrow> t \<noteq> h \<Longrightarrow>
    consumer_step s (s\<lparr>consumer := C_read h\<rparr>)"
| read_slot: "consumer s = C_read h \<Longrightarrow>
    consumer_step s (s\<lparr>consumer := C_store h (buffer (queue s) ! slot_index (queue s) h)\<rparr>)"
| store_head: "consumer s = C_store h v \<Longrightarrow>
    consumer_step s (s\<lparr>queue := (queue s)\<lparr>head := h + 1\<rparr>, consumer := C_idle,
        popped := popped s @ [v]\<rparr>)"

definition conc_step :: "'a conc \<Rightarrow> 'a conc \<Rightarrow> bool" where
  "conc_step s s' \<longleftrightarrow> producer_step s s' \<or> consumer_step s s'"

inductive conc_reachable :: "'a \<Rightarrow> nat \<Rightarrow> 'a conc \<Rightarrow> bool" for d :: 'a and n :: nat where
  start: "conc_reachable d n (conc_init d n)"
| step: "conc_reachable d n s \<Longrightarrow> conc_step s s' \<Longrightarrow> conc_reachable d n s'"

subsection \<open>The invariant\<close>

text \<open>
  The counters are the numbers of completed pushes and pops modulo \<open>2 ^ 64\<close>. A stale
  \<open>head\<close> in the producer can only make the queue look fuller than it is, a stale \<open>tail\<close>
  in the consumer only emptier.
\<close>

fun producer_inv :: "'a SPSCQueue \<Rightarrow> nat \<Rightarrow> nat \<Rightarrow> 'a producer \<Rightarrow> bool" where
  "producer_inv q np nc P_idle = True"
| "producer_inv q np nc (P_head v h) =
     (\<exists>hn\<le>nc. h = of_nat hn \<and> np \<le> hn + bound q)"
| "producer_inv q np nc (P_tail v h t) =
     (t = of_nat np \<and> (\<exists>hn\<le>nc. h = of_nat hn \<and> np \<le> hn + bound q))"
| "producer_inv q np nc (P_write v t) = (t = of_nat np \<and> np < nc + bound q)"
| "producer_inv q np nc (P_store v t) =
     (t = of_nat np \<and> np < nc + bound q \<and> buffer q ! slot_index q t = v)"

fun consumer_inv :: "'a list \<Rightarrow> nat \<Rightarrow> 'a consumer \<Rightarrow> bool" where
  "consumer_inv ps nc C_idle = True"
| "consumer_inv ps nc (C_head h) = (h = of_nat nc)"
| "consumer_inv ps nc (C_tail h t) =
     (h = of_nat nc \<and> (\<exists>tn\<le>length ps. nc \<le> tn \<and> t = of_nat tn))"
| "consumer_inv ps nc (C_read h) = (h = of_nat nc \<and> nc < length ps)"
| "consumer_inv ps nc (C_store h v) = (h = of_nat nc \<and> nc < length ps \<and> v = ps ! nc)"

definition slots_inv :: "'a SPSCQueue \<Rightarrow> 'a list \<Rightarrow> nat \<Rightarrow> bool" where
  "slots_inv q ps nc \<longleftrightarrow>
     power_of_2 (bound q) \<and> length (buffer q) = bound q \<and>
     tail q = of_nat (length ps) \<and> head q = of_nat nc \<and>
     nc \<le> length ps \<and> length ps \<le> nc + bound q \<and>
     (\<forall>i<length ps. nc \<le> i \<longrightarrow> buffer q ! slot_index q (of_nat i) = ps ! i)"

definition conc_inv :: "'a conc \<Rightarrow> bool" where
  "conc_inv s \<longleftrightarrow>
     slots_inv (queue s) (pushed s) (length (popped s)) \<and>
     popped s = take (length (popped s)) (pushed s) \<and>
     producer_inv (queue s) (length (pushed s)) (length (popped s)) (producer s) \<and>
     consumer_inv (pushed s) (length (popped s)) (consumer s)"

subsection \<open>Counters and slots\<close>

lemma bound_upd [simp]:
  "bound (q\<lparr>buffer := b\<rparr>) = bound q"
  "bound (q\<lparr>tail := t\<rparr>) = bound q"
  "bound (q\<lparr>head := h\<rparr>) = bound q"
  by (simp_all add: bound_def)

lemma of_nat_u64_inj:
  assumes "b \<le> a" and "a - b < 2 ^ 64"
  shows "of_nat a - of_nat b = (of_nat (a - b) :: u64)" and "unat (of_nat a - of_nat b :: u64) = a - b"
proof -
  show eq: "of_nat a - of_nat b = (of_nat (a - b) :: u64)"
    using assms(1) by (simp add: of_nat_diff)
  show "unat (of_nat a - of_nat b :: u64) = a - b"
    unfolding eq using assms(2) by (simp add: unat_of_nat)
qed

lemma bound_le: "power_of_2 (bound q) \<Longrightarrow> bound q \<le> 2 ^ 63"
  using unat_cap_bound[of "capacity q"] by (simp add: bound_def)

lemma counters_full:
  assumes "power_of_2 (bound q)" and "hn \<le> np" and "np \<le> hn + bound q"
  shows "(of_nat np - of_nat hn = capacity q) \<longleftrightarrow> np = hn + bound q"
proof -
  have small: "np - hn < 2 ^ 64" using assms bound_le[of q] by simp
  show ?thesis
    using of_nat_u64_inj(2)[OF assms(2) small] assms(2,3)
    by (auto simp: word_unat_eq_iff bound_def)
qed

lemma counters_empty:
  assumes "hn \<le> np" and "np - hn < 2 ^ 64"
  shows "(of_nat np = (of_nat hn :: u64)) \<longleftrightarrow> np = hn"
  using of_nat_u64_inj(2)[OF assms] assms(1) by auto

lemma slot_distinct:
  assumes "power_of_2 (bound q)" and "nc \<le> i" and "i < np" and "np < nc + bound q"
  shows "slot_index q (of_nat i) \<noteq> slot_index q (of_nat np)"
proof
  assume eq: "slot_index q (of_nat i) = slot_index q (of_nat np)"
  have *: "(of_nat i :: u64) = of_nat nc + of_nat (i - nc)"
    "(of_nat np :: u64) = of_nat nc + of_nat (np - nc)"
    using assms(2,3) by (simp_all flip: of_nat_add)
  have "slot_index q (of_nat nc + of_nat (i - nc)) = slot_index q (of_nat nc + of_nat (np - nc))"
    using eq by (simp only: *[symmetric])
  moreover have "i - nc < bound q" and "np - nc < bound q"
    using assms by auto
  ultimately have "i - nc = np - nc"
    using slot_index_inj[of q "i - nc" "np - nc" "of_nat nc"] assms(1) by (simp add: bound_def)
  then show False using assms(2,3) by simp
qed

subsection \<open>Every step keeps the invariant\<close>

lemma slots_inv_write:
  assumes "slots_inv q ps nc" and "length ps < nc + bound q"
  shows "slots_inv (q\<lparr>buffer := (buffer q)[slot_index q (of_nat (length ps)) := v]\<rparr>) ps nc"
  using assms slot_distinct[of q nc _ "length ps"]
  by (auto simp: slots_inv_def) (metis nth_list_update_neq)

lemma slot_written:
  "power_of_2 (bound q) \<Longrightarrow> length (buffer q) = bound q \<Longrightarrow>
     (buffer q)[slot_index q i := v] ! slot_index q i = v"
  using slot_index_less[of q i] by (simp add: bound_def)

lemma slots_inv_push:
  assumes "slots_inv q ps nc" and "length ps < nc + bound q"
    and "buffer q ! slot_index q (of_nat (length ps)) = v"
  shows "slots_inv (q\<lparr>tail := of_nat (length ps) + 1\<rparr>) (ps @ [v]) nc"
  using assms by (auto simp: slots_inv_def nth_append less_Suc_eq)

lemma slots_inv_pop:
  "slots_inv q ps nc \<Longrightarrow> nc < length ps \<Longrightarrow>
     slots_inv (q\<lparr>head := of_nat nc + 1\<rparr>) ps (Suc nc)"
  by (auto simp: slots_inv_def)

lemma producer_inv_pop:
  "producer_inv q np nc p \<Longrightarrow> producer_inv (q\<lparr>head := h\<rparr>) np (Suc nc) p"
  by (cases p) (simp_all, (blast intro: le_SucI)+)

lemma consumer_inv_push:
  "consumer_inv ps nc c \<Longrightarrow> consumer_inv (ps @ [v]) nc c"
  by (cases c) (simp_all add: nth_append, (blast intro: le_SucI)+)

lemma producer_step_inv: "producer_step s s' \<Longrightarrow> conc_inv s \<Longrightarrow> conc_inv s'"
proof (induction rule: producer_step.induct)
  case (load_head s v)
  then show ?case by (auto simp: conc_inv_def slots_inv_def)
next
  case (load_tail s v h)
  then show ?case by (auto simp: conc_inv_def slots_inv_def)
next
  case (return_false s v h t)
  then show ?case by (auto simp: conc_inv_def)
next
  case (check s v h t)
  then obtain hn where hn: "hn \<le> length (popped s)" "h = of_nat hn"
    "length (pushed s) \<le> hn + bound (queue s)" "t = of_nat (length (pushed s))"
    by (auto simp: conc_inv_def)
  have "length (pushed s) \<noteq> hn + bound (queue s)"
    using check hn counters_full[of "queue s" hn "length (pushed s)"]
    by (auto simp: conc_inv_def slots_inv_def)
  with check hn show ?case by (auto simp: conc_inv_def)
next
  case (write_slot s v t)
  then show ?case
    using slots_inv_write[of "queue s" "pushed s" "length (popped s)" v]
    by (simp add: conc_inv_def) (simp add: slots_inv_def slot_written)
next
  case (store_tail s v t)
  then show ?case
    by (auto simp: conc_inv_def slots_inv_push consumer_inv_push) (simp add: slots_inv_def)
qed

lemma consumer_step_inv: "consumer_step s s' \<Longrightarrow> conc_inv s \<Longrightarrow> conc_inv s'"
proof (induction rule: consumer_step.induct)
  case (load_head s)
  then show ?case by (auto simp: conc_inv_def slots_inv_def)
next
  case (load_tail s h)
  then show ?case by (auto simp: conc_inv_def slots_inv_def)
next
  case (return_false s h t)
  then show ?case by (auto simp: conc_inv_def)
next
  case (check s h t)
  then show ?case by (auto simp: conc_inv_def) (metis le_neq_implies_less order.strict_trans2)
next
  case (read_slot s h)
  then show ?case by (auto simp: conc_inv_def slots_inv_def)
next
  case (store_head s h v)
  then show ?case
    by (auto simp: conc_inv_def slots_inv_pop producer_inv_pop take_Suc_conv_app_nth)
qed

lemma conc_init_inv: "power_of_2 n \<Longrightarrow> conc_inv (conc_init d n)"
  using SPSCQueue_init_inv[of n d]
  by (auto simp: conc_inv_def conc_init_def slots_inv_def SPSCQueue_init_def spsc_inv_def bound_def)

lemma conc_reachable_inv:
  assumes "power_of_2 n" and "conc_reachable d n s"
  shows "conc_inv s"
  using assms(2)
proof (induction rule: conc_reachable.induct)
  case start
  show ?case by (rule conc_init_inv[OF assms(1)])
next
  case (step s s')
  then show ?case
    by (auto simp: conc_step_def intro: producer_step_inv consumer_step_inv)
qed

subsection \<open>Consequences\<close>

text \<open>What is queued is exactly what was pushed and not yet popped, oldest first.\<close>

lemma conc_inv_contents:
  assumes "conc_inv s"
  shows "pushed s = popped s @ contents (queue s)" and "spsc_inv (queue s)"
proof -
  let ?q = "queue s" and ?nc = "length (popped s)" and ?np = "length (pushed s)"
  have inv: "slots_inv ?q (pushed s) ?nc" and pre: "popped s = take ?nc (pushed s)"
    using assms by (simp_all add: conc_inv_def)
  have "?np - ?nc < 2 ^ 64" "?nc \<le> ?np"
    using inv bound_le[of ?q] by (auto simp: slots_inv_def)
  then have n: "unat (tail ?q - head ?q) = ?np - ?nc"
    using inv of_nat_u64_inj(2)[of ?nc ?np] by (simp add: slots_inv_def)
  then show "spsc_inv ?q"
    using inv by (auto simp: slots_inv_def spsc_inv_def bound_def)
  have "contents ?q = drop ?nc (pushed s)"
    using inv n
    by (intro nth_equalityI) (simp_all add: contents_nth slots_inv_def flip: of_nat_add)
  then show "pushed s = popped s @ contents ?q"
    using pre append_take_drop_id[of ?nc "pushed s"] by simp
qed

text \<open>The slot being written and the slot being read are never the same.\<close>

lemma conc_inv_no_race:
  assumes "conc_inv s" and "producer s = P_write v t" and "consumer s = C_read h"
  shows "slot_index (queue s) t \<noteq> slot_index (queue s) h"
  using assms slot_distinct[of "queue s" "length (popped s)" "length (popped s)" "length (pushed s)"]
  by (auto simp: conc_inv_def slots_inv_def)

text \<open>No thread ever waits for the other: each has a step in every state.\<close>

lemma producer_progress: "\<exists>s'. producer_step s s'"
  by (cases "producer s") (auto intro: producer_step.intros, metis producer_step.intros(3,4))

lemma consumer_progress: "\<exists>s'. consumer_step s s'"
  by (cases "consumer s") (auto intro: consumer_step.intros, metis consumer_step.intros(3,4))

text \<open>
  A push that runs without interruption is the atomic \<open>try_push\<close>: the steps of the
  producer alone lead from idle to idle with the same queue.
\<close>

lemma producer_alone_push:
  assumes "producer s = P_idle" and "try_push v (queue s) = Some q'"
  shows "producer_step\<^sup>*\<^sup>* s (s\<lparr>queue := q', pushed := pushed s @ [v]\<rparr>)"
proof -
  let ?q = "queue s"
  have nf: "tail ?q - head ?q \<noteq> capacity ?q"
    and q': "q' = ?q\<lparr>buffer := (buffer ?q)[slot_index ?q (tail ?q) := v], tail := tail ?q + 1\<rparr>"
    using assms(2) by (auto simp: try_push_def split: if_splits)
  let ?s1 = "s\<lparr>producer := P_head v (head ?q)\<rparr>"
  let ?s2 = "s\<lparr>producer := P_tail v (head ?q) (tail ?q)\<rparr>"
  let ?s3 = "s\<lparr>producer := P_write v (tail ?q)\<rparr>"
  let ?s4 = "s\<lparr>queue := ?q\<lparr>buffer := (buffer ?q)[slot_index ?q (tail ?q) := v]\<rparr>,
    producer := P_store v (tail ?q)\<rparr>"
  have "producer_step s ?s1" using producer_step.load_head[OF assms(1)] .
  moreover have "producer_step ?s1 ?s2"
    using producer_step.load_tail[of ?s1 v "head ?q"] by simp
  moreover have "producer_step ?s2 ?s3"
    using producer_step.check[of ?s2 v "head ?q" "tail ?q"] nf by simp
  moreover have "producer_step ?s3 ?s4"
    using producer_step.write_slot[of ?s3 v "tail ?q"] by simp
  moreover have "producer_step ?s4 (s\<lparr>queue := q', pushed := pushed s @ [v]\<rparr>)"
    using producer_step.store_tail[of ?s4 v "tail ?q"] q' assms(1) by (cases s) simp
  ultimately show ?thesis
    by (meson converse_rtranclp_into_rtranclp rtranclp.rtrancl_refl)
qed

subsection \<open>Properties\<close>

text \<open>C3:
  One producer and one consumer can use the queue without locks: in every state reachable by
  any interleaving of their loads and stores, the values popped so far followed by the
  values in the queue are the values pushed so far, in order. Nothing is lost, duplicated or
  reordered, and the queue never holds more than its capacity.
\<close>

theorem spsc_concurrent_fifo:
  assumes "power_of_2 n" and "conc_reachable d n s"
  shows "pushed s = popped s @ contents (queue s) \<and> length (contents (queue s)) \<le> bound (queue s)"
  using conc_inv_contents[OF conc_reachable_inv[OF assms]] spsc.items_le by blast

text \<open>A run in which the consumer starts to pop while a push is under way.\<close>

lemma reachable_mid_push:
  "conc_reachable (0::nat) 2 ((conc_init 0 2)\<lparr>producer := P_head 7 0, consumer := C_head 0\<rparr>)"
proof -
  have "conc_reachable (0::nat) 2 ((conc_init 0 2)\<lparr>producer := P_head 7 0\<rparr>)"
    by (rule conc_reachable.step[OF conc_reachable.start])
      (use producer_step.load_head[of "conc_init (0::nat) 2" 7] in
        \<open>simp add: conc_step_def conc_init_def SPSCQueue_init_def\<close>)
  then show ?thesis
    by (rule conc_reachable.step)
      (use consumer_step.load_head[of "(conc_init (0::nat) 2)\<lparr>producer := P_head 7 0\<rparr>"] in
        \<open>simp add: conc_step_def conc_init_def SPSCQueue_init_def\<close>)
qed

lemma power_of_2_2: "power_of_2 2"
  by (auto simp: power_of_2_def intro!: bexI[of _ 1])

theorem spsc_concurrent_fifo_witness:
  "let s = (conc_init (0::nat) 2)\<lparr>producer := P_head 7 0, consumer := C_head 0\<rparr> in
   pushed s = popped s @ contents (queue s) \<and> length (contents (queue s)) \<le> bound (queue s)"
  using spsc_concurrent_fifo[OF power_of_2_2 reachable_mid_push] by (simp only: Let_def)

text \<open>C27:
  The buffer needs no synchronisation of its own: whenever the producer is about to write a
  slot and the consumer is about to read one, the slots differ.
\<close>

theorem spsc_no_data_race:
  assumes "power_of_2 n" and "conc_reachable d n s"
    and "producer s = P_write v t" and "consumer s = C_read h"
  shows "slot_index (queue s) t \<noteq> slot_index (queue s) h"
  using conc_inv_no_race[OF conc_reachable_inv[OF assms(1,2)] assms(3,4)] .

text \<open>
  A run with a write and a read pending at once: one element has been pushed, the producer
  has checked for room for a second one, the consumer has seen the first.
\<close>

definition race_state :: "nat conc" where
  "race_state = \<lparr>queue = \<lparr>head = 0, tail = 1, buffer = [7, 0], capacity = 2\<rparr>,
     producer = P_write 8 1, consumer = C_read 0, pushed = [7], popped = []\<rparr>"

lemma conc_reachable_rtranclp:
  "producer_step\<^sup>*\<^sup>* s s' \<Longrightarrow> conc_reachable d n s \<Longrightarrow> conc_reachable d n s'"
  by (induction rule: rtranclp_induct) (auto intro: conc_reachable.step simp: conc_step_def)

lemma reachable_race_state: "conc_reachable 0 2 race_state"
proof -
  let ?q = "\<lparr>head = 0, tail = 1, buffer = [7, 0], capacity = 2\<rparr> :: nat SPSCQueue"
  let ?s = "\<lambda>p c. \<lparr>queue = ?q, producer = p, consumer = c, pushed = [7], popped = []\<rparr>"
  have "try_push 7 (queue (conc_init (0::nat) 2)) = Some ?q"
    by (simp add: try_push_def conc_init_def SPSCQueue_init_def slot_index_def numeral_2_eq_2)
  then have "conc_reachable 0 2 ((conc_init 0 2)\<lparr>queue := ?q, pushed := pushed (conc_init 0 2) @ [7]\<rparr>)"
    by (intro conc_reachable_rtranclp[OF producer_alone_push] conc_reachable.start)
      (simp_all add: conc_init_def)
  then have "conc_reachable 0 2 (?s P_idle C_idle)" by (simp add: conc_init_def)
  then have "conc_reachable 0 2 (?s (P_head 8 0) C_idle)"
    by (rule conc_reachable.step)
      (use producer_step.load_head[of "?s P_idle C_idle" 8] in \<open>simp add: conc_step_def\<close>)
  then have "conc_reachable 0 2 (?s (P_tail 8 0 1) C_idle)"
    by (rule conc_reachable.step)
      (use producer_step.load_tail[of "?s (P_head 8 0) C_idle" 8 0] in \<open>simp add: conc_step_def\<close>)
  then have "conc_reachable 0 2 (?s (P_write 8 1) C_idle)"
    by (rule conc_reachable.step)
      (use producer_step.check[of "?s (P_tail 8 0 1) C_idle" 8 0 1] in \<open>simp add: conc_step_def\<close>)
  then have "conc_reachable 0 2 (?s (P_write 8 1) (C_head 0))"
    by (rule conc_reachable.step)
      (use consumer_step.load_head[of "?s (P_write 8 1) C_idle"] in \<open>simp add: conc_step_def\<close>)
  then have "conc_reachable 0 2 (?s (P_write 8 1) (C_tail 0 1))"
    by (rule conc_reachable.step)
      (use consumer_step.load_tail[of "?s (P_write 8 1) (C_head 0)" 0] in \<open>simp add: conc_step_def\<close>)
  then have "conc_reachable 0 2 (?s (P_write 8 1) (C_read 0))"
    by (rule conc_reachable.step)
      (use consumer_step.check[of "?s (P_write 8 1) (C_tail 0 1)" 0 1] in \<open>simp add: conc_step_def\<close>)
  then show ?thesis by (simp add: race_state_def)
qed

theorem spsc_no_data_race_witness:
  "slot_index (queue race_state) 1 \<noteq> slot_index (queue race_state) 0"
  using spsc_no_data_race[OF power_of_2_2 reachable_race_state, of 8 1 0]
  by (simp add: race_state_def)

end
