(* ===== verification/Word_Count.thy ===== *)
theory Word_Count
  imports Message
begin

text \<open>
  The work a worker does: \<^verbatim>\<open>execute_synthetic\<close> and \<^verbatim>\<open>execute_word_count\<close> of
  \<^verbatim>\<open>src/worker/worker.cpp\<close>, with the texts that clients submit for counting
  (\<^verbatim>\<open>include/client/workload_utils.hpp\<close>).

  The three nested loops of the word counter are three functions over the same index.
  Clock readings are arguments. \<^verbatim>\<open>std::isalnum\<close> is that of the C locale, which the program
  never changes.
\<close>

subsection \<open>Counting words\<close>

definition isalnum :: "char \<Rightarrow> bool" where
  "isalnum c = (let n = (of_char c :: nat) in
     (48 \<le> n \<and> n \<le> 57) \<or> (65 \<le> n \<and> n \<le> 90) \<or> (97 \<le> n \<and> n \<le> 122))"

definition apostrophe :: char where
  "apostrophe = CHR 0x27"

function skip_delimiters :: "string \<Rightarrow> nat \<Rightarrow> nat" where
  "skip_delimiters ws i =
     (if i < length ws \<and> \<not> isalnum (ws ! i) then skip_delimiters ws (i + 1) else i)"
  by pat_completeness auto
termination by (relation "measure (\<lambda>(ws, i). length ws - i)") auto

function consume_word :: "string \<Rightarrow> nat \<Rightarrow> nat" where
  "consume_word ws i =
     (if i < length ws then
        let c = ws ! i in
        if isalnum c then consume_word ws (i + 1)
        else if c = apostrophe then
          if i + 1 < length ws \<and> isalnum (ws ! (i + 1)) then consume_word ws (i + 1) else i
        else i
      else i)"
  by pat_completeness auto
termination by (relation "measure (\<lambda>(ws, i). length ws - i)") auto

declare skip_delimiters.simps [simp del] consume_word.simps [simp del]

lemma not_isalnum_apostrophe [simp]: "\<not> isalnum apostrophe"
  by (simp add: isalnum_def apostrophe_def)

lemma skip_delimiters_ge: "i \<le> skip_delimiters ws i"
  by (induction ws i rule: skip_delimiters.induct)
    (subst skip_delimiters.simps, auto)

lemma skip_delimiters_stop:
  "skip_delimiters ws i < length ws \<Longrightarrow> isalnum (ws ! skip_delimiters ws i)"
proof (induction ws i rule: skip_delimiters.induct)
  case (1 ws i)
  then show ?case
    by (cases "i < length ws \<and> \<not> isalnum (ws ! i)") (auto simp: skip_delimiters.simps[of ws i])
qed

lemma consume_word_ge: "i \<le> consume_word ws i"
  by (induction ws i rule: consume_word.induct)
    (subst consume_word.simps, fastforce simp: Let_def)

lemma consume_word_progress: "i < length ws \<Longrightarrow> isalnum (ws ! i) \<Longrightarrow> i < consume_word ws i"
  using consume_word_ge[of "i + 1" ws] by (simp add: consume_word.simps[of ws i])

function count_loop :: "string \<Rightarrow> nat \<Rightarrow> u32 \<Rightarrow> u32" where
  "count_loop ws i count =
     (if i < length ws then
        let i = skip_delimiters ws i;
            count = count + (if i < length ws then 1 else 0);
            i = consume_word ws i
        in count_loop ws i count
      else count)"
  by pat_completeness auto
termination
proof (relation "measure (\<lambda>(ws, i, count). length ws - i)", goal_cases)
  case (2 ws i count j count' k)
  then have "i < k"
    using skip_delimiters_ge[of i ws] skip_delimiters_stop[of ws i] consume_word_ge[of j ws]
      consume_word_progress[of j ws]
    by (cases "j < length ws") auto
  with 2 show ?case by auto
qed simp

declare count_loop.simps [simp del]

definition execute_word_count :: "u64 \<Rightarrow> u64 \<Rightarrow> AssignMsg \<Rightarrow> CompleteMsg \<Rightarrow> CompleteMsg" where
  "execute_word_count started completed task response =
     response\<lparr>com_task_id := am_task_id task, com_started_at := started,
       com_result := count_loop (am_words task) 0 0,
       com_completed_at := completed, com_success := 1\<rparr>"

definition execute_synthetic :: "u64 \<Rightarrow> u64 \<Rightarrow> AssignMsg \<Rightarrow> CompleteMsg \<Rightarrow> CompleteMsg" where
  "execute_synthetic started completed task response =
     response\<lparr>com_task_id := am_task_id task, com_started_at := started,
       com_completed_at := completed, com_success := 1\<rparr>"

text \<open>
  One round of \<^verbatim>\<open>Worker::execution_worker\<close> once a task has been popped: the type selects the
  work, any other type leaves the response as it was made.
\<close>

definition execute_task :: "u64 \<Rightarrow> u64 \<Rightarrow> AssignMsg \<Rightarrow> CompleteMsg" where
  "execute_task started completed task = (case am_type task of
     SYNTHETIC \<Rightarrow> execute_synthetic started completed task CompleteMsg_default
   | WORD_COUNT \<Rightarrow> execute_word_count started completed task CompleteMsg_default
   | _ \<Rightarrow> CompleteMsg_default)"

subsection \<open>Generated texts\<close>

datatype WorkloadSize = SHORT | MEDIUM | LONG

datatype TextMode = CLEAN | NOISY

fun get_text_size :: "WorkloadSize \<Rightarrow> nat" where
  "get_text_size SHORT = SHORT_TEXT_WORDS"
| "get_text_size MEDIUM = MEDIUM_TEXT_WORDS"
| "get_text_size LONG = LONG_TEXT_WORDS"

fun get_duration :: "WorkloadSize \<Rightarrow> u64" where
  "get_duration SHORT = SHORT_DURATION_US"
| "get_duration MEDIUM = MEDIUM_DURATION_US"
| "get_duration LONG = LONG_DURATION_US"

definition text_piece :: "TextMode \<Rightarrow> string" where
  "text_piece mode = (case mode of
     CLEAN \<Rightarrow> ''distributed'' @ '' ''
   | NOISY \<Rightarrow> ''distributed'' @ [apostrophe] @ ''s'' @ '' !?,.; '')"

primrec generate_text :: "nat \<Rightarrow> TextMode \<Rightarrow> string" where
  "generate_text 0 mode = []"
| "generate_text (Suc n) mode = generate_text n mode @ text_piece mode"

subsection \<open>Reference: words of a text\<close>

text \<open>
  Position \<open>i\<close> is inside a word when the character before it belongs to the same word: it
  is alphanumeric, or it is an apostrophe between two alphanumeric characters. A word starts
  at an alphanumeric character that is not inside a word.
\<close>

definition in_word :: "string \<Rightarrow> nat \<Rightarrow> bool" where
  "in_word s i \<longleftrightarrow>
     (1 \<le> i \<and> isalnum (s ! (i - 1))) \<or>
     (2 \<le> i \<and> i < length s \<and> s ! (i - 1) = apostrophe \<and> isalnum (s ! (i - 2)) \<and> isalnum (s ! i))"

definition word_starts :: "string \<Rightarrow> nat set" where
  "word_starts s = {p. p < length s \<and> isalnum (s ! p) \<and> \<not> in_word s p}"

text \<open>The same count in one pass over the characters, with the state "inside a word".\<close>

fun scan :: "bool \<Rightarrow> string \<Rightarrow> nat" where
  "scan b [] = 0"
| "scan b (c # cs) =
     (if isalnum c then (if b then 0 else 1) + scan True cs
      else if b \<and> c = apostrophe \<and> cs \<noteq> [] \<and> isalnum (hd cs) then scan True cs
      else scan False cs)"

lemma hd_drop_Suc: "drop (Suc i) s \<noteq> [] \<and> isalnum (hd (drop (Suc i) s)) \<longleftrightarrow>
    Suc i < length s \<and> isalnum (s ! Suc i)"
  by (auto simp: hd_drop_conv_nth)

lemma scan_skip: "scan False (drop i s) = scan False (drop (skip_delimiters s i) s)"
proof (induction s i rule: skip_delimiters.induct)
  case (1 s i)
  show ?case
  proof (cases "i < length s \<and> \<not> isalnum (s ! i)")
    case True
    then have "scan False (drop i s) = scan False (drop (i + 1) s)"
      by (simp flip: Cons_nth_drop_Suc)
    with 1 True show ?thesis by (simp add: skip_delimiters.simps[of s i])
  qed (auto simp: skip_delimiters.simps[of s i])
qed

lemma scan_consume: "scan True (drop i s) = scan False (drop (consume_word s i) s)"
proof (induction s i rule: consume_word.induct)
  case (1 s i)
  show ?case
  proof (cases "i < length s")
    case True
    then have d: "drop i s = s ! i # drop (Suc i) s" by (simp add: Cons_nth_drop_Suc)
    consider "isalnum (s ! i)"
      | "s ! i = apostrophe" "Suc i < length s" "isalnum (s ! Suc i)"
      | "\<not> isalnum (s ! i)" "s ! i = apostrophe \<longrightarrow> \<not> (Suc i < length s \<and> isalnum (s ! Suc i))"
      by blast
    then show ?thesis
    proof cases
      case 1
      with True "1.IH"(1) d show ?thesis by (simp add: consume_word.simps[of s i])
    next
      case 2
      with True "1.IH"(2) d show ?thesis
        by (simp add: consume_word.simps[of s i] hd_drop_conv_nth)
    next
      case 3
      then have "consume_word s i = i" by (auto simp: consume_word.simps[of s i] Let_def)
      moreover have "scan True (s ! i # drop (Suc i) s) = scan False (s ! i # drop (Suc i) s)"
        using 3 hd_drop_Suc[of i s] by auto
      ultimately show ?thesis using d by simp
    qed
  qed (simp add: consume_word.simps[of s i])
qed

lemma count_loop_scan: "count_loop s i count = count + of_nat (scan False (drop i s))"
proof (induction s i count rule: count_loop.induct)
  case (1 s i count)
  show ?case
  proof (cases "i < length s")
    case True
    let ?j = "skip_delimiters s i"
    have step: "scan False (drop i s) =
        (if ?j < length s then 1 else 0) + scan False (drop (consume_word s ?j) s)"
    proof (cases "?j < length s")
      case True
      then have d: "drop ?j s = s ! ?j # drop (Suc ?j) s" by (simp add: Cons_nth_drop_Suc)
      have c: "consume_word s ?j = consume_word s (Suc ?j)"
        using True skip_delimiters_stop[OF True] by (simp add: consume_word.simps[of s ?j])
      show ?thesis
        using True skip_delimiters_stop[OF True] scan_consume[of "Suc ?j" s]
        by (simp add: scan_skip[of i s] d c)
    next
      case False
      then show ?thesis
        by (simp add: scan_skip[of i s] consume_word.simps[of s ?j])
    qed
    have "count_loop s i count = count_loop s (consume_word s ?j)
        (count + (if ?j < length s then 1 else 0))"
      using True by (simp add: count_loop.simps[of s i count] Let_def)
    with "1.IH"[OF True refl refl refl] step show ?thesis by simp
  qed (simp add: count_loop.simps[of s i count])
qed

subsection \<open>The reference counts word starts\<close>

lemma in_word_Suc:
  assumes "i < length s"
  shows "in_word s (Suc i) \<longleftrightarrow> isalnum (s ! i) \<or>
    (in_word s i \<and> s ! i = apostrophe \<and> Suc i < length s \<and> isalnum (s ! Suc i))"
  using assms by (cases i) (auto simp: in_word_def)

lemma scan_card:
  "i \<le> length s \<Longrightarrow> scan (in_word s i) (drop i s) = card {p. i \<le> p \<and> p \<in> word_starts s}"
proof (induction "length s - i" arbitrary: i)
  case 0
  then have "{p. i \<le> p \<and> p \<in> word_starts s} = {}" by (auto simp: word_starts_def)
  with 0 show ?case by (simp only: card.empty) simp
next
  case (Suc n)
  then have i: "i < length s" by simp
  let ?S = "{p. Suc i \<le> p \<and> p \<in> word_starts s}"
  have IH: "scan (in_word s (Suc i)) (drop (Suc i) s) = card ?S"
    using Suc by (intro Suc.hyps(1)) auto
  have fin: "finite ?S" by (rule finite_subset[of _ "{..<length s}"]) (auto simp: word_starts_def)
  have split: "{p. i \<le> p \<and> p \<in> word_starts s} = (if i \<in> word_starts s then insert i ?S else ?S)"
    by (auto simp: Suc_le_eq order_le_less)
  have d: "drop i s = s ! i # drop (Suc i) s" using i by (simp add: Cons_nth_drop_Suc)
  have "scan (in_word s i) (drop i s) =
      (if i \<in> word_starts s then 1 else 0) + scan (in_word s (Suc i)) (drop (Suc i) s)"
    using i hd_drop_Suc[of i s] unfolding d in_word_Suc[OF i] by (auto simp: word_starts_def)
  then show ?case using fin by (simp add: split IH)
qed

lemma scan_word_starts: "scan False s = card (word_starts s)"
  using scan_card[of 0 s] by (simp add: in_word_def)

subsection \<open>Generated texts have the number of words asked for\<close>

lemma scan_append_space:
  assumes "xs \<noteq> []" and "\<not> isalnum (last xs)" and "last xs \<noteq> apostrophe"
  shows "scan b (xs @ ys) = scan b xs + scan False ys"
  using assms
proof (induction xs arbitrary: b)
  case (Cons x xs)
  show ?case
  proof (cases xs)
    case Nil
    with Cons.prems show ?thesis by simp
  next
    case (Cons x' xs')
    then have "scan b (xs @ ys) = scan b xs + scan False ys" for b
      using Cons.prems Cons.IH[of b] by (simp del: scan.simps)
    moreover have "xs \<noteq> []" "hd (xs @ ys) = hd xs" using Cons by simp_all
    ultimately show ?thesis by simp
  qed
qed simp

lemma scan_text_piece: "scan False (text_piece mode) = 1"
  by (cases mode) (simp_all add: text_piece_def isalnum_def apostrophe_def)

lemma last_text_piece: "text_piece mode \<noteq> []" "last (text_piece mode) = CHR '' ''"
  by (cases mode; simp add: text_piece_def)+

lemma scan_generate_text: "scan False (generate_text n mode) = n"
proof (induction n)
  case (Suc n)
  show ?case
  proof (cases n)
    case 0
    then show ?thesis by (simp add: scan_text_piece)
  next
    case (Suc m)
    have sp: "\<not> isalnum (CHR '' '')" "CHR '' '' \<noteq> apostrophe"
      by (simp_all add: isalnum_def apostrophe_def)
    have "generate_text n mode \<noteq> []" "last (generate_text n mode) = CHR '' ''"
      using Suc last_text_piece[of mode] by simp_all
    then show ?thesis
      using scan_append_space[of "generate_text n mode" False "text_piece mode"] sp Suc.IH
      by (simp add: scan_text_piece)
  qed
qed simp

subsection \<open>Properties\<close>

text \<open>C16:
  The index loops of \<^verbatim>\<open>execute_word_count\<close> terminate and count the words of the text: the
  result is the number of alphanumeric characters that do not continue a word (modulo
  \<open>2 ^ 32\<close>, the width of the counter), where a word continues over an apostrophe between two
  alphanumeric characters. The response carries the task's id, both clock readings and
  success.
\<close>

theorem word_count_correct:
  "execute_word_count started completed task response =
     \<lparr>com_task_id = am_task_id task, com_started_at = started, com_completed_at = completed,
      com_result = of_nat (card (word_starts (am_words task))), com_success = 1\<rparr>"
  by (simp add: execute_word_count_def count_loop_scan scan_word_starts)

text \<open>
  A client's check of the count never fails on a correct execution: a worker that counts the
  text generated for a workload size, clean or noisy, returns the size's number of words,
  which is what \<^verbatim>\<open>ClientRunner::worker\<close> asserts.
\<close>

theorem generated_text_count:
  assumes "am_type task = WORD_COUNT" and "am_words task = generate_text (get_text_size sz) mode"
  shows "com_result (execute_task started completed task) = of_nat (get_text_size sz)"
  using assms by (simp add: execute_task_def execute_word_count_def count_loop_scan scan_generate_text)

theorem generated_text_count_witness:
  "com_result (execute_task 3 4 \<lparr>am_task_id = 1, am_duration_us = 0, am_type = WORD_COUNT,
     am_words = generate_text 10 NOISY\<rparr>) = 10"
  using generated_text_count[of "\<lparr>am_task_id = 1, am_duration_us = 0, am_type = WORD_COUNT,
     am_words = generate_text 10 NOISY\<rparr>" SHORT NOISY 3 4]
  by (simp add: SHORT_TEXT_WORDS_def)

end
