(* ===== verification/Coordinator_State.thy ===== *)
theory Coordinator_State
  imports Message SPSC_Queue
begin

text \<open>
  The state of \<^verbatim>\<open>coordinator::Coordinator\<close> (\<^verbatim>\<open>include/coordinator/coordinator.hpp\<close>,
  \<^verbatim>\<open>include/coordinator/types.hpp\<close>), the clock, and the scheduler thread's access to the three
  queues it shares with the network thread.

  The record \<open>Coordinator\<close> has the fields only the scheduler thread touches; \<open>Shared\<close> has
  the queues, together with what the model adds to them: \<open>delivered\<close>, the events the
  network thread has taken from the outgoing queue so far, and the numbers of clock readings
  and of turns of the network thread. The network thread gets a turn before every attempt
  of the scheduler to push or pop: \<open>Env\<close> says what it does then (how many outgoing events it
  takes, which incoming events it pushes) and what the clock reads. All theorems hold for
  every \<open>Env\<close>, so for every relative speed of the two threads. That single operations of the
  queues may be taken as atomic is what \<open>SPSC_Concurrent\<close> shows.

  Operations that can fault (an index outside a \<^verbatim>\<open>std::vector\<close>, \<^verbatim>\<open>std::out_of_range\<close> from
  \<^verbatim>\<open>at\<close>) return an option, with \<open>None\<close> for the fault.
\<close>

subsection \<open>Data\<close>

record IncomingEvent =
  ie_fd :: int
  ie_msg :: Message

definition IncomingEvent_default :: IncomingEvent where
  "IncomingEvent_default = \<lparr>ie_fd = -1, ie_msg = Message_default\<rparr>"

record OutgoingEvent =
  oe_fd :: int
  oe_msg :: Message

definition OutgoingEvent_default :: OutgoingEvent where
  "OutgoingEvent_default = \<lparr>oe_fd = -1, oe_msg = Message_default\<rparr>"

record WorkerState =
  ws_tasks_completed :: u64
  ws_total_latency_ns :: u64
  last_heartbeat_ns :: u64
  active_index :: nat
  ws_fd :: int
  alive :: bool
  running_tasks :: "u64 uset"

text \<open>The default member initialiser of \<^verbatim>\<open>last_heartbeat_ns_\<close> reads the clock: \<open>now\<close>.\<close>

definition WorkerState_new :: "int \<Rightarrow> u64 \<Rightarrow> WorkerState" where
  "WorkerState_new fd now = \<lparr>ws_tasks_completed = 0, ws_total_latency_ns = 0,
     last_heartbeat_ns = now, active_index = 0, ws_fd = fd, alive = True, running_tasks = []\<rparr>"

definition mark_dead :: "WorkerState \<Rightarrow> WorkerState" where
  "mark_dead w = w\<lparr>ws_fd := -1, alive := False\<rparr>"

record Metrics =
  total_latency_ns :: u64
  tasks_completed :: u64
  tasks_queued :: u64
  tasks_running :: u64
  min_latency_ns :: u64
  max_latency_ns :: u64
  latencies :: "u64 list"
  completion_times_ns :: "u64 list"

definition Metrics_default :: Metrics where
  "Metrics_default = \<lparr>total_latency_ns = 0, tasks_completed = 0, tasks_queued = 0,
     tasks_running = 0, min_latency_ns = 0, max_latency_ns = 0, latencies = [],
     completion_times_ns = []\<rparr>"

record Shared =
  control_queue :: "IncomingEvent SPSCQueue"
  task_queue :: "IncomingEvent SPSCQueue"
  outgoing_queue :: "OutgoingEvent SPSCQueue"
  delivered :: "OutgoingEvent list"
  turns :: nat
  ticks :: nat

record Coordinator =
  last_sweep :: u64
  current_epoch :: u64
  rr_index :: nat
  replication_read_ptr :: nat
  replication_write_ptr :: nat
  is_primary :: bool
  tasks :: "(u64, Task) umap"
  client_fds :: "(u32, int) umap"
  early_complete_reps :: "(u64, IncomingEvent) umap"
  replication_log :: "Message list"
  queued_backlog :: "u64 list"
  completed_backlog :: "u64 list"
  workers_states :: "WorkerState list"
  active_workers :: "u32 list"
  available_ids :: "u32 list"
  metrics :: Metrics
  shared :: Shared

definition Shared_init :: Shared where
  "Shared_init = \<lparr>
     control_queue = SPSCQueue_init IncomingEvent_default COORDINATOR_CONTROL_QUEUE_CAPACITY,
     task_queue = SPSCQueue_init IncomingEvent_default COORDINATOR_TASK_QUEUE_CAPACITY,
     outgoing_queue = SPSCQueue_init OutgoingEvent_default COORDINATOR_OUTGOING_QUEUE_CAPACITY,
     delivered = [], turns = 0, ticks = 0\<rparr>"

definition Coordinator_init :: Coordinator where
  "Coordinator_init = \<lparr>last_sweep = 0, current_epoch = 0, rr_index = 0,
     replication_read_ptr = 0, replication_write_ptr = 0, is_primary = False, tasks = [],
     client_fds = [], early_complete_reps = [],
     replication_log = replicate MAX_LOG_SIZE Message_default, queued_backlog = [],
     completed_backlog = [], workers_states = [], active_workers = [], available_ids = [],
     metrics = Metrics_default, shared = Shared_init\<rparr>"

subsection \<open>The clock and the network thread\<close>

record Env =
  now_at :: "nat \<Rightarrow> u64"
  drain_at :: "nat \<Rightarrow> nat"
  control_at :: "nat \<Rightarrow> IncomingEvent list"
  task_at :: "nat \<Rightarrow> IncomingEvent list"

definition now_ns_u64 :: "Env \<Rightarrow> Coordinator \<Rightarrow> u64 \<times> Coordinator" where
  "now_ns_u64 env s = (now_at env (ticks (shared s)),
     s\<lparr>shared := (shared s)\<lparr>ticks := Suc (ticks (shared s))\<rparr>\<rparr>)"

text \<open>
  Incoming events go into their queue while there is room; what does not fit waits in the
  network thread's own backlog and is pushed in a later turn.
\<close>

primrec push_all :: "'a list \<Rightarrow> 'a SPSCQueue \<Rightarrow> 'a SPSCQueue" where
  "push_all [] q = q"
| "push_all (v # vs) q = (case try_push v q of None \<Rightarrow> q | Some q' \<Rightarrow> push_all vs q')"

definition network_turn :: "Env \<Rightarrow> Shared \<Rightarrow> Shared" where
  "network_turn env sh = (let
     i = turns sh;
     (out, q) = pop_many try_pop (drain_at env i) (outgoing_queue sh)
   in sh\<lparr>outgoing_queue := q, delivered := delivered sh @ out,
     control_queue := push_all (control_at env i) (control_queue sh),
     task_queue := push_all (task_at env i) (task_queue sh),
     turns := Suc i\<rparr>)"

subsection \<open>The scheduler's queue operations\<close>

definition push_outgoing :: "OutgoingEvent \<Rightarrow> Shared \<Rightarrow> Shared option" where
  "push_outgoing ev sh = map_option (\<lambda>q. sh\<lparr>outgoing_queue := q\<rparr>) (try_push ev (outgoing_queue sh))"

definition pop_control :: "Shared \<Rightarrow> (IncomingEvent \<times> Shared) option" where
  "pop_control sh = map_option (\<lambda>(ev, q). (ev, sh\<lparr>control_queue := q\<rparr>)) (try_pop (control_queue sh))"

definition pop_task :: "Shared \<Rightarrow> (IncomingEvent \<times> Shared) option" where
  "pop_task sh = map_option (\<lambda>(ev, q). (ev, sh\<lparr>task_queue := q\<rparr>)) (try_pop (task_queue sh))"

definition try_push_outgoing :: "Env \<Rightarrow> OutgoingEvent \<Rightarrow> Coordinator \<Rightarrow> bool \<times> Coordinator" where
  "try_push_outgoing env ev s =
     (case push_retry QUEUE_RETRY_COUNT (\<lambda>_. network_turn env) (push_outgoing ev) 0
             (network_turn env (shared s)) of
        (ok, sh) \<Rightarrow> (ok, s\<lparr>shared := sh\<rparr>))"

definition try_pop_incoming ::
  "Env \<Rightarrow> (Shared \<Rightarrow> (IncomingEvent \<times> Shared) option) \<Rightarrow> Coordinator
     \<Rightarrow> IncomingEvent option \<times> Coordinator" where
  "try_pop_incoming env pop s =
     (case pop_retry QUEUE_RETRY_COUNT (\<lambda>_. network_turn env) pop 0
             (network_turn env (shared s)) of
        (ev, sh) \<Rightarrow> (ev, s\<lparr>shared := sh\<rparr>))"

subsection \<open>Vectors\<close>

definition vec_at :: "'a list \<Rightarrow> nat \<Rightarrow> 'a option" where
  "vec_at xs i = (if i < length xs then Some (xs ! i) else None)"

definition worker_at :: "Coordinator \<Rightarrow> u32 \<Rightarrow> WorkerState option" where
  "worker_at s i = vec_at (workers_states s) (unat i)"

definition set_worker :: "u32 \<Rightarrow> WorkerState \<Rightarrow> Coordinator \<Rightarrow> Coordinator" where
  "set_worker i w s = s\<lparr>workers_states := (workers_states s)[unat i := w]\<rparr>"

definition set_task :: "u64 \<Rightarrow> Task \<Rightarrow> Coordinator \<Rightarrow> Coordinator" where
  "set_task k t s = s\<lparr>tasks := umap_assign k t (tasks s)\<rparr>"

text \<open>Updates of the shared part are moved outwards, so that states compare by rewriting.\<close>

lemma shared_last [simp]:
  "s\<lparr>shared := sh, last_sweep := v1\<rparr> = s\<lparr>last_sweep := v1, shared := sh\<rparr>"
  "s\<lparr>shared := sh, current_epoch := v2\<rparr> = s\<lparr>current_epoch := v2, shared := sh\<rparr>"
  "s\<lparr>shared := sh, rr_index := v3\<rparr> = s\<lparr>rr_index := v3, shared := sh\<rparr>"
  "s\<lparr>shared := sh, replication_read_ptr := v4\<rparr> = s\<lparr>replication_read_ptr := v4, shared := sh\<rparr>"
  "s\<lparr>shared := sh, replication_write_ptr := v5\<rparr> = s\<lparr>replication_write_ptr := v5, shared := sh\<rparr>"
  "s\<lparr>shared := sh, is_primary := v6\<rparr> = s\<lparr>is_primary := v6, shared := sh\<rparr>"
  "s\<lparr>shared := sh, tasks := v7\<rparr> = s\<lparr>tasks := v7, shared := sh\<rparr>"
  "s\<lparr>shared := sh, client_fds := v8\<rparr> = s\<lparr>client_fds := v8, shared := sh\<rparr>"
  "s\<lparr>shared := sh, early_complete_reps := v9\<rparr> = s\<lparr>early_complete_reps := v9, shared := sh\<rparr>"
  "s\<lparr>shared := sh, replication_log := v10\<rparr> = s\<lparr>replication_log := v10, shared := sh\<rparr>"
  "s\<lparr>shared := sh, queued_backlog := v11\<rparr> = s\<lparr>queued_backlog := v11, shared := sh\<rparr>"
  "s\<lparr>shared := sh, completed_backlog := v12\<rparr> = s\<lparr>completed_backlog := v12, shared := sh\<rparr>"
  "s\<lparr>shared := sh, workers_states := v13\<rparr> = s\<lparr>workers_states := v13, shared := sh\<rparr>"
  "s\<lparr>shared := sh, active_workers := v14\<rparr> = s\<lparr>active_workers := v14, shared := sh\<rparr>"
  "s\<lparr>shared := sh, available_ids := v15\<rparr> = s\<lparr>available_ids := v15, shared := sh\<rparr>"
  "s\<lparr>shared := sh, metrics := v16\<rparr> = s\<lparr>metrics := v16, shared := sh\<rparr>"
  by simp_all

subsection \<open>The outgoing stream\<close>

text \<open>
  Everything the scheduler has pushed so far, in order: what the network thread has taken
  and what is still queued.
\<close>

definition out_stream :: "Coordinator \<Rightarrow> OutgoingEvent list" where
  "out_stream s = delivered (shared s) @ contents (outgoing_queue (shared s))"

definition shared_inv :: "Shared \<Rightarrow> bool" where
  "shared_inv sh \<longleftrightarrow> spsc_inv (control_queue sh) \<and> spsc_inv (task_queue sh) \<and>
     spsc_inv (outgoing_queue sh)"

lemma push_all_inv:
  assumes "spsc_inv q"
  shows "spsc_inv (push_all vs q) \<and> (\<exists>k. contents (push_all vs q) = contents q @ take k vs)"
  using assms
proof (induction vs arbitrary: q)
  case (Cons v vs)
  show ?case
  proof (cases "try_push v q")
    case None
    then show ?thesis using Cons.prems by (auto intro: exI[of _ 0])
  next
    case (Some q')
    then have "spsc_inv q'" "contents q' = contents q @ [v]"
      using spsc.push_Some[OF Cons.prems] by blast+
    moreover obtain k where "contents (push_all vs q') = contents q' @ take k vs"
      using Cons.IH \<open>spsc_inv q'\<close> by blast
    ultimately show ?thesis
      using Some Cons.IH by (auto intro!: exI[of _ "Suc k"])
  qed
qed auto

lemma network_turn_simps [simp]:
  "control_queue (network_turn env sh) = push_all (control_at env (turns sh)) (control_queue sh)"
  "task_queue (network_turn env sh) = push_all (task_at env (turns sh)) (task_queue sh)"
  "turns (network_turn env sh) = Suc (turns sh)"
  "ticks (network_turn env sh) = ticks sh"
  by (simp_all add: network_turn_def Let_def split: prod.split)

lemma network_turn_outgoing:
  assumes "spsc_inv (outgoing_queue sh)"
  shows "spsc_inv (outgoing_queue (network_turn env sh))"
    and "delivered (network_turn env sh) = delivered sh @
      take (drain_at env (turns sh)) (contents (outgoing_queue sh))"
    and "contents (outgoing_queue (network_turn env sh)) =
      drop (drain_at env (turns sh)) (contents (outgoing_queue sh))"
    and "bound (outgoing_queue (network_turn env sh)) = bound (outgoing_queue sh)"
proof -
  obtain out q where *: "pop_many try_pop (drain_at env (turns sh)) (outgoing_queue sh) = (out, q)"
    by fastforce
  note spsc.pop_many[OF assms *]
  then show "spsc_inv (outgoing_queue (network_turn env sh))"
    and "delivered (network_turn env sh) = delivered sh @
      take (drain_at env (turns sh)) (contents (outgoing_queue sh))"
    and "contents (outgoing_queue (network_turn env sh)) =
      drop (drain_at env (turns sh)) (contents (outgoing_queue sh))"
    and "bound (outgoing_queue (network_turn env sh)) = bound (outgoing_queue sh)"
    by (simp_all add: network_turn_def Let_def *)
qed

lemma network_turn_inv:
  assumes "shared_inv sh"
  shows "shared_inv (network_turn env sh)"
  using assms network_turn_outgoing(1)[of sh env] push_all_inv[of "control_queue sh"]
    push_all_inv[of "task_queue sh"]
  by (simp add: shared_inv_def)

lemma network_turn_stream:
  assumes "shared_inv sh"
  shows "delivered (network_turn env sh) @ contents (outgoing_queue (network_turn env sh)) =
    delivered sh @ contents (outgoing_queue sh)"
  using network_turn_outgoing(2,3)[of sh env] assms by (simp add: shared_inv_def)

lemma push_outgoing_Some:
  assumes "shared_inv sh" and "push_outgoing ev sh = Some sh'"
  shows "shared_inv sh' \<and>
    delivered sh' @ contents (outgoing_queue sh') = delivered sh @ contents (outgoing_queue sh) @ [ev] \<and>
    ticks sh' = ticks sh"
  using assms spsc.push_Some[of "outgoing_queue sh" ev]
  by (auto simp: shared_inv_def push_outgoing_def)

text \<open>
  What a push to the outgoing queue does to the coordinator: nothing but extending the
  stream by the event, when it succeeds, and nothing otherwise, whatever the network thread
  does meanwhile.
\<close>

lemma try_push_outgoing_eq:
  assumes "shared_inv (shared s)" and "try_push_outgoing env ev s = (ok, s')"
  shows "\<exists>sh. s' = s\<lparr>shared := sh\<rparr> \<and> shared_inv sh \<and> ticks sh = ticks (shared s) \<and>
    out_stream s' = out_stream s @ (if ok then [ev] else [])"
proof -
  let ?D = "delivered (shared s) @ contents (outgoing_queue (shared s))"
  obtain sh where r: "push_retry QUEUE_RETRY_COUNT (\<lambda>_. network_turn env) (push_outgoing ev) 0
      (network_turn env (shared s)) = (ok, sh)" and s': "s' = s\<lparr>shared := sh\<rparr>"
    using assms(2) by (auto simp: try_push_outgoing_def split: prod.splits)
  define P where "P xs q \<longleftrightarrow> shared_inv q \<and> ticks q = ticks (shared s) \<and>
    delivered q @ contents (outgoing_queue q) = ?D @ xs" for xs and q
  have "if ok then P [ev] sh else P [] sh"
  proof (rule push_retry_rule[OF r])
    show turn: "P [] (network_turn env q)" if "P [] q" for q
      using that network_turn_inv network_turn_stream by (simp add: P_def)
    show "P [] (network_turn env (shared s))"
      by (rule turn) (simp add: P_def assms(1))
    show "P [ev] q'" if "P [] q" "push_outgoing ev q = Some q'" for q q'
      using that push_outgoing_Some[of q ev q'] by (simp add: P_def)
  qed
  then show ?thesis
    using s' by (cases ok) (auto simp: P_def out_stream_def)
qed

text \<open>A push succeeds whenever the outgoing queue is not full.\<close>

lemma try_push_outgoing_room:
  assumes "shared_inv (shared s)"
    and "length (contents (outgoing_queue (shared s))) < bound (outgoing_queue (shared s))"
  shows "fst (try_push_outgoing env ev s)"
proof -
  let ?sh = "network_turn env (shared s)"
  have "shared_inv ?sh" by (rule network_turn_inv[OF assms(1)])
  moreover have "length (contents (outgoing_queue ?sh)) < bound (outgoing_queue ?sh)"
    using network_turn_outgoing(3,4)[of "shared s" env] assms by (simp add: shared_inv_def)
  ultimately obtain sh where "push_outgoing ev ?sh = Some sh"
    using spsc.push_None[of "outgoing_queue ?sh" ev]
    by (cases "try_push ev (outgoing_queue ?sh)") (auto simp: shared_inv_def push_outgoing_def)
  then show ?thesis
    by (simp add: try_push_outgoing_def push_retry.simps)
qed

definition out_full :: "Coordinator \<Rightarrow> bool" where
  "out_full s \<longleftrightarrow> length (contents (outgoing_queue (shared s))) = bound (outgoing_queue (shared s))"

lemma try_push_outgoing_fails:
  assumes "shared_inv (shared s)" and "try_push_outgoing env ev s = (False, s')"
  shows "out_full s \<and> out_full s'"
proof
  have "length (contents (outgoing_queue (shared s))) \<le> bound (outgoing_queue (shared s))"
    using assms(1) by (intro spsc.items_le) (simp add: shared_inv_def)
  moreover have "bound (outgoing_queue (shared s)) \<le> length (contents (outgoing_queue (shared s)))"
    using try_push_outgoing_room[OF assms(1), of env ev] assms(2) by (metis fst_conv leI)
  ultimately show "out_full s" by (simp only: out_full_def)
  obtain sh where r: "push_retry QUEUE_RETRY_COUNT (\<lambda>_. network_turn env) (push_outgoing ev) 0
      (network_turn env (shared s)) = (False, sh)" and s': "s' = s\<lparr>shared := sh\<rparr>"
    using assms(2) by (auto simp: try_push_outgoing_def split: prod.splits)
  have "shared_inv (shared s')" using try_push_outgoing_eq[OF assms] by auto
  then have "shared_inv sh" using s' by simp
  then show "out_full s'"
    using push_retry_gives_up[OF r] spsc.push_None[of "outgoing_queue sh" ev] s'
    by (simp add: push_outgoing_def shared_inv_def out_full_def del: length_contents)
qed

text \<open>A push adds at most one event to the queue, which keeps its capacity.\<close>

lemma try_push_outgoing_level:
  assumes "shared_inv (shared s)" and "try_push_outgoing env ev s = (ok, s')"
  shows "bound (outgoing_queue (shared s')) = bound (outgoing_queue (shared s)) \<and>
    length (contents (outgoing_queue (shared s'))) \<le>
      Suc (length (contents (outgoing_queue (shared s))))"
proof -
  let ?n = "length (contents (outgoing_queue (shared s)))"
  let ?b = "bound (outgoing_queue (shared s))"
  obtain sh where r: "push_retry QUEUE_RETRY_COUNT (\<lambda>_. network_turn env) (push_outgoing ev) 0
      (network_turn env (shared s)) = (ok, sh)" and s': "s' = s\<lparr>shared := sh\<rparr>"
    using assms(2) by (auto simp: try_push_outgoing_def split: prod.splits)
  define P where "P k q \<longleftrightarrow> shared_inv q \<and> bound (outgoing_queue q) = ?b \<and>
    length (contents (outgoing_queue q)) \<le> k" for k and q
  have "if ok then P (Suc ?n) sh else P ?n sh"
  proof (rule push_retry_rule[OF r])
    show turn: "P ?n (network_turn env q)" if "P ?n q" for q
      using that network_turn_inv[of q] network_turn_outgoing(3,4)[of q env]
      by (auto simp: P_def shared_inv_def simp del: length_contents)
    show "P ?n (network_turn env (shared s))"
      by (rule turn) (simp add: P_def assms(1) del: length_contents)
    show "P (Suc ?n) q'" if "P ?n q" "push_outgoing ev q = Some q'" for q q'
      using that push_outgoing_Some[of q ev q'] spsc.push_Some[of "outgoing_queue q" ev]
      by (auto simp: P_def push_outgoing_def shared_inv_def simp del: length_contents)
  qed
  then show ?thesis
    using s' by (cases ok) (auto simp: P_def)
qed

end
