(* ===== verification/Worker_Pool.thy ===== *)
theory Worker_Pool
  imports Coordinator_State
begin

text \<open>
  The coordinator's view of its workers: registration, heartbeats, the timeout sweep and the
  swap-remove on \<^verbatim>\<open>active_workers_\<close>.

  \<open>active_workers\<close> lists the workers that get tasks, each worker's \<open>active_index\<close> is its
  place in that list, and \<open>available_ids\<close> are the ids free for the next registration.
  \<open>pool_inv\<close> states how the three fit together; \<open>pool_safe\<close> is the part that is needed for
  no access to be out of range.
\<close>

subsection \<open>Operations\<close>

definition mark_inactive :: "u32 \<Rightarrow> Coordinator \<Rightarrow> Coordinator option" where
  "mark_inactive worker_id s = (if active_workers s = [] then Some s else do {
     w \<leftarrow> worker_at s worker_id;
     let i = active_index w;
     let n = length (active_workers s);
     if i \<ge> n then Some s
     else do {
       let last_worker_id = last (active_workers s);
       let swapped = (active_workers s)[i := last (active_workers s), n - 1 := active_workers s ! i];
       let s = s\<lparr>active_workers := butlast swapped\<rparr>;
       l \<leftarrow> worker_at s last_worker_id;
       Some (set_worker last_worker_id (l\<lparr>active_index := i\<rparr>) s)
     }
   })"

text \<open>The loop over \<^verbatim>\<open>running_tasks_\<close> in \<^verbatim>\<open>is_alive\<close>: the first element of the set until it is empty.\<close>

primrec requeue_running :: "u64 uset \<Rightarrow> u32 \<Rightarrow> Coordinator \<Rightarrow> Coordinator option" where
  "requeue_running [] worker_id s = Some s"
| "requeue_running (task_id # rest) worker_id s = do {
     task \<leftarrow> umap_find (tasks s) task_id;
     let s = set_task task_id (task\<lparr>t_state := QUEUED\<rparr>) s;
     let s = s\<lparr>queued_backlog := queued_backlog s @ [task_id]\<rparr>;
     w \<leftarrow> worker_at s worker_id;
     requeue_running rest worker_id (set_worker worker_id (w\<lparr>running_tasks := rest\<rparr>) s)
   }"

definition is_alive :: "Env \<Rightarrow> u32 \<Rightarrow> Coordinator \<Rightarrow> (bool \<times> Coordinator) option" where
  "is_alive env worker_id s = do {
     w \<leftarrow> worker_at s worker_id;
     if \<not> alive w then Some (False, s)
     else case now_ns_u64 env s of (now, s) \<Rightarrow>
       if now - last_heartbeat_ns w \<le> HEARTBEAT_TIMEOUT_NS then Some (True, s)
       else do {
         s \<leftarrow> mark_inactive worker_id s;
         let s = s\<lparr>available_ids := available_ids s @ [worker_id]\<rparr>;
         w \<leftarrow> worker_at s worker_id;
         let s = set_worker worker_id (mark_dead w) s;
         s \<leftarrow> requeue_running (running_tasks w) worker_id s;
         Some (False, s)
       }
   }"

primrec sweep_loop :: "Env \<Rightarrow> u32 list \<Rightarrow> Coordinator \<Rightarrow> Coordinator option" where
  "sweep_loop env [] s = Some s"
| "sweep_loop env (worker_id # ids) s = do {
     (_, s) \<leftarrow> is_alive env worker_id s;
     sweep_loop env ids s
   }"

definition sweep_workers :: "Env \<Rightarrow> Coordinator \<Rightarrow> Coordinator option" where
  "sweep_workers env s = (let
     worker_count = (of_nat (length (workers_states s)) :: u32)
   in sweep_loop env (map of_nat [0..<unat worker_count]) s)"

definition process_heartbeat_event :: "Env \<Rightarrow> IncomingEvent \<Rightarrow> Coordinator \<Rightarrow> Coordinator option" where
  "process_heartbeat_event env event s = do {
     let worker_id = hb_worker_id (heartbeat (ie_msg event));
     w \<leftarrow> worker_at s worker_id;
     case now_ns_u64 env s of (now, s) \<Rightarrow>
       Some (set_worker worker_id (w\<lparr>last_heartbeat_ns := now, alive := True\<rparr>) s)
   }"

text \<open>
  \<^verbatim>\<open>process_register_event\<close> chooses an id, acknowledges it, and then takes the slot of that id
  (\<open>register_slot\<close>, the two branches after the push) and makes the worker active.
\<close>

definition register_slot :: "Env \<Rightarrow> int \<Rightarrow> u32 \<Rightarrow> Coordinator \<Rightarrow> Coordinator option" where
  "register_slot env fd worker_id s =
     (if available_ids s \<noteq> [] then do {
        let s = s\<lparr>available_ids := butlast (available_ids s)\<rparr>;
        w \<leftarrow> worker_at s worker_id;
        case now_ns_u64 env s of (now, s) \<Rightarrow>
          Some (set_worker worker_id (w\<lparr>alive := True, last_heartbeat_ns := now, ws_fd := fd\<rparr>) s)
      } else case now_ns_u64 env s of (created, s) \<Rightarrow> do {
        let s = s\<lparr>workers_states := workers_states s @ [WorkerState_new fd created]\<rparr>;
        w \<leftarrow> worker_at s worker_id;
        case now_ns_u64 env s of (now, s) \<Rightarrow>
          Some (set_worker worker_id (w\<lparr>alive := True, last_heartbeat_ns := now\<rparr>) s)
      })"

definition process_register_event :: "Env \<Rightarrow> IncomingEvent \<Rightarrow> Coordinator \<Rightarrow> Coordinator option" where
  "process_register_event env event s = (let
     worker_id = (if available_ids s \<noteq> [] then last (available_ids s)
                  else of_nat (length (workers_states s)));
     msg = (Message_new ACKNOWLEDGE)\<lparr>acknowledge := \<lparr>ack_worker_id = worker_id\<rparr>\<rparr>;
     out_event = \<lparr>oe_fd = ie_fd event, oe_msg = msg\<rparr>
   in case try_push_outgoing env out_event s of (ok, s) \<Rightarrow>
     if \<not> ok then Some s
     else do {
       s \<leftarrow> register_slot env (ie_fd event) worker_id s;
       w \<leftarrow> worker_at s worker_id;
       let s = set_worker worker_id (w\<lparr>active_index := length (active_workers s)\<rparr>) s;
       Some (s\<lparr>active_workers := active_workers s @ [worker_id]\<rparr>)
     })"

subsection \<open>Invariants\<close>

definition index_ok :: "u32 list \<Rightarrow> WorkerState list \<Rightarrow> bool" where
  "index_ok active ws \<longleftrightarrow> distinct active \<and>
     (\<forall>j<length active. unat (active ! j) < length ws \<and> active_index (ws ! unat (active ! j)) = j)"

definition pool_safe :: "Coordinator \<Rightarrow> bool" where
  "pool_safe s \<longleftrightarrow> length (workers_states s) < 2 ^ 32 \<and>
     (\<forall>i\<in>set (active_workers s). unat i < length (workers_states s)) \<and>
     (\<forall>i\<in>set (available_ids s). unat i < length (workers_states s))"

definition pool_inv :: "Coordinator \<Rightarrow> bool" where
  "pool_inv s \<longleftrightarrow> length (workers_states s) < 2 ^ 32 \<and>
     index_ok (active_workers s) (workers_states s) \<and> distinct (available_ids s) \<and>
     (\<forall>i\<in>set (available_ids s). unat i < length (workers_states s)) \<and>
     (\<forall>i. unat i < length (workers_states s) \<longrightarrow>
        (i \<in> set (active_workers s) \<longleftrightarrow> alive (workers_states s ! unat i)) \<and>
        (i \<in> set (available_ids s) \<longleftrightarrow> \<not> alive (workers_states s ! unat i)) \<and>
        (\<not> alive (workers_states s ! unat i) \<longrightarrow> running_tasks (workers_states s ! unat i) = []))"

text \<open>What the tasks and the sets of running tasks promise each other.\<close>

definition worker_ok :: "(u64, Task) umap \<Rightarrow> WorkerState \<Rightarrow> bool" where
  "worker_ok ts w \<longleftrightarrow> distinct (running_tasks w) \<and>
     length (running_tasks w) \<le> WORKER_MAX_QUEUE_DEPTH \<and> set (running_tasks w) \<subseteq> umap_keys ts"

definition tasks_inv :: "Coordinator \<Rightarrow> bool" where
  "tasks_inv s \<longleftrightarrow> umap_ok (tasks s) \<and> (\<forall>k t. umap_find (tasks s) k = Some t \<longrightarrow> t_id t = k) \<and>
     (\<forall>w\<in>set (workers_states s). worker_ok (tasks s) w) \<and>
     set (queued_backlog s) \<subseteq> umap_keys (tasks s)"

lemma pool_inv_safe: "pool_inv s \<Longrightarrow> pool_safe s"
  by (auto simp: pool_inv_def pool_safe_def index_ok_def in_set_conv_nth)

lemma pool_inv_active_iff:
  assumes "pool_inv s"
  shows "i \<in> set (active_workers s) \<longleftrightarrow>
    unat i < length (workers_states s) \<and> alive (workers_states s ! unat i)"
proof -
  have "unat i < length (workers_states s)" if "i \<in> set (active_workers s)"
    using that pool_inv_safe[OF assms] unfolding pool_safe_def by blast
  then show ?thesis using assms unfolding pool_inv_def by blast
qed

lemma worker_at_Some [simp]:
  "worker_at s i = Some w \<longleftrightarrow> unat i < length (workers_states s) \<and> w = workers_states s ! unat i"
  by (auto simp: worker_at_def vec_at_def)

subsection \<open>Swap-remove\<close>

lemma swap_butlast:
  assumes "i < length xs"
  shows "butlast (xs[i := last xs, length xs - 1 := y]) = (butlast xs)[i := last xs]"
  using assms by (simp add: butlast_list_update list_update_beyond)

lemma set_butlast_distinct:
  assumes "distinct xs" and "xs \<noteq> []"
  shows "set (butlast xs) = set xs - {last xs}" and "last xs \<notin> set (butlast xs)"
  using assms by (cases xs rule: rev_cases; auto)+

lemma swap_remove_set:
  assumes "distinct xs" and "j < length xs"
  shows "distinct ((butlast xs)[j := last xs])"
    and "set ((butlast xs)[j := last xs]) = set xs - {xs ! j}"
proof -
  have ne: "xs \<noteq> []" using assms(2) by auto
  note bl = set_butlast_distinct[OF assms(1) ne]
  have dis: "distinct (butlast xs)" using assms(1) by (rule distinct_butlast)
  show "distinct ((butlast xs)[j := last xs])"
    using dis bl(2) by (intro distinct_list_update) auto
  show "set ((butlast xs)[j := last xs]) = set xs - {xs ! j}"
  proof (cases "j = length xs - 1")
    case True
    then show ?thesis using bl(1) ne by (simp add: last_conv_nth list_update_beyond)
  next
    case False
    then have j: "j < length (butlast xs)" using assms(2) by simp
    then have "xs ! j = butlast xs ! j" by (simp add: nth_butlast)
    moreover have "set xs = insert (last xs) (set (butlast xs))"
      unfolding bl(1) using last_in_set[OF ne] by (simp add: insert_absorb)
    moreover have "last xs \<noteq> butlast xs ! j" using bl(2) nth_mem[OF j] by metis
    ultimately show ?thesis
      unfolding set_update_distinct[OF dis j] by auto
  qed
qed

lemma swap_remove_index:
  assumes ok: "index_ok active ws" and j: "j < length active"
  defines "l \<equiv> last active"
  shows "index_ok ((butlast active)[j := l]) (ws[unat l := (ws ! unat l)\<lparr>active_index := j\<rparr>])"
proof -
  have ne: "active \<noteq> []" and dis: "distinct active"
    using j ok by (auto simp: index_ok_def)
  have l: "unat l < length ws" "active ! (length active - 1) = l"
    using ok ne by (auto simp: index_ok_def l_def last_conv_nth)
  have "unat ((butlast active)[j := l] ! k) < length ws \<and>
      active_index (ws[unat l := (ws ! unat l)\<lparr>active_index := j\<rparr>] ! unat ((butlast active)[j := l] ! k)) = k"
    if k: "k < length active - 1" for k
  proof (cases "k = j")
    case True
    then show ?thesis using k l by simp
  next
    case False
    have "active ! k \<noteq> l"
      using dis k l(2) nth_eq_iff_index_eq[of active k "length active - 1"] by auto
    then have "unat (active ! k) \<noteq> unat l" by (simp add: word_unat_eq_iff)
    moreover have "unat (active ! k) < length ws" "active_index (ws ! unat (active ! k)) = k"
      using ok k by (simp_all add: index_ok_def)
    ultimately show ?thesis using False k by (simp add: nth_butlast)
  qed
  then show ?thesis
    using swap_remove_set(1)[OF dis j] by (simp add: index_ok_def l_def)
qed

text \<open>
  \<^verbatim>\<open>mark_inactive\<close> never leaves the bounds of its vectors: it may take an id off
  \<^verbatim>\<open>active_workers_\<close> and changes nothing of the workers but their \<^verbatim>\<open>active_index_\<close>.
\<close>

definition same_workers :: "WorkerState list \<Rightarrow> WorkerState list \<Rightarrow> bool" where
  "same_workers ws ws' \<longleftrightarrow> length ws' = length ws \<and>
     (\<forall>k<length ws. \<exists>j. ws' ! k = (ws ! k)\<lparr>active_index := j\<rparr>)"

lemma same_workersD:
  assumes "same_workers ws ws'" and "k < length ws"
  shows "alive (ws' ! k) = alive (ws ! k)" "running_tasks (ws' ! k) = running_tasks (ws ! k)"
    "last_heartbeat_ns (ws' ! k) = last_heartbeat_ns (ws ! k)"
proof -
  obtain j where "ws' ! k = (ws ! k)\<lparr>active_index := j\<rparr>"
    using assms by (auto simp: same_workers_def)
  then show "alive (ws' ! k) = alive (ws ! k)" "running_tasks (ws' ! k) = running_tasks (ws ! k)"
    "last_heartbeat_ns (ws' ! k) = last_heartbeat_ns (ws ! k)" by simp_all
qed

lemma same_workers_refl [simp]: "same_workers ws ws"
proof -
  have "\<exists>j. ws ! k = (ws ! k)\<lparr>active_index := j\<rparr>" for k
    by (rule exI[of _ "active_index (ws ! k)"]) simp
  then show ?thesis by (simp add: same_workers_def)
qed

lemma same_workers_update:
  "same_workers ws (ws[i := (ws ! i)\<lparr>active_index := j\<rparr>])"
proof -
  have "\<exists>l. ws[i := (ws ! i)\<lparr>active_index := j\<rparr>] ! k = (ws ! k)\<lparr>active_index := l\<rparr>"
    if "k < length ws" for k
  proof (cases "k = i")
    case True
    then show ?thesis using that by auto
  next
    case False
    then show ?thesis by (auto intro!: exI[of _ "active_index (ws ! k)"])
  qed
  then show ?thesis by (simp add: same_workers_def)
qed

lemma mark_inactive_safe:
  assumes "pool_safe s" and "unat i < length (workers_states s)"
  shows "\<exists>A W. mark_inactive i s = Some (s\<lparr>active_workers := A, workers_states := W\<rparr>) \<and>
    set A \<subseteq> set (active_workers s) \<and> same_workers (workers_states s) W"
proof (cases "active_index (workers_states s ! unat i) < length (active_workers s)")
  case False
  then have "mark_inactive i s = Some (s\<lparr>active_workers := active_workers s,
      workers_states := workers_states s\<rparr>)"
    using assms by (cases "worker_at s i") (auto simp: mark_inactive_def Let_def worker_at_def vec_at_def)
  then show ?thesis
    by (intro exI[of _ "active_workers s"] exI[of _ "workers_states s"]) simp
next
  case True
  let ?j = "active_index (workers_states s ! unat i)" and ?l = "last (active_workers s)"
  have ne: "active_workers s \<noteq> []" using True by auto
  then have l: "unat ?l < length (workers_states s)" using assms(1) by (auto simp: pool_safe_def)
  have "mark_inactive i s = Some (s\<lparr>active_workers := (butlast (active_workers s))[?j := ?l],
     workers_states := (workers_states s)[unat ?l := (workers_states s ! unat ?l)\<lparr>active_index := ?j\<rparr>]\<rparr>)"
    using True ne l assms(2) swap_butlast[OF True]
    by (simp add: mark_inactive_def worker_at_def vec_at_def Let_def set_worker_def)
  moreover have "set ((butlast (active_workers s))[?j := ?l]) \<subseteq> set (active_workers s)"
    using set_update_subset_insert[of "butlast (active_workers s)" ?j ?l] in_set_butlastD[of _ "active_workers s"]
      last_in_set[OF ne] by blast
  ultimately show ?thesis using same_workers_update by blast
qed

lemma mark_inactive_at:
  assumes ok: "index_ok (active_workers s) (workers_states s)" and i: "unat i < length (workers_states s)"
    and j: "j = active_index (workers_states s ! unat i)" "j < length (active_workers s)"
  shows "\<exists>A W. mark_inactive i s = Some (s\<lparr>active_workers := A, workers_states := W\<rparr>) \<and>
    index_ok A W \<and> set A = set (active_workers s) - {active_workers s ! j} \<and>
    same_workers (workers_states s) W"
proof -
  let ?l = "last (active_workers s)"
  have ne: "active_workers s \<noteq> []" using j by auto
  then have l: "unat ?l < length (workers_states s)" and dis: "distinct (active_workers s)"
    using ok by (auto simp: index_ok_def last_conv_nth)
  have "mark_inactive i s = Some (s\<lparr>active_workers := (butlast (active_workers s))[j := ?l],
     workers_states := (workers_states s)[unat ?l := (workers_states s ! unat ?l)\<lparr>active_index := j\<rparr>]\<rparr>)"
    using ne l i j swap_butlast[OF j(2)]
    by (simp add: mark_inactive_def worker_at_def vec_at_def Let_def set_worker_def)
  then show ?thesis
    using swap_remove_index[OF ok j(2)] swap_remove_set(2)[OF dis j(2)] same_workers_update by blast
qed

lemma mark_inactive_active:
  assumes "index_ok (active_workers s) (workers_states s)" and "i \<in> set (active_workers s)"
  shows "\<exists>A W. mark_inactive i s = Some (s\<lparr>active_workers := A, workers_states := W\<rparr>) \<and>
    index_ok A W \<and> set A = set (active_workers s) - {i} \<and> same_workers (workers_states s) W"
proof -
  obtain j where j: "j < length (active_workers s)" "active_workers s ! j = i"
    using assms(2) by (auto simp: in_set_conv_nth)
  then have "unat i < length (workers_states s)" "j = active_index (workers_states s ! unat i)"
    using assms(1) by (auto simp: index_ok_def)
  from mark_inactive_at[OF assms(1) this j(1)] show ?thesis using j(2) by simp
qed

subsection \<open>Requeueing\<close>

definition requeued :: "u64 uset \<Rightarrow> (u64, Task) umap \<Rightarrow> (u64, Task) umap \<Rightarrow> bool" where
  "requeued ks ts ts' \<longleftrightarrow> umap_ok ts' \<and> (\<forall>k. umap_find ts' k =
     (if k \<in> set ks then map_option (\<lambda>t. t\<lparr>t_state := QUEUED\<rparr>) (umap_find ts k) else umap_find ts k))"

lemma requeued_keys: "requeued ks ts ts' \<Longrightarrow> umap_keys ts' = umap_keys ts"
  by (rule set_eqI) (simp add: requeued_def umap_keys_iff)

lemma requeue_running_eq:
  assumes "set ks \<subseteq> umap_keys (tasks s)" and "unat i < length (workers_states s)"
    and "umap_ok (tasks s)" and "running_tasks (workers_states s ! unat i) = ks"
  shows "\<exists>T. requeue_running ks i s = Some (s\<lparr>tasks := T, queued_backlog := queued_backlog s @ ks,
      workers_states := (workers_states s)[unat i := (workers_states s ! unat i)\<lparr>running_tasks := []\<rparr>]\<rparr>) \<and>
    requeued ks (tasks s) T"
  using assms
proof (induction ks arbitrary: s)
  case Nil
  define w where "w = workers_states s ! unat i"
  have "w\<lparr>running_tasks := []\<rparr> = w"
    using Nil.prems(4) by (simp add: w_def)
  then have "(workers_states s)[unat i := w\<lparr>running_tasks := []\<rparr>] = workers_states s"
    by (simp add: w_def)
  then show ?case
    using Nil.prems(3) by (intro exI[of _ "tasks s"]) (simp add: requeued_def flip: w_def)
next
  case (Cons k ks)
  obtain t where t: "umap_find (tasks s) k = Some t"
    using Cons.prems(1) by (auto simp: umap_keys_iff)
  define s1 where "s1 = s\<lparr>tasks := umap_assign k (t\<lparr>t_state := QUEUED\<rparr>) (tasks s),
    queued_backlog := queued_backlog s @ [k],
    workers_states := (workers_states s)[unat i := (workers_states s ! unat i)\<lparr>running_tasks := ks\<rparr>]\<rparr>"
  have step: "requeue_running (k # ks) i s = requeue_running ks i s1"
    using t Cons.prems(2)
    by (simp add: s1_def set_task_def set_worker_def worker_at_def vec_at_def)
  obtain T where T: "requeue_running ks i s1 = Some (s1\<lparr>tasks := T, queued_backlog := queued_backlog s1 @ ks,
      workers_states := (workers_states s1)[unat i := (workers_states s1 ! unat i)\<lparr>running_tasks := []\<rparr>]\<rparr>)"
    "requeued ks (tasks s1) T"
    using Cons.IH[of s1] Cons.prems by (auto simp: s1_def intro: umap_ok_assign)
  have "requeued (k # ks) (tasks s) T"
    using T(2) t by (auto simp: requeued_def s1_def umap_find_assign split: if_splits)
  then show ?case
    using step T(1) Cons.prems(2) by (intro exI[of _ T]) (simp add: s1_def)
qed

subsection \<open>The timeout check\<close>

definition tick :: "Shared \<Rightarrow> Shared" where
  "tick sh = sh\<lparr>ticks := Suc (ticks sh)\<rparr>"

lemma now_ns_eq: "now_ns_u64 env s = (now_at env (ticks (shared s)), s\<lparr>shared := tick (shared s)\<rparr>)"
  by (simp add: now_ns_u64_def tick_def)

lemma pool_frame [simp]:
  "pool_safe (s\<lparr>shared := sh\<rparr>) = pool_safe s" "pool_inv (s\<lparr>shared := sh\<rparr>) = pool_inv s"
  "tasks_inv (s\<lparr>shared := sh\<rparr>) = tasks_inv s"
  by (simp_all add: pool_safe_def pool_inv_def tasks_inv_def)

lemma tick_simps [simp]:
  "control_queue (tick sh) = control_queue sh" "task_queue (tick sh) = task_queue sh"
  "outgoing_queue (tick sh) = outgoing_queue sh" "delivered (tick sh) = delivered sh"
  "shared_inv (tick sh) = shared_inv sh"
  by (simp_all add: tick_def shared_inv_def)

text \<open>The state after \<^verbatim>\<open>is_alive\<close> has found worker \<open>i\<close> timed out.\<close>

definition timed_out :: "u32 \<Rightarrow> u32 list \<Rightarrow> WorkerState list \<Rightarrow> (u64, Task) umap \<Rightarrow> Coordinator \<Rightarrow> Coordinator" where
  "timed_out i A W T s = s\<lparr>tasks := T,
     queued_backlog := queued_backlog s @ running_tasks (workers_states s ! unat i),
     workers_states := W[unat i := (mark_dead (W ! unat i))\<lparr>running_tasks := []\<rparr>],
     active_workers := A, available_ids := available_ids s @ [i], shared := tick (shared s)\<rparr>"

lemma is_alive_quiet:
  assumes "unat i < length (workers_states s)"
  shows "\<not> alive (workers_states s ! unat i) \<Longrightarrow> is_alive env i s = Some (False, s)"
    and "alive (workers_states s ! unat i) \<Longrightarrow>
      now_at env (ticks (shared s)) - last_heartbeat_ns (workers_states s ! unat i) \<le> HEARTBEAT_TIMEOUT_NS \<Longrightarrow>
      is_alive env i s = Some (True, s\<lparr>shared := tick (shared s)\<rparr>)"
  using assms by (simp_all add: is_alive_def now_ns_eq worker_at_def vec_at_def)

lemma is_alive_timeout:
  assumes inv: "tasks_inv s" and i: "unat i < length (workers_states s)"
    and al: "alive (workers_states s ! unat i)"
    and late: "\<not> now_at env (ticks (shared s)) - last_heartbeat_ns (workers_states s ! unat i) \<le> HEARTBEAT_TIMEOUT_NS"
    and mark: "mark_inactive i (s\<lparr>shared := tick (shared s)\<rparr>) =
      Some (s\<lparr>shared := tick (shared s), active_workers := A, workers_states := W\<rparr>)"
    and same: "same_workers (workers_states s) W"
  shows "\<exists>T. is_alive env i s = Some (False, timed_out i A W T s) \<and>
    requeued (running_tasks (workers_states s ! unat i)) (tasks s) T"
proof -
  let ?ks = "running_tasks (workers_states s ! unat i)"
  define s2 where "s2 = s\<lparr>active_workers := A, available_ids := available_ids s @ [i],
    workers_states := W[unat i := mark_dead (W ! unat i)], shared := tick (shared s)\<rparr>"
  have len: "unat i < length W" and run: "running_tasks (W ! unat i) = ?ks"
    using same i same_workersD(2)[OF same i] by (simp_all add: same_workers_def)
  have w: "worker_ok (tasks s) (workers_states s ! unat i)" and ok: "umap_ok (tasks s)"
    using inv i by (simp_all add: tasks_inv_def)
  have "is_alive env i s = Option.bind (requeue_running ?ks i s2) (\<lambda>s. Some (False, s))"
    using al late i len mark run
    by (simp add: is_alive_def now_ns_eq worker_at_def vec_at_def set_worker_def s2_def)
  moreover obtain T where "requeue_running ?ks i s2 = Some (s2\<lparr>tasks := T,
      queued_backlog := queued_backlog s2 @ ?ks,
      workers_states := (workers_states s2)[unat i := (workers_states s2 ! unat i)\<lparr>running_tasks := []\<rparr>]\<rparr>)"
    "requeued ?ks (tasks s2) T"
    using requeue_running_eq[of ?ks s2 i] len w ok run
    by (auto simp: s2_def worker_ok_def mark_dead_def)
  ultimately show ?thesis
    using len by (intro exI[of _ T]) (simp add: s2_def timed_out_def mark_dead_def)
qed

lemma worker_ok_keys: "umap_keys ts \<subseteq> umap_keys ts' \<Longrightarrow> worker_ok ts w \<Longrightarrow> worker_ok ts' w"
  by (auto simp: worker_ok_def)

lemma timed_out_tasks_inv:
  assumes inv: "tasks_inv s" and i: "unat i < length (workers_states s)"
    and same: "same_workers (workers_states s) W"
    and req: "requeued (running_tasks (workers_states s ! unat i)) (tasks s) T"
  shows "tasks_inv (timed_out i A W T s)"
proof -
  have keys: "umap_keys T = umap_keys (tasks s)" by (rule requeued_keys[OF req])
  have ok: "umap_ok T" using req by (simp add: requeued_def)
  have ids: "t_id t = k" if "umap_find T k = Some t" for k t
    using that req inv by (auto simp: requeued_def tasks_inv_def split: if_splits)
  have "worker_ok T (W[unat i := (mark_dead (W ! unat i))\<lparr>running_tasks := []\<rparr>] ! k)"
    if "k < length W" for k
  proof (cases "k = unat i")
    case True
    then show ?thesis using that by (simp add: worker_ok_def)
  next
    case False
    have "k < length (workers_states s)" using that same by (simp add: same_workers_def)
    then have "worker_ok (tasks s) (workers_states s ! k)"
      "running_tasks (W ! k) = running_tasks (workers_states s ! k)"
      using inv same_workersD(2)[OF same] by (simp_all add: tasks_inv_def)
    then show ?thesis using False keys by (simp add: worker_ok_def)
  qed
  then have "\<forall>w\<in>set (W[unat i := (mark_dead (W ! unat i))\<lparr>running_tasks := []\<rparr>]). worker_ok T w"
    by (simp only: all_set_conv_all_nth length_list_update) blast
  moreover have "set (running_tasks (workers_states s ! unat i)) \<subseteq> umap_keys (tasks s)"
    using inv i by (simp add: tasks_inv_def worker_ok_def)
  ultimately show ?thesis
    using ids keys ok inv by (simp add: timed_out_def tasks_inv_def)
qed

text \<open>Whatever the pool looks like, the check never faults and keeps the bounds.\<close>

definition same_core :: "Coordinator \<Rightarrow> Coordinator \<Rightarrow> bool" where
  "same_core s s' \<longleftrightarrow> last_sweep s' = last_sweep s \<and> current_epoch s' = current_epoch s \<and>
     rr_index s' = rr_index s \<and> replication_read_ptr s' = replication_read_ptr s \<and>
     replication_write_ptr s' = replication_write_ptr s \<and> replication_log s' = replication_log s \<and>
     is_primary s' = is_primary s \<and> client_fds s' = client_fds s \<and>
     early_complete_reps s' = early_complete_reps s \<and> completed_backlog s' = completed_backlog s \<and>
     metrics s' = metrics s"

definition same_rest :: "Coordinator \<Rightarrow> Coordinator \<Rightarrow> bool" where
  "same_rest s s' \<longleftrightarrow> same_core s s' \<and> (\<exists>t. shared s' = (shared s)\<lparr>ticks := t\<rparr>)"

lemma tick_form [simp]: "\<exists>t. tick sh = sh\<lparr>ticks := t\<rparr>"
  by (auto simp: tick_def)

lemma same_rest_refl [simp]: "same_rest s s"
  by (auto simp: same_rest_def same_core_def intro!: exI[of _ "ticks (shared s)"])

lemma same_rest_tick [simp]: "same_rest s (s\<lparr>shared := tick (shared s)\<rparr>)"
  by (auto simp: same_rest_def same_core_def tick_def)

lemma same_rest_timed_out [simp]: "same_rest s (timed_out i A W T s)"
  by (auto simp: same_rest_def same_core_def timed_out_def tick_def)

lemma same_rest_trans:
  assumes "same_rest a b" and "same_rest b c"
  shows "same_rest a c"
proof -
  obtain t u where "shared b = (shared a)\<lparr>ticks := t\<rparr>" "shared c = (shared b)\<lparr>ticks := u\<rparr>"
    using assms by (auto simp: same_rest_def)
  then have "shared c = (shared a)\<lparr>ticks := u\<rparr>" by simp
  then show ?thesis using assms by (auto simp: same_rest_def same_core_def)
qed

lemma is_alive_safe:
  assumes inv: "tasks_inv s" "pool_safe s" and i: "unat i < length (workers_states s)"
  shows "\<exists>b s'. is_alive env i s = Some (b, s') \<and> tasks_inv s' \<and> pool_safe s' \<and>
    length (workers_states s') = length (workers_states s) \<and> same_rest s s' \<and>
    umap_keys (tasks s') = umap_keys (tasks s)"
proof (cases "alive (workers_states s ! unat i)")
  case False
  then show ?thesis
    using is_alive_quiet(1)[OF i] inv by (intro exI[of _ False] exI[of _ s]) simp
next
  case al: True
  show ?thesis
  proof (cases "now_at env (ticks (shared s)) - last_heartbeat_ns (workers_states s ! unat i) \<le> HEARTBEAT_TIMEOUT_NS")
    case True
    then show ?thesis
      using is_alive_quiet(2)[OF i al] inv
      by (intro exI[of _ True] exI[of _ "s\<lparr>shared := tick (shared s)\<rparr>"]) simp
  next
    case late: False
    obtain A W where AW: "mark_inactive i (s\<lparr>shared := tick (shared s)\<rparr>) =
        Some (s\<lparr>shared := tick (shared s), active_workers := A, workers_states := W\<rparr>)"
      "set A \<subseteq> set (active_workers s)" "same_workers (workers_states s) W"
      using mark_inactive_safe[of "s\<lparr>shared := tick (shared s)\<rparr>" i] inv i by auto
    obtain T where T: "is_alive env i s = Some (False, timed_out i A W T s)"
      "requeued (running_tasks (workers_states s ! unat i)) (tasks s) T"
      using is_alive_timeout[OF inv(1) i al late AW(1,3)] by blast
    have "pool_safe (timed_out i A W T s)"
      using inv(2) AW(2,3) i by (auto simp: pool_safe_def timed_out_def same_workers_def)
    moreover have "tasks_inv (timed_out i A W T s)"
      by (rule timed_out_tasks_inv[OF inv(1) i AW(3) T(2)])
    moreover have "length (workers_states (timed_out i A W T s)) = length (workers_states s)"
      "umap_keys (tasks (timed_out i A W T s)) = umap_keys (tasks s)"
      using AW(3) requeued_keys[OF T(2)] by (simp_all add: timed_out_def same_workers_def)
    ultimately show ?thesis using T(1) same_rest_timed_out by blast
  qed
qed

text \<open>In a consistent pool the check removes exactly the worker that timed out.\<close>

lemma timed_out_pool_inv:
  assumes inv: "pool_inv s" and i: "unat i < length (workers_states s)"
    and al: "alive (workers_states s ! unat i)"
    and A: "index_ok A W" "set A = set (active_workers s) - {i}"
    and same: "same_workers (workers_states s) W"
  shows "pool_inv (timed_out i A W T s)"
proof -
  let ?W = "W[unat i := (mark_dead (W ! unat i))\<lparr>running_tasks := []\<rparr>]"
  have len: "length W = length (workers_states s)" using same by (simp add: same_workers_def)
  have i_avail: "i \<notin> set (available_ids s)" using inv i al by (auto simp: pool_inv_def)
  have "index_ok A ?W"
    using A i len by (auto simp: index_ok_def nth_list_update mark_dead_def)
  moreover have "(k \<in> set A \<longleftrightarrow> alive (?W ! unat k)) \<and>
      (k \<in> set (available_ids s @ [i]) \<longleftrightarrow> \<not> alive (?W ! unat k)) \<and>
      (\<not> alive (?W ! unat k) \<longrightarrow> running_tasks (?W ! unat k) = [])"
    if k: "unat k < length (workers_states s)" for k
  proof (cases "k = i")
    case True
    then show ?thesis using A(2) i len by (simp add: mark_dead_def)
  next
    case False
    then have "unat k \<noteq> unat i" by (simp add: word_unat_eq_iff)
    then have "alive (?W ! unat k) = alive (workers_states s ! unat k)"
      "running_tasks (?W ! unat k) = running_tasks (workers_states s ! unat k)"
      using same_workersD(1,2)[OF same k] by simp_all
    then show ?thesis using False A(2) inv k by (auto simp: pool_inv_def)
  qed
  ultimately show ?thesis
    using inv i i_avail len by (simp add: pool_inv_def timed_out_def)
qed

lemma is_alive_pool:
  assumes inv: "tasks_inv s" "pool_inv s" and i: "unat i < length (workers_states s)"
    and al: "alive (workers_states s ! unat i)"
    and late: "\<not> now_at env (ticks (shared s)) - last_heartbeat_ns (workers_states s ! unat i) \<le> HEARTBEAT_TIMEOUT_NS"
  shows "\<exists>A W T. is_alive env i s = Some (False, timed_out i A W T s) \<and>
    set A = set (active_workers s) - {i} \<and> same_workers (workers_states s) W \<and>
    requeued (running_tasks (workers_states s ! unat i)) (tasks s) T \<and>
    pool_inv (timed_out i A W T s) \<and> tasks_inv (timed_out i A W T s)"
proof -
  have "index_ok (active_workers s) (workers_states s)" "i \<in> set (active_workers s)"
    using inv(2) i al by (auto simp: pool_inv_def)
  then obtain A W where AW: "mark_inactive i (s\<lparr>shared := tick (shared s)\<rparr>) =
      Some (s\<lparr>shared := tick (shared s), active_workers := A, workers_states := W\<rparr>)"
    "index_ok A W" "set A = set (active_workers s) - {i}" "same_workers (workers_states s) W"
    using mark_inactive_active[of "s\<lparr>shared := tick (shared s)\<rparr>" i] by auto
  obtain T where T: "is_alive env i s = Some (False, timed_out i A W T s)"
    "requeued (running_tasks (workers_states s ! unat i)) (tasks s) T"
    using is_alive_timeout[OF inv(1) i al late AW(1,4)] by blast
  show ?thesis
    using AW T timed_out_pool_inv[OF inv(2) i al AW(2-4)] timed_out_tasks_inv[OF inv(1) i AW(4) T(2)]
    by blast
qed

lemma is_alive_pool_inv:
  assumes "tasks_inv s" "pool_inv s" and "unat i < length (workers_states s)"
    and "is_alive env i s = Some (b, s')"
  shows "pool_inv s'"
proof (cases "alive (workers_states s ! unat i) \<and>
    \<not> now_at env (ticks (shared s)) - last_heartbeat_ns (workers_states s ! unat i) \<le> HEARTBEAT_TIMEOUT_NS")
  case True
  then show ?thesis using is_alive_pool[OF assms(1-3), of env] assms(4) by auto
next
  case False
  then have "is_alive env i s = Some (False, s) \<or> is_alive env i s = Some (True, s\<lparr>shared := tick (shared s)\<rparr>)"
    using is_alive_quiet[OF assms(3), of env] by blast
  then have "s' = s \<or> s' = s\<lparr>shared := tick (shared s)\<rparr>"
    unfolding assms(4) option.inject prod.inject by blast
  then show ?thesis
    using assms(2) pool_frame(2) by (elim disjE) (simp_all only:)
qed

subsection \<open>The sweep\<close>

lemma is_alive_SomeD:
  assumes "tasks_inv s" "pool_safe s" "unat i < length (workers_states s)"
    and "is_alive env i s = Some (b, s')"
  shows "tasks_inv s'" "pool_safe s'" "length (workers_states s') = length (workers_states s)"
    "same_rest s s'" "umap_keys (tasks s') = umap_keys (tasks s)"
  using is_alive_safe[OF assms(1-3), of env] assms(4) by auto

lemma sweep_loop_safe:
  assumes "tasks_inv s" "pool_safe s" and "\<forall>i\<in>set ids. unat i < length (workers_states s)"
  shows "\<exists>s'. sweep_loop env ids s = Some s' \<and> tasks_inv s' \<and> pool_safe s' \<and>
    length (workers_states s') = length (workers_states s) \<and> same_rest s s' \<and>
    umap_keys (tasks s') = umap_keys (tasks s) \<and> (pool_inv s \<longrightarrow> pool_inv s')"
  using assms
proof (induction ids arbitrary: s)
  case (Cons i ids)
  have i: "unat i < length (workers_states s)" using Cons.prems(3) by simp
  obtain b s1 where s1: "is_alive env i s = Some (b, s1)"
    using is_alive_safe[OF Cons.prems(1,2) i, of env] by blast
  note d = is_alive_SomeD[OF Cons.prems(1,2) i s1]
  have p: "pool_inv s \<longrightarrow> pool_inv s1"
    using is_alive_pool_inv[OF Cons.prems(1) _ i s1] by blast
  obtain s' where "sweep_loop env ids s1 = Some s' \<and> tasks_inv s' \<and> pool_safe s' \<and>
    length (workers_states s') = length (workers_states s1) \<and> same_rest s1 s' \<and>
    umap_keys (tasks s') = umap_keys (tasks s1) \<and> (pool_inv s1 \<longrightarrow> pool_inv s')"
    using Cons.IH[of s1] d Cons.prems(3) by auto
  then show ?case
    using s1 d p same_rest_trans[of s s1 s'] by (intro exI[of _ s']) simp
qed simp

lemma sweep_ids:
  assumes "length (workers_states s) < 2 ^ 32"
  shows "\<forall>i\<in>set (map of_nat [0..<unat (of_nat (length (workers_states s)) :: u32)]).
      unat (i :: u32) < length (workers_states s)"
    and "set (map of_nat [0..<unat (of_nat (length (workers_states s)) :: u32)]) =
      {i :: u32. unat i < length (workers_states s)}"
    and "distinct (map (of_nat :: nat \<Rightarrow> u32) [0..<unat (of_nat (length (workers_states s)) :: u32)])"
proof -
  let ?n = "length (workers_states s)"
  have n: "unat (of_nat ?n :: u32) = ?n" and small: "\<And>k. k < ?n \<Longrightarrow> unat (of_nat k :: u32) = k"
    using assms by (simp_all add: unat_of_nat)
  show "set (map of_nat [0..<unat (of_nat ?n :: u32)]) = {i :: u32. unat i < ?n}"
  proof (intro set_eqI iffI)
    show "i \<in> set (map of_nat [0..<unat (of_nat ?n :: u32)])" if "i \<in> {i :: u32. unat i < ?n}" for i
      using that n by (auto intro!: image_eqI[of _ _ "unat i"])
  qed (auto simp: n small)
  then show "\<forall>i\<in>set (map of_nat [0..<unat (of_nat ?n :: u32)]). unat (i :: u32) < ?n" by blast
  have "inj_on (of_nat :: nat \<Rightarrow> u32) (set [0..<?n])"
    by (rule inj_on_inverseI[of _ unat]) (simp add: small)
  then show "distinct (map (of_nat :: nat \<Rightarrow> u32) [0..<unat (of_nat ?n :: u32)])"
    by (simp add: n distinct_map)
qed

lemma sweep_workers_safe:
  assumes "tasks_inv s" "pool_safe s"
  shows "\<exists>s'. sweep_workers env s = Some s' \<and> tasks_inv s' \<and> pool_safe s' \<and>
    length (workers_states s') = length (workers_states s) \<and> same_rest s s' \<and>
    umap_keys (tasks s') = umap_keys (tasks s) \<and> (pool_inv s \<longrightarrow> pool_inv s')"
  unfolding sweep_workers_def Let_def
  using assms sweep_ids(1)[of s] by (intro sweep_loop_safe) (simp_all add: pool_safe_def)

subsection \<open>Heartbeats and registration\<close>

lemma heartbeat_eq:
  assumes "unat (hb_worker_id (heartbeat (ie_msg ev))) < length (workers_states s)"
  shows "process_heartbeat_event env ev s = Some (s\<lparr>workers_states := (workers_states s)
      [unat (hb_worker_id (heartbeat (ie_msg ev))) :=
        (workers_states s ! unat (hb_worker_id (heartbeat (ie_msg ev))))
          \<lparr>last_heartbeat_ns := now_at env (ticks (shared s)), alive := True\<rparr>], shared := tick (shared s)\<rparr>)"
  using assms
  by (simp add: process_heartbeat_event_def worker_at_def vec_at_def now_ns_eq set_worker_def Let_def)

text \<open>
  Changing a worker's heartbeat, liveness, descriptor or place keeps the bounds and what the
  tasks promise.
\<close>

lemma tasks_inv_update_worker:
  assumes "tasks_inv s" and "i < length (workers_states s)"
    and "running_tasks w = running_tasks (workers_states s ! i)"
  shows "tasks_inv (s\<lparr>workers_states := (workers_states s)[i := w]\<rparr>)"
proof -
  have "worker_ok (tasks s) w"
    using assms by (auto simp: tasks_inv_def worker_ok_def)
  then show ?thesis
    using assms(1) by (auto simp: tasks_inv_def dest!: set_update_subset_insert[THEN subsetD])
qed

lemma pool_safe_update_worker [simp]:
  "pool_safe (s\<lparr>workers_states := (workers_states s)[i := w]\<rparr>) = pool_safe s"
  by (simp add: pool_safe_def)

lemma heartbeat_safe:
  assumes "tasks_inv s" "pool_safe s"
    and "unat (hb_worker_id (heartbeat (ie_msg ev))) < length (workers_states s)"
  shows "\<exists>s'. process_heartbeat_event env ev s = Some s' \<and> tasks_inv s' \<and> pool_safe s' \<and>
    length (workers_states s') = length (workers_states s) \<and> same_rest s s' \<and> tasks s' = tasks s"
  using assms
  by (simp add: heartbeat_eq tasks_inv_update_worker same_rest_def same_core_def)

lemma heartbeat_pool_inv:
  assumes inv: "pool_inv s" and i: "unat (hb_worker_id (heartbeat (ie_msg ev))) < length (workers_states s)"
    and al: "alive (workers_states s ! unat (hb_worker_id (heartbeat (ie_msg ev))))"
    and "process_heartbeat_event env ev s = Some s'"
  shows "pool_inv s'"
proof -
  define j where "j = unat (hb_worker_id (heartbeat (ie_msg ev)))"
  define w where "w = (workers_states s ! j)\<lparr>last_heartbeat_ns := now_at env (ticks (shared s)), alive := True\<rparr>"
  have "alive ((workers_states s)[j := w] ! k) = alive (workers_states s ! k)"
    "running_tasks ((workers_states s)[j := w] ! k) = running_tasks (workers_states s ! k)"
    "active_index ((workers_states s)[j := w] ! k) = active_index (workers_states s ! k)" for k
    using i al by (cases "k = j"; simp add: w_def j_def)+
  then show ?thesis
    using assms(4) inv heartbeat_eq[OF i, of env]
    by (auto simp: pool_inv_def index_ok_def simp flip: j_def w_def)
qed

definition reg_id :: "Coordinator \<Rightarrow> u32" where
  "reg_id s = (if available_ids s \<noteq> [] then last (available_ids s) else of_nat (length (workers_states s)))"

definition ack_event :: "IncomingEvent \<Rightarrow> u32 \<Rightarrow> OutgoingEvent" where
  "ack_event ev i = \<lparr>oe_fd = ie_fd ev, oe_msg = (Message_new ACKNOWLEDGE)\<lparr>acknowledge := \<lparr>ack_worker_id = i\<rparr>\<rparr>\<rparr>"

definition slots :: "Coordinator \<Rightarrow> WorkerState list" where
  "slots s = (if available_ids s \<noteq> [] then workers_states s else workers_states s @ [WorkerState_new 0 0])"

lemma reg_id_slot:
  assumes "pool_safe s" and "available_ids s = [] \<longrightarrow> Suc (length (workers_states s)) < 2 ^ 32"
  shows "unat (reg_id s) < length (slots s)"
    and "available_ids s = [] \<Longrightarrow> unat (reg_id s) = length (workers_states s)"
proof -
  show new: "unat (reg_id s) = length (workers_states s)" if "available_ids s = []"
    using that assms(2) by (simp add: reg_id_def unat_of_nat)
  show "unat (reg_id s) < length (slots s)"
    using new assms(1) by (cases "available_ids s = []") (auto simp: slots_def reg_id_def pool_safe_def)
qed

lemma register_eq:
  assumes sh: "shared_inv (shared s)" and safe: "pool_safe s"
    and room: "available_ids s = [] \<longrightarrow> Suc (length (workers_states s)) < 2 ^ 32"
    and push: "try_push_outgoing env (ack_event ev (reg_id s)) s = (ok, s1)"
  shows "\<not> ok \<Longrightarrow> process_register_event env ev s = Some s1"
    and "ok \<Longrightarrow> \<exists>now sh'. process_register_event env ev s = Some (s\<lparr>
        workers_states := (slots s)[unat (reg_id s) := (slots s ! unat (reg_id s))
          \<lparr>alive := True, last_heartbeat_ns := now, ws_fd := ie_fd ev, active_index := length (active_workers s)\<rparr>],
        active_workers := active_workers s @ [reg_id s], available_ids := butlast (available_ids s),
        shared := sh'\<rparr>) \<and> shared_inv sh' \<and>
      out_stream (s\<lparr>shared := sh'\<rparr>) = out_stream s @ [ack_event ev (reg_id s)]"
proof -
  obtain sh1 where s1: "s1 = s\<lparr>shared := sh1\<rparr>" "shared_inv sh1"
    "out_stream s1 = out_stream s @ (if ok then [ack_event ev (reg_id s)] else [])"
    using try_push_outgoing_eq[OF sh push] by blast
  have id: "(if available_ids s \<noteq> [] then last (available_ids s) else of_nat (length (workers_states s))) = reg_id s"
    by (simp add: reg_id_def)
  define i where "i = reg_id s"
  have base: "process_register_event env ev s = (if \<not> ok then Some s1 else do {
      s \<leftarrow> register_slot env (ie_fd ev) i s1;
      w \<leftarrow> worker_at s i;
      let s = set_worker i (w\<lparr>active_index := length (active_workers s)\<rparr>) s;
      Some (s\<lparr>active_workers := active_workers s @ [i]\<rparr>)
    })"
    unfolding process_register_event_def Let_def id push[unfolded ack_event_def] i_def by simp
  show "process_register_event env ev s = Some s1" if "\<not> ok"
    using that base by simp
  show "\<exists>now sh'. process_register_event env ev s = Some (s\<lparr>
        workers_states := (slots s)[unat (reg_id s) := (slots s ! unat (reg_id s))
          \<lparr>alive := True, last_heartbeat_ns := now, ws_fd := ie_fd ev, active_index := length (active_workers s)\<rparr>],
        active_workers := active_workers s @ [reg_id s], available_ids := butlast (available_ids s),
        shared := sh'\<rparr>) \<and> shared_inv sh' \<and>
      out_stream (s\<lparr>shared := sh'\<rparr>) = out_stream s @ [ack_event ev (reg_id s)]" if ok
  proof (cases "available_ids s = []")
    case False
    then have i: "unat i < length (workers_states s)"
      using reg_id_slot(1)[OF safe room] by (simp add: slots_def i_def)
    show ?thesis
      unfolding i_def[symmetric] using base False i that s1
      by (intro exI[of _ "now_at env (ticks sh1)"] exI[of _ "tick (shared s1)"])
        (simp add: register_slot_def worker_at_def vec_at_def now_ns_eq set_worker_def slots_def
          out_stream_def i_def)
  next
    case True
    then have i: "unat i = length (workers_states s)"
      using reg_id_slot(2)[OF safe room] by (simp add: i_def)
    show ?thesis
      unfolding i_def[symmetric] using base True i that s1
      by (intro exI[of _ "now_at env (Suc (ticks sh1))"] exI[of _ "sh1\<lparr>ticks := Suc (Suc (ticks sh1))\<rparr>"])
        (simp add: register_slot_def worker_at_def vec_at_def now_ns_eq set_worker_def slots_def
          out_stream_def tick_def shared_inv_def WorkerState_new_def i_def)
  qed
qed

lemma slots_worker_ok:
  assumes "tasks_inv s" and "k < length (slots s)"
  shows "worker_ok (tasks s) (slots s ! k)"
  using assms
  by (auto simp: slots_def tasks_inv_def worker_ok_def WorkerState_new_def nth_append
      split: if_splits)

lemma register_safe:
  assumes inv: "tasks_inv s" "pool_safe s" "shared_inv (shared s)"
    and room: "available_ids s = [] \<longrightarrow> Suc (length (workers_states s)) < 2 ^ 32"
  shows "\<exists>s'. process_register_event env ev s = Some s' \<and> tasks_inv s' \<and> pool_safe s' \<and>
    shared_inv (shared s') \<and> same_core s s' \<and> tasks s' = tasks s \<and>
    length (workers_states s) \<le> length (workers_states s')"
proof -
  obtain ok s1 where push: "try_push_outgoing env (ack_event ev (reg_id s)) s = (ok, s1)" by fastforce
  obtain sh1 where s1: "s1 = s\<lparr>shared := sh1\<rparr>" "shared_inv sh1"
    using try_push_outgoing_eq[OF inv(3) push] by blast
  show ?thesis
  proof (cases ok)
    case False
    then show ?thesis
      using register_eq(1)[OF inv(3,2) room push] s1 inv by (simp add: same_core_def)
  next
    case True
    obtain now sh' where reg: "process_register_event env ev s = Some (s\<lparr>
        workers_states := (slots s)[unat (reg_id s) := (slots s ! unat (reg_id s))
          \<lparr>alive := True, last_heartbeat_ns := now, ws_fd := ie_fd ev, active_index := length (active_workers s)\<rparr>],
        active_workers := active_workers s @ [reg_id s], available_ids := butlast (available_ids s),
        shared := sh'\<rparr>)" "shared_inv sh'"
      using register_eq(2)[OF inv(3,2) room push True] by blast
    note i = reg_id_slot(1)[OF inv(2) room]
    have len: "length (slots s) < 2 ^ 32" "length (workers_states s) \<le> length (slots s)"
      using inv(2) room by (auto simp: slots_def pool_safe_def)
    define w where "w = (slots s ! unat (reg_id s))\<lparr>alive := True, last_heartbeat_ns := now,
      ws_fd := ie_fd ev, active_index := length (active_workers s)\<rparr>"
    have "worker_ok (tasks s) w"
      using slots_worker_ok[OF inv(1) i] by (simp add: w_def worker_ok_def)
    then have "worker_ok (tasks s) ((slots s)[unat (reg_id s) := w] ! k)" if "k < length (slots s)" for k
      using slots_worker_ok[OF inv(1) that] that by (cases "k = unat (reg_id s)") simp_all
    then have "\<forall>w\<in>set ((slots s)[unat (reg_id s) := w]). worker_ok (tasks s) w"
      by (simp only: all_set_conv_all_nth length_list_update) blast
    moreover have "\<forall>k\<in>set (butlast (available_ids s)). unat k < length (slots s)"
      using inv(2) by (auto simp: pool_safe_def slots_def dest!: in_set_butlastD)
    ultimately show ?thesis
      using reg inv i len by (auto simp: tasks_inv_def pool_safe_def same_core_def w_def)
  qed
qed

lemma register_pool_inv:
  assumes inv: "pool_inv s" "shared_inv (shared s)"
    and room: "available_ids s = [] \<longrightarrow> Suc (length (workers_states s)) < 2 ^ 32"
    and push: "try_push_outgoing env (ack_event ev (reg_id s)) s = (True, s1)"
    and reg: "process_register_event env ev s = Some s'"
  shows "pool_inv s'"
proof -
  note safe = pool_inv_safe[OF inv(1)]
  note i = reg_id_slot[OF safe room]
  obtain now sh' where s': "s' = s\<lparr>
      workers_states := (slots s)[unat (reg_id s) := (slots s ! unat (reg_id s))
        \<lparr>alive := True, last_heartbeat_ns := now, ws_fd := ie_fd ev, active_index := length (active_workers s)\<rparr>],
      active_workers := active_workers s @ [reg_id s], available_ids := butlast (available_ids s),
      shared := sh'\<rparr>"
    using register_eq(2)[OF inv(2) safe room push] reg by auto
  define w where "w = (slots s ! unat (reg_id s))\<lparr>alive := True, last_heartbeat_ns := now,
    ws_fd := ie_fd ev, active_index := length (active_workers s)\<rparr>"
  let ?W = "(slots s)[unat (reg_id s) := w]"
  have len: "length (slots s) < 2 ^ 32" using safe room by (auto simp: slots_def pool_safe_def)
  have fresh: "reg_id s \<notin> set (active_workers s)"
  proof (cases "available_ids s = []")
    case True
    then show ?thesis using i(2) safe by (auto simp: pool_safe_def)
  next
    case False
    then have "reg_id s \<in> set (available_ids s)" by (simp add: reg_id_def)
    then show ?thesis using inv(1) by (auto simp: pool_inv_def)
  qed
  have other: "?W ! unat k = workers_states s ! unat k \<and> unat k < length (workers_states s)"
    if "unat k < length (slots s)" "k \<noteq> reg_id s" for k
  proof -
    have ne: "unat k \<noteq> unat (reg_id s)" using that(2) by (simp add: word_unat_eq_iff)
    then have "unat k < length (workers_states s)"
      using that(1) i(2) by (cases "available_ids s = []") (auto simp: slots_def)
    then show ?thesis using ne by (auto simp: slots_def nth_append)
  qed
  have avail: "set (butlast (available_ids s)) = set (available_ids s) - {reg_id s}"
  proof (cases "available_ids s = []")
    case False
    then show ?thesis
      using set_butlast_distinct(1)[of "available_ids s"] inv(1) by (simp add: reg_id_def pool_inv_def)
  qed simp
  have "index_ok (active_workers s @ [reg_id s]) ?W"
  proof -
    have "unat ((active_workers s @ [reg_id s]) ! j) < length ?W \<and>
        active_index (?W ! unat ((active_workers s @ [reg_id s]) ! j)) = j"
      if "j < Suc (length (active_workers s))" for j
    proof (cases "j = length (active_workers s)")
      case True
      then show ?thesis using i(1) by (simp add: w_def)
    next
      case False
      with that have j: "j < length (active_workers s)" by simp
      then have "active_workers s ! j \<noteq> reg_id s" using fresh nth_mem by metis
      moreover have a: "unat (active_workers s ! j) < length (workers_states s)"
        "active_index (workers_states s ! unat (active_workers s ! j)) = j"
        using inv(1) j by (simp_all add: pool_inv_def index_ok_def)
      ultimately show ?thesis
        using j other[of "active_workers s ! j"] by (auto simp: nth_append slots_def)
    qed
    then show ?thesis using fresh inv(1) by (simp add: index_ok_def pool_inv_def)
  qed
  moreover have "(k \<in> set (active_workers s @ [reg_id s]) \<longleftrightarrow> alive (?W ! unat k)) \<and>
      (k \<in> set (butlast (available_ids s)) \<longleftrightarrow> \<not> alive (?W ! unat k)) \<and>
      (\<not> alive (?W ! unat k) \<longrightarrow> running_tasks (?W ! unat k) = [])"
    if k: "unat k < length (slots s)" for k
  proof (cases "k = reg_id s")
    case True
    then show ?thesis using avail i(1) by (simp add: w_def)
  next
    case False
    then show ?thesis using other[OF k False] avail inv(1) by (auto simp: pool_inv_def)
  qed
  moreover have "\<forall>k\<in>set (butlast (available_ids s)). unat k < length (slots s)"
    using inv(1) by (auto simp: pool_inv_def slots_def dest!: in_set_butlastD)
  ultimately show ?thesis
    using s' len inv(1) by (simp add: pool_inv_def w_def distinct_butlast)
qed

end
