(* ===== verification/Replication_Log.thy ===== *)
theory Replication_Log
  imports Coordinator_State
begin

text \<open>
  The replication log of the coordinator: a ring buffer of \<^verbatim>\<open>MAX_LOG_SIZE\<close> messages between
  \<^verbatim>\<open>replication_read_ptr_\<close> and \<^verbatim>\<open>replication_write_ptr_\<close>, filled by \<^verbatim>\<open>add_to_log\<close> and emptied
  into the outgoing queue by \<^verbatim>\<open>replicate\<close> (here \<open>replicate_log\<close>).

  \<open>pending\<close> reads the log as a list. The interface \<open>lossy_log\<close> states what \<^verbatim>\<open>add_to_log\<close>
  promises: a bounded queue that drops its oldest entry when it is full.
\<close>

definition add_to_log :: "Message \<Rightarrow> Coordinator \<Rightarrow> Coordinator option" where
  "add_to_log msg s = (let
     next = (replication_write_ptr s + 1) mod length (replication_log s);
     s = (if next = replication_read_ptr s
          then s\<lparr>replication_read_ptr := (replication_read_ptr s + 1) mod length (replication_log s)\<rparr>
          else s)
   in if replication_write_ptr s < length (replication_log s)
      then Some (s\<lparr>replication_log := (replication_log s)[replication_write_ptr s := msg],
                   replication_write_ptr := next\<rparr>)
      else None)"

partial_function (option) replicate_log :: "Env \<Rightarrow> Coordinator \<Rightarrow> Coordinator option" where
  "replicate_log env s =
     (if replication_read_ptr s \<noteq> replication_write_ptr s then do {
        msg \<leftarrow> vec_at (replication_log s) (replication_read_ptr s);
        case try_push_outgoing env (OutgoingEvent_default\<lparr>oe_msg := msg\<rparr>) s of (ok, s) \<Rightarrow>
          if \<not> ok then Some s
          else replicate_log env (s\<lparr>replication_read_ptr :=
            (replication_read_ptr s + 1) mod length (replication_log s)\<rparr>)
      } else Some s)"

subsection \<open>The log as a list\<close>

definition log_inv :: "Coordinator \<Rightarrow> bool" where
  "log_inv s \<longleftrightarrow> length (replication_log s) = MAX_LOG_SIZE \<and>
     replication_read_ptr s < MAX_LOG_SIZE \<and> replication_write_ptr s < MAX_LOG_SIZE"

definition pending :: "Coordinator \<Rightarrow> Message list" where
  "pending s = (let N = length (replication_log s) in
     map (\<lambda>i. replication_log s ! ((replication_read_ptr s + i) mod N))
       [0..<(replication_write_ptr s + N - replication_read_ptr s) mod N])"

definition rep_event :: "Message \<Rightarrow> OutgoingEvent" where
  "rep_event msg = OutgoingEvent_default\<lparr>oe_msg := msg\<rparr>"

primrec add_all :: "('m \<Rightarrow> 's \<Rightarrow> 's option) \<Rightarrow> 'm list \<Rightarrow> 's \<Rightarrow> 's option" where
  "add_all add [] s = Some s"
| "add_all add (m # ms) s = Option.bind (add m s) (add_all add ms)"

definition last_n :: "nat \<Rightarrow> 'a list \<Rightarrow> 'a list" where
  "last_n n xs = drop (length xs - n) xs"

lemma last_n_append: "last_n n (last_n n xs @ ys) = last_n n (xs @ ys)"
proof (cases "length xs \<le> n")
  case False
  then have "last_n n xs @ ys = drop (length xs - n) (xs @ ys)"
    by (simp add: last_n_def)
  moreover have "length (last_n n xs @ ys) - n = length ys"
    using False by (simp add: last_n_def)
  moreover have "length ys + (length xs - n) = length (xs @ ys) - n"
    using False by simp
  ultimately show ?thesis
    unfolding last_n_def[of n "last_n n xs @ ys"] last_n_def[of n "xs @ ys"]
    by (simp only: drop_drop)
qed (simp add: last_n_def)

lemma length_last_n [simp]: "length (last_n n xs) = min n (length xs)"
  by (simp add: last_n_def)

subsection \<open>The interface of a lossy log\<close>

locale lossy_log =
  fixes add :: "'m \<Rightarrow> 's \<Rightarrow> 's option"
    and entries :: "'s \<Rightarrow> 'm list"
    and invar :: "'s \<Rightarrow> bool"
    and cap :: nat
  assumes add_law: "invar s \<Longrightarrow>
      \<exists>s'. add m s = Some s' \<and> invar s' \<and> entries s' = last_n cap (entries s @ [m])"
    and entries_le: "invar s \<Longrightarrow> length (entries s) \<le> cap"
begin

text \<open>After any number of additions the log has the most recent \<open>cap\<close> entries.\<close>

lemma add_all:
  assumes "invar s"
  shows "\<exists>s'. add_all add ms s = Some s' \<and> invar s' \<and> entries s' = last_n cap (entries s @ ms)"
  using assms
proof (induction ms arbitrary: s)
  case Nil
  then show ?case using entries_le[of s] by (simp add: last_n_def)
next
  case (Cons m ms)
  obtain s1 where s1: "add m s = Some s1" "invar s1" "entries s1 = last_n cap (entries s @ [m])"
    using add_law[OF Cons.prems] by blast
  obtain s' where "add_all add ms s1 = Some s'" "invar s'"
    "entries s' = last_n cap (entries s1 @ ms)"
    using Cons.IH[OF s1(2)] by blast
  then show ?case using s1 by (simp add: last_n_append)
qed

lemma add_all_short:
  assumes "invar s" and "length (entries s) + length ms \<le> cap"
  shows "\<exists>s'. add_all add ms s = Some s' \<and> entries s' = entries s @ ms"
  using add_all[OF assms(1), of ms] assms(2) by (auto simp: last_n_def)

end

subsection \<open>The ring buffer implements the interface\<close>

lemma pending_dist:
  assumes "r < N" and "w < (N :: nat)"
  shows "(w + N - r) mod N = (if r \<le> w then w - r else w + N - r)"
proof (cases "r \<le> w")
  case True
  then have "w + N - r = (w - r) + N" using assms by simp
  then have "(w + N - r) mod N = (w - r) mod N" by (simp only: mod_add_self2)
  then show ?thesis using True assms by simp
qed (use assms in simp)

lemma log_inv_simps:
  assumes "log_inv s"
  shows "length (replication_log s) = MAX_LOG_SIZE" "replication_read_ptr s < MAX_LOG_SIZE"
    "replication_write_ptr s < MAX_LOG_SIZE"
  using assms by (simp_all add: log_inv_def)

lemma length_pending:
  assumes "log_inv s"
  shows "length (pending s) = (if replication_read_ptr s \<le> replication_write_ptr s
    then replication_write_ptr s - replication_read_ptr s
    else replication_write_ptr s + MAX_LOG_SIZE - replication_read_ptr s)"
  using log_inv_simps[OF assms] by (simp add: pending_def Let_def pending_dist)

lemma length_pending_less: "log_inv s \<Longrightarrow> length (pending s) < MAX_LOG_SIZE"
  using log_inv_simps[of s] by (auto simp: length_pending split: if_splits)

lemma pending_nth:
  assumes "log_inv s" and "i < length (pending s)"
  shows "pending s ! i = replication_log s ! ((replication_read_ptr s + i) mod MAX_LOG_SIZE)"
  using assms log_inv_simps[OF assms(1)] by (simp add: pending_def Let_def)

lemma pending_Nil_iff:
  "log_inv s \<Longrightarrow> pending s = [] \<longleftrightarrow> replication_read_ptr s = replication_write_ptr s"
  using log_inv_simps[of s] by (auto simp: length_pending simp flip: length_0_conv split: if_splits)

text \<open>Moving the read pointer by one takes the first entry off.\<close>

lemma mod_Suc_cases: "r < N \<Longrightarrow> Suc r mod N = (if Suc r = N then 0 else Suc r)" for N :: nat
  by auto

lemma pending_advance:
  assumes inv: "log_inv s" and ne: "pending s \<noteq> []"
  defines "s' \<equiv> s\<lparr>replication_read_ptr := (replication_read_ptr s + 1) mod MAX_LOG_SIZE\<rparr>"
  shows "log_inv s' \<and> pending s = replication_log s ! replication_read_ptr s # pending s'"
proof
  note ptrs = log_inv_simps[OF inv]
  show inv': "log_inv s'"
    using ptrs by (simp add: s'_def log_inv_def)
  have neq: "replication_read_ptr s \<noteq> replication_write_ptr s"
    using ne pending_Nil_iff[OF inv] by simp
  have len: "length (pending s) = Suc (length (pending s'))"
    using length_pending[OF inv] length_pending[OF inv'] ptrs neq
    by (simp add: s'_def mod_Suc_cases split: if_splits)
  show "pending s = replication_log s ! replication_read_ptr s # pending s'"
  proof (rule nth_equalityI)
    show "pending s ! i = (replication_log s ! replication_read_ptr s # pending s') ! i"
      if "i < length (pending s)" for i
    proof (cases i)
      case 0
      then show ?thesis using pending_nth[OF inv that] ptrs by simp
    next
      case (Suc j)
      then have "j < length (pending s')" using that len by simp
      then show ?thesis
        using pending_nth[OF inv that] pending_nth[OF inv', of j] Suc
        by (simp add: s'_def mod_add_left_eq)
    qed
  qed (simp add: len)
qed

text \<open>Writing the slot at the write pointer, when the log is not full, appends the entry.\<close>

lemma pending_write:
  fixes msg :: Message
  assumes inv: "log_inv s" and room: "length (pending s) < MAX_LOG_SIZE - 1"
  defines "s' \<equiv> s\<lparr>replication_log := (replication_log s)[replication_write_ptr s := msg],
    replication_write_ptr := (replication_write_ptr s + 1) mod MAX_LOG_SIZE\<rparr>"
  shows "log_inv s' \<and> pending s' = pending s @ [msg]"
proof
  note ptrs = log_inv_simps[OF inv]
  show inv': "log_inv s'"
    using ptrs by (simp add: s'_def log_inv_def)
  have len: "length (pending s') = Suc (length (pending s))"
    using length_pending[OF inv] length_pending[OF inv'] ptrs room
    by (simp add: s'_def mod_Suc_cases split: if_splits)
  have end_slot: "(replication_read_ptr s + length (pending s)) mod MAX_LOG_SIZE =
      replication_write_ptr s"
    using length_pending[OF inv] ptrs by (auto split: if_splits)
  show "pending s' = pending s @ [msg]"
  proof (rule nth_equalityI)
    show "pending s' ! i = (pending s @ [msg]) ! i" if "i < length (pending s')" for i
    proof (cases "i = length (pending s)")
      case True
      then show ?thesis
        using pending_nth[OF inv' that] end_slot ptrs by (simp add: s'_def)
    next
      case False
      with that len have i: "i < length (pending s)" by simp
      have "(replication_read_ptr s + i) mod MAX_LOG_SIZE \<noteq> replication_write_ptr s"
      proof
        assume "(replication_read_ptr s + i) mod MAX_LOG_SIZE = replication_write_ptr s"
        then have "i mod MAX_LOG_SIZE = length (pending s) mod MAX_LOG_SIZE"
          using end_slot mod_add_left_cancel_nat by metis
        then show False using i room by simp
      qed
      then show ?thesis
        using pending_nth[OF inv' that] pending_nth[OF inv i] i
        by (simp add: s'_def nth_append)
    qed
  qed (simp add: len)
qed

lemma MAX_LOG_SIZE_pos [simp]: "0 < MAX_LOG_SIZE" "1 < MAX_LOG_SIZE"
  by (simp_all add: MAX_LOG_SIZE_def)

text \<open>
  \<^verbatim>\<open>add_to_log\<close> on a well-formed log: it never faults, touches only the log and its
  pointers, and keeps the most recent \<^verbatim>\<open>MAX_LOG_SIZE - 1\<close> messages.
\<close>

lemma add_to_log_eq:
  assumes inv: "log_inv s"
  shows "\<exists>r w l. add_to_log msg s = Some (s\<lparr>replication_read_ptr := r,
      replication_write_ptr := w, replication_log := l\<rparr>) \<and>
    log_inv (s\<lparr>replication_read_ptr := r, replication_write_ptr := w, replication_log := l\<rparr>) \<and>
    pending (s\<lparr>replication_read_ptr := r, replication_write_ptr := w, replication_log := l\<rparr>) =
      last_n (MAX_LOG_SIZE - 1) (pending s @ [msg])"
proof -
  note ptrs = log_inv_simps[OF inv]
  define s1 where "s1 = (if (replication_write_ptr s + 1) mod MAX_LOG_SIZE = replication_read_ptr s
    then s\<lparr>replication_read_ptr := (replication_read_ptr s + 1) mod MAX_LOG_SIZE\<rparr> else s)"
  have full: "(replication_write_ptr s + 1) mod MAX_LOG_SIZE = replication_read_ptr s \<longleftrightarrow>
      length (pending s) = MAX_LOG_SIZE - 1"
    using ptrs by (simp add: length_pending[OF inv] mod_Suc_cases split: if_splits) linarith+
  have s1: "log_inv s1 \<and> length (pending s1) < MAX_LOG_SIZE - 1 \<and>
      pending s1 @ [msg] = last_n (MAX_LOG_SIZE - 1) (pending s @ [msg])"
  proof (cases "length (pending s) = MAX_LOG_SIZE - 1")
    case True
    then have "pending s \<noteq> []" by (auto simp: MAX_LOG_SIZE_def)
    note adv = pending_advance[OF inv this]
    have eq: "s1 = s\<lparr>replication_read_ptr := (replication_read_ptr s + 1) mod MAX_LOG_SIZE\<rparr>"
      using True full by (simp add: s1_def)
    have "pending s = replication_log s ! replication_read_ptr s # pending s1"
      using adv by (simp add: eq)
    then have "drop 1 (pending s @ [msg]) = pending s1 @ [msg]"
      and "length (pending s1) < MAX_LOG_SIZE - 1"
      using True by simp_all
    then show ?thesis using adv True by (simp add: eq last_n_def)
  next
    case False
    then have "s1 = s" "length (pending s) < MAX_LOG_SIZE - 1"
      using full length_pending_less[OF inv] by (auto simp: s1_def)
    then show ?thesis using inv by (simp add: last_n_def)
  qed
  define s2 where "s2 = s1\<lparr>replication_log := (replication_log s1)[replication_write_ptr s1 := msg],
    replication_write_ptr := (replication_write_ptr s1 + 1) mod MAX_LOG_SIZE\<rparr>"
  have "log_inv s2 \<and> pending s2 = pending s1 @ [msg]"
    unfolding s2_def using s1 by (intro pending_write) simp_all
  moreover have "add_to_log msg s = Some s2"
    using ptrs by (simp add: add_to_log_def s2_def s1_def Let_def)
  moreover have "s2 = s\<lparr>replication_read_ptr := replication_read_ptr s1,
      replication_write_ptr := replication_write_ptr s2, replication_log := replication_log s2\<rparr>"
    by (simp add: s2_def s1_def)
  ultimately show ?thesis using s1 by metis
qed

interpretation rlog: lossy_log add_to_log pending log_inv "MAX_LOG_SIZE - 1"
proof unfold_locales
  show "\<exists>s'. add_to_log m s = Some s' \<and> log_inv s' \<and>
      pending s' = last_n (MAX_LOG_SIZE - 1) (pending s @ [m])" if "log_inv s" for s m
    using add_to_log_eq[OF that, of m] by blast
  show "length (pending s) \<le> MAX_LOG_SIZE - 1" if "log_inv s" for s
    using length_pending_less[OF that] by simp
qed

subsection \<open>Emptying the log\<close>

lemma pending_shared [simp]: "pending (s\<lparr>shared := sh\<rparr>) = pending s"
  by (simp add: pending_def)

lemma log_inv_shared [simp]: "log_inv (s\<lparr>shared := sh\<rparr>) = log_inv s"
  by (simp add: log_inv_def)

text \<open>
  \<^verbatim>\<open>replicate\<close> ends, for every network thread: it has pushed the oldest \<open>k\<close> pending messages,
  in order, and left the others in the log. It stops early only when a push fails.
\<close>

lemma replicate_log_eq:
  assumes "log_inv s" and "shared_inv (shared s)"
  shows "\<exists>r sh k. replicate_log env s = Some (s\<lparr>replication_read_ptr := r, shared := sh\<rparr>) \<and>
    shared_inv sh \<and> ticks sh = ticks (shared s) \<and>
    log_inv (s\<lparr>replication_read_ptr := r\<rparr>) \<and>
    pending (s\<lparr>replication_read_ptr := r\<rparr>) = drop k (pending s) \<and> k \<le> length (pending s) \<and>
    out_stream (s\<lparr>shared := sh\<rparr>) = out_stream s @ map rep_event (take k (pending s)) \<and>
    (length (contents (outgoing_queue (shared s))) + length (pending s)
       \<le> bound (outgoing_queue (shared s)) \<longrightarrow> k = length (pending s))"
  using assms
proof (induction "length (pending s)" arbitrary: s)
  case 0
  then have "replicate_log env s = Some (s\<lparr>replication_read_ptr := replication_read_ptr s, shared := shared s\<rparr>)"
    using pending_Nil_iff[of s] by (simp add: replicate_log.simps)
  then show ?case using 0
    by (intro exI[of _ "replication_read_ptr s"] exI[of _ "shared s"] exI[of _ 0]) simp
next
  case (Suc n)
  let ?msg = "replication_log s ! replication_read_ptr s"
  let ?s1 = "s\<lparr>replication_read_ptr := (replication_read_ptr s + 1) mod MAX_LOG_SIZE\<rparr>"
  have ne: "pending s \<noteq> []" using Suc.hyps(2) by auto
  note ptrs = log_inv_simps[OF Suc.prems(1)]
  have adv: "log_inv ?s1" "pending s = ?msg # pending ?s1"
    using pending_advance[OF Suc.prems(1) ne] by auto
  obtain ok s2 where push: "try_push_outgoing env (rep_event ?msg) s = (ok, s2)" by fastforce
  obtain sh where sh: "s2 = s\<lparr>shared := sh\<rparr>" "shared_inv sh" "ticks sh = ticks (shared s)"
    "out_stream s2 = out_stream s @ (if ok then [rep_event ?msg] else [])"
    using try_push_outgoing_eq[OF Suc.prems(2) push] by blast
  have step: "replicate_log env s = (if ok then replicate_log env (?s1\<lparr>shared := sh\<rparr>) else Some s2)"
    using ne pending_Nil_iff[OF Suc.prems(1)] push ptrs sh(1)
    by (subst replicate_log.simps) (simp add: vec_at_def rep_event_def)
  show ?case
  proof (cases ok)
    case False
    have "\<not> (length (contents (outgoing_queue (shared s))) + length (pending s)
       \<le> bound (outgoing_queue (shared s)))"
      using try_push_outgoing_room[OF Suc.prems(2), of env "rep_event ?msg"] push False
        Suc.hyps(2)[symmetric]
      by (auto simp del: length_contents)
    then show ?thesis
      using False step sh Suc.prems(1)
      by (intro exI[of _ "replication_read_ptr s"] exI[of _ sh] exI[of _ 0]) simp
  next
    case True
    have "n = length (pending (?s1\<lparr>shared := sh\<rparr>))" using Suc.hyps(2) adv(2) by simp
    moreover have "log_inv (?s1\<lparr>shared := sh\<rparr>)" using adv(1) by simp
    ultimately obtain r sh' k where IH:
      "replicate_log env (?s1\<lparr>shared := sh\<rparr>) = Some (s\<lparr>replication_read_ptr := r, shared := sh'\<rparr>)"
      "shared_inv sh'" "ticks sh' = ticks sh" "log_inv (s\<lparr>replication_read_ptr := r\<rparr>)"
      "pending (s\<lparr>replication_read_ptr := r\<rparr>) = drop k (pending ?s1)" "k \<le> length (pending ?s1)"
      "out_stream (s\<lparr>shared := sh'\<rparr>) =
         out_stream (s\<lparr>shared := sh\<rparr>) @ map rep_event (take k (pending ?s1))"
      "length (contents (outgoing_queue sh)) + length (pending ?s1) \<le> bound (outgoing_queue sh)
         \<longrightarrow> k = length (pending ?s1)"
      using Suc.hyps(1)[of "?s1\<lparr>shared := sh\<rparr>"] sh(2)
      by (auto simp: out_stream_def simp del: length_contents)
    have level: "length (contents (outgoing_queue sh)) \<le>
        Suc (length (contents (outgoing_queue (shared s))))"
      "bound (outgoing_queue sh) = bound (outgoing_queue (shared s))"
      using try_push_outgoing_level[OF Suc.prems(2) push] sh(1) by simp_all
    show ?thesis
      using True step sh IH adv(2) level
      by (intro exI[of _ r] exI[of _ sh'] exI[of _ "Suc k"]) (simp del: length_contents)
  qed
qed

subsection \<open>Properties\<close>

text \<open>C37:
  The replication log is a bounded queue that forgets the oldest: from a well-formed state,
  adding any sequence of messages never faults and leaves the most recent 9999 of the
  messages that were pending and the new ones, in order.
\<close>

theorem replication_log_keeps_recent:
  assumes "log_inv s"
  shows "\<exists>s'. add_all add_to_log ms s = Some s' \<and> log_inv s' \<and>
    pending s' = drop (length (pending s) + length ms - 9999) (pending s @ ms)"
  using rlog.add_all[OF assms, of ms] by (simp add: last_n_def MAX_LOG_SIZE_def)

lemma Coordinator_init_log: "log_inv Coordinator_init \<and> pending Coordinator_init = []"
  by (simp add: log_inv_def Coordinator_init_def pending_def MAX_LOG_SIZE_def)

theorem replication_log_keeps_recent_witness:
  "log_inv Coordinator_init \<and>
   (\<exists>s'. add_all add_to_log [Message_new SUBMIT, Message_new RESULT] Coordinator_init = Some s' \<and>
     pending s' = [Message_new SUBMIT, Message_new RESULT])"
  using replication_log_keeps_recent[of Coordinator_init "[Message_new SUBMIT, Message_new RESULT]"]
    Coordinator_init_log by auto

text \<open>
  \<^verbatim>\<open>replicate\<close> terminates whatever the network thread does, and hands the peer a prefix of the
  pending messages in order without skipping or repeating any: what it pushed and what stays
  in the log together are what was pending. When the outgoing queue has room for all of them
  the log is empty afterwards.
\<close>

theorem replicate_flushes_in_order:
  assumes "log_inv s" and "shared_inv (shared s)"
  shows "\<exists>s' sent. replicate_log env s = Some s' \<and> log_inv s' \<and> shared_inv (shared s') \<and>
    out_stream s' = out_stream s @ map rep_event sent \<and> pending s = sent @ pending s' \<and>
    (length (contents (outgoing_queue (shared s))) + length (pending s)
       \<le> bound (outgoing_queue (shared s)) \<longrightarrow> pending s' = [])"
proof -
  obtain r sh k where *: "replicate_log env s = Some (s\<lparr>replication_read_ptr := r, shared := sh\<rparr>)"
    "shared_inv sh" "log_inv (s\<lparr>replication_read_ptr := r\<rparr>)"
    "pending (s\<lparr>replication_read_ptr := r\<rparr>) = drop k (pending s)"
    "out_stream (s\<lparr>shared := sh\<rparr>) = out_stream s @ map rep_event (take k (pending s))"
    "length (contents (outgoing_queue (shared s))) + length (pending s)
       \<le> bound (outgoing_queue (shared s)) \<longrightarrow> k = length (pending s)"
    using replicate_log_eq[OF assms, of env] by blast
  then show ?thesis
    by (intro exI[of _ "s\<lparr>replication_read_ptr := r, shared := sh\<rparr>"] exI[of _ "take k (pending s)"])
      (simp add: out_stream_def del: length_contents)
qed

lemma Coordinator_init_shared: "shared_inv (shared Coordinator_init)"
  by (simp add: power_of_2_capacities SPSCQueue_init_inv shared_inv_def Coordinator_init_def Shared_init_def)

lemma Coordinator_init_outgoing:
  "contents (outgoing_queue (shared Coordinator_init)) = []"
  "bound (outgoing_queue (shared Coordinator_init)) = COORDINATOR_OUTGOING_QUEUE_CAPACITY"
  by (simp_all add: power_of_2_capacities SPSCQueue_init_inv Coordinator_init_def Shared_init_def del: length_contents)

text \<open>One message in the log of a fresh coordinator.\<close>

definition logged_state :: Coordinator where
  "logged_state = the (add_to_log (Message_new ASSIGNED_REPLICATE) Coordinator_init)"

lemma logged_state_eq:
  "log_inv logged_state \<and> pending logged_state = [Message_new ASSIGNED_REPLICATE] \<and>
   shared logged_state = shared Coordinator_init"
proof -
  obtain r w l where "add_to_log (Message_new ASSIGNED_REPLICATE) Coordinator_init =
      Some (Coordinator_init\<lparr>replication_read_ptr := r, replication_write_ptr := w, replication_log := l\<rparr>)"
    "log_inv (Coordinator_init\<lparr>replication_read_ptr := r, replication_write_ptr := w, replication_log := l\<rparr>)"
    "pending (Coordinator_init\<lparr>replication_read_ptr := r, replication_write_ptr := w, replication_log := l\<rparr>) =
      last_n (MAX_LOG_SIZE - 1) (pending Coordinator_init @ [Message_new ASSIGNED_REPLICATE])"
    using add_to_log_eq[of Coordinator_init "Message_new ASSIGNED_REPLICATE"] Coordinator_init_log
    by blast
  then show ?thesis
    using Coordinator_init_log by (simp add: logged_state_def last_n_def MAX_LOG_SIZE_def)
qed

theorem replicate_flushes_in_order_witness:
  "log_inv logged_state \<and> shared_inv (shared logged_state) \<and>
   (\<exists>s'. replicate_log \<lparr>now_at = \<lambda>_. 0, drain_at = \<lambda>_. 0, control_at = \<lambda>_. [], task_at = \<lambda>_. []\<rparr>
      logged_state = Some s' \<and> pending s' = [])"
  using replicate_flushes_in_order[of logged_state
      "\<lparr>now_at = \<lambda>_. 0, drain_at = \<lambda>_. 0, control_at = \<lambda>_. [], task_at = \<lambda>_. []\<rparr>"]
    logged_state_eq Coordinator_init_shared Coordinator_init_outgoing
  by (auto simp: COORDINATOR_OUTGOING_QUEUE_CAPACITY_def COORDINATOR_TASK_QUEUE_CAPACITY_def
      simp del: length_contents)

end
