(* ===== verification/Coordinator_Metrics.thy ===== *)
theory Coordinator_Metrics
  imports Coordinator_State
begin

text \<open>
  The coordinator's counters (\<^verbatim>\<open>record_enqueue\<close> to \<^verbatim>\<open>recompute_metrics\<close> of
  \<^verbatim>\<open>src/coordinator/coordinator.cpp\<close>). Counters and latencies are 64-bit words and wrap.
\<close>

definition record_enqueue :: "Metrics \<Rightarrow> Metrics" where
  "record_enqueue m = m\<lparr>tasks_queued := tasks_queued m + 1\<rparr>"

definition record_assignment :: "Metrics \<Rightarrow> Metrics" where
  "record_assignment m = m\<lparr>
     tasks_queued := tasks_queued m - (if tasks_queued m > 0 then 1 else 0),
     tasks_running := tasks_running m + 1\<rparr>"

definition record_completion_worker :: "WorkerState \<Rightarrow> Task \<Rightarrow> WorkerState" where
  "record_completion_worker w t = w\<lparr>
     ws_tasks_completed := ws_tasks_completed w + 1,
     ws_total_latency_ns := ws_total_latency_ns w + (completed_at t - started_at t)\<rparr>"

fun drop_front_while :: "('a list \<Rightarrow> bool) \<Rightarrow> 'a list \<Rightarrow> 'a list" where
  "drop_front_while p [] = []"
| "drop_front_while p (x # xs) = (if p (x # xs) then drop_front_while p xs else x # xs)"

definition record_completion_system :: "Metrics \<Rightarrow> Task \<Rightarrow> Metrics" where
  "record_completion_system m t = (let
     m = m\<lparr>tasks_running := tasks_running m - (if tasks_running m > 0 then 1 else 0)\<rparr>;
     m = m\<lparr>tasks_completed := tasks_completed m + 1\<rparr>;
     latency = completed_at t - queued_at t;
     m = m\<lparr>latencies := drop_front_while (\<lambda>l. length l > MAX_LATENCY_SAMPLES)
              (latencies m @ [latency])\<rparr>;
     m = m\<lparr>total_latency_ns := total_latency_ns m + latency\<rparr>;
     m = (if tasks_completed m = 1 then m\<lparr>min_latency_ns := latency\<rparr>
          else m\<lparr>min_latency_ns := min (min_latency_ns m) latency\<rparr>);
     m = m\<lparr>max_latency_ns := max (max_latency_ns m) latency\<rparr>
   in m\<lparr>completion_times_ns := completion_times_ns m @ [completed_at t]\<rparr>)"

definition get_rolling_throughput :: "Env \<Rightarrow> Coordinator \<Rightarrow> u64 \<times> Coordinator" where
  "get_rolling_throughput env s = (let
     (now, s) = now_ns_u64 env s;
     m = metrics s;
     m = m\<lparr>completion_times_ns :=
           drop_front_while (\<lambda>l. now - hd l > THROUGHPUT_WINDOW_NS) (completion_times_ns m)\<rparr>
   in (of_nat (length (completion_times_ns m)), s\<lparr>metrics := m\<rparr>))"

definition recompute_task :: "Task \<Rightarrow> Metrics \<Rightarrow> Metrics" where
  "recompute_task t m = (case t_state t of
     COMPLETED \<Rightarrow> (let
       m = m\<lparr>tasks_completed := tasks_completed m + 1\<rparr>;
       latency = completed_at t - queued_at t;
       m = m\<lparr>total_latency_ns := total_latency_ns m + latency\<rparr>;
       m = (if tasks_completed m = 1 then m\<lparr>min_latency_ns := latency\<rparr>
            else m\<lparr>min_latency_ns := min (min_latency_ns m) latency\<rparr>);
       m = m\<lparr>max_latency_ns := max (max_latency_ns m) latency\<rparr>
     in m\<lparr>latencies := latencies m @ [latency]\<rparr>)
   | RUNNING \<Rightarrow> m\<lparr>tasks_running := tasks_running m + 1\<rparr>
   | QUEUED \<Rightarrow> m\<lparr>tasks_queued := tasks_queued m + 1\<rparr>
   | _ \<Rightarrow> m)"

definition recompute_metrics :: "(u64, Task) umap \<Rightarrow> Metrics \<Rightarrow> Metrics" where
  "recompute_metrics ts m = fold (\<lambda>(_, t). recompute_task t) ts
     (m\<lparr>tasks_completed := 0, tasks_running := 0, tasks_queued := 0, total_latency_ns := 0,
        min_latency_ns := 0, max_latency_ns := 0, latencies := []\<rparr>)"

subsection \<open>The sample windows\<close>

lemma drop_front_while_length:
  "drop_front_while (\<lambda>l. length l > n) xs = drop (length xs - n) xs"
proof (induction xs)
  case (Cons x xs)
  then show ?case by (cases "length xs < n") (auto simp: Suc_diff_le not_less)
qed simp

lemma drop_front_while_hd:
  "drop_front_while (\<lambda>l. p (hd l)) xs = dropWhile p xs"
  by (induction xs) simp_all

subsection \<open>Counting the task table\<close>

definition latency :: "Task \<Rightarrow> u64" where
  "latency t = completed_at t - queued_at t"

definition with_state :: "TaskState \<Rightarrow> Task list \<Rightarrow> Task list" where
  "with_state st ts = filter (\<lambda>t. t_state t = st) ts"

text \<open>
  The metrics that describe a list of tasks: how many are in which state, and the latencies
  of the completed ones with their sum and extremes.
\<close>

definition metrics_of :: "Task list \<Rightarrow> Metrics \<Rightarrow> bool" where
  "metrics_of ts m \<longleftrightarrow> (let done = with_state COMPLETED ts in
     tasks_completed m = of_nat (length done) \<and>
     tasks_running m = of_nat (length (with_state RUNNING ts)) \<and>
     tasks_queued m = of_nat (length (with_state QUEUED ts)) \<and>
     latencies m = map latency done \<and> total_latency_ns m = sum_list (map latency done) \<and>
     (done \<noteq> [] \<longrightarrow> min_latency_ns m = Min (latency ` set done) \<and>
        max_latency_ns m = Max (latency ` set done)) \<and>
     (done = [] \<longrightarrow> min_latency_ns m = 0 \<and> max_latency_ns m = 0))"

lemma with_state_append [simp]:
  "with_state st (ts @ [t]) = with_state st ts @ (if t_state t = st then [t] else [])"
  by (simp add: with_state_def)

lemma of_nat_u64_eq_0_iff:
  assumes "n < 2 ^ 64"
  shows "(of_nat n :: u64) = 0 \<longleftrightarrow> n = 0"
proof -
  have "unat (of_nat n :: u64) = n" using assms by (simp add: unat_of_nat)
  then show ?thesis by (metis unat_eq_zero)
qed

lemma recompute_task_metrics_of:
  assumes m: "metrics_of ts m" and len: "length ts < 2 ^ 64"
  shows "metrics_of (ts @ [t]) (recompute_task t m)"
proof (cases "t_state t = COMPLETED")
  case True
  let ?done = "with_state COMPLETED ts"
  have "length ?done \<le> length ts" by (simp add: with_state_def)
  then have first: "tasks_completed m + 1 = 1 \<longleftrightarrow> ?done = []"
    using m len of_nat_u64_eq_0_iff[of "length ?done"] by (simp add: metrics_of_def Let_def)
  show ?thesis
  proof (cases "?done = []")
    case True
    then show ?thesis
      using m first \<open>t_state t = COMPLETED\<close>
      by (simp add: recompute_task_def metrics_of_def Let_def flip: latency_def)
  next
    case False
    then have "Min (insert (latency t) (latency ` set ?done)) = min (min_latency_ns m) (latency t)"
      "Max (insert (latency t) (latency ` set ?done)) = max (max_latency_ns m) (latency t)"
      using m by (simp_all add: metrics_of_def Let_def min.commute max.commute)
    then show ?thesis
      using m first False \<open>t_state t = COMPLETED\<close>
      by (simp add: recompute_task_def metrics_of_def Let_def flip: latency_def)
  qed
next
  case False
  then show ?thesis
    using m by (cases "t_state t") (simp_all add: recompute_task_def metrics_of_def Let_def)
qed

lemma fold_recompute_metrics_of:
  assumes "metrics_of ts m" and "length ts + length us < 2 ^ 64"
  shows "metrics_of (ts @ us) (fold recompute_task us m)"
  using assms
proof (induction us arbitrary: ts m)
  case (Cons u us)
  have "metrics_of (ts @ [u]) (recompute_task u m)"
    using Cons.prems by (intro recompute_task_metrics_of) simp_all
  from Cons.IH[OF this] Cons.prems show ?case by simp
qed simp

lemma fold_snd: "fold (\<lambda>(_, t). f t) kvs = fold f (map snd kvs)"
  by (induction kvs) auto

lemma recompute_metrics_of:
  assumes "length ts < 2 ^ 64"
  shows "metrics_of (map snd ts) (recompute_metrics ts m) \<and>
    completion_times_ns (recompute_metrics ts m) = completion_times_ns m"
proof
  let ?m = "m\<lparr>tasks_completed := 0, tasks_running := 0, tasks_queued := 0, total_latency_ns := 0,
    min_latency_ns := 0, max_latency_ns := 0, latencies := []\<rparr>"
  have "metrics_of [] ?m" by (simp add: metrics_of_def with_state_def)
  then show "metrics_of (map snd ts) (recompute_metrics ts m)"
    using fold_recompute_metrics_of[of "[]" ?m "map snd ts"] assms
    by (simp add: recompute_metrics_def fold_snd)
  have "completion_times_ns (fold recompute_task us k) = completion_times_ns k" for us k
    by (induction us arbitrary: k)
      (simp_all add: recompute_task_def Let_def split: TaskState.split)
  then show "completion_times_ns (recompute_metrics ts m) = completion_times_ns m"
    by (simp add: recompute_metrics_def fold_snd)
qed

subsection \<open>Properties\<close>

text \<open>
  \<^verbatim>\<open>recompute_metrics\<close> rebuilds the counters from a task table: afterwards they are the numbers
  of completed, running and queued tasks, and the latency samples, their sum and their
  extremes are those of the completed tasks, whatever they were before.
\<close>

theorem recompute_metrics_correct:
  assumes "length ts < 2 ^ 64"
  shows "metrics_of (map snd ts) (recompute_metrics ts m) \<and>
    completion_times_ns (recompute_metrics ts m) = completion_times_ns m"
  by (rule recompute_metrics_of[OF assms])

text \<open>Two completed tasks, of latencies 30 and 10, and a running one.\<close>

definition metrics_table :: "(u64, Task) umap" where
  "metrics_table =
     [(1, (Task_new 1 0 SYNTHETIC 5)\<lparr>completed_at := 35, t_state := COMPLETED\<rparr>),
      (2, (Task_new 2 0 SYNTHETIC 6)\<lparr>t_state := RUNNING\<rparr>),
      (3, (Task_new 3 0 SYNTHETIC 7)\<lparr>completed_at := 17, t_state := COMPLETED\<rparr>)]"

theorem recompute_metrics_correct_witness:
  "length metrics_table < 2 ^ 64 \<and>
   min_latency_ns (recompute_metrics metrics_table Metrics_default) = 10 \<and>
   max_latency_ns (recompute_metrics metrics_table Metrics_default) = 30 \<and>
   tasks_running (recompute_metrics metrics_table Metrics_default) = 1"
  using recompute_metrics_correct[of metrics_table Metrics_default]
  by (simp add: metrics_table_def metrics_of_def with_state_def latency_def Task_new_def
      Task_default_def Let_def)

text \<open>
  Completing a task keeps at most \<^verbatim>\<open>MAX_LATENCY_SAMPLES\<close> latency samples, the most recent
  ones, and the gauge of running tasks never wraps below zero.
\<close>

theorem record_completion_window:
  "latencies (record_completion_system m t) =
     drop (Suc (length (latencies m)) - 10000) (latencies m @ [completed_at t - queued_at t]) \<and>
   length (latencies (record_completion_system m t)) \<le> 10000 \<and>
   unat (tasks_running (record_completion_system m t)) = unat (tasks_running m) - 1 \<and>
   completion_times_ns (record_completion_system m t) = completion_times_ns m @ [completed_at t]"
proof -
  have "unat (tasks_running m - (if tasks_running m > 0 then 1 else 0)) = unat (tasks_running m) - 1"
    by (simp add: unat_minus_one word_gt_0)
  then show ?thesis
    by (simp add: record_completion_system_def Let_def drop_front_while_length
        MAX_LATENCY_SAMPLES_def)
qed

text \<open>
  \<^verbatim>\<open>get_rolling_throughput\<close> drops exactly the leading completion times that lie more than
  \<^verbatim>\<open>THROUGHPUT_WINDOW_NS\<close> before now and returns the number of those that are left.
\<close>

theorem rolling_throughput_window:
  "\<exists>s'. get_rolling_throughput env s =
     (of_nat (length (dropWhile (\<lambda>c. now_at env (ticks (shared s)) - c > 1000000000)
        (completion_times_ns (metrics s)))), s') \<and>
   completion_times_ns (metrics s') = dropWhile (\<lambda>c. now_at env (ticks (shared s)) - c > 1000000000)
        (completion_times_ns (metrics s)) \<and>
   tasks s' = tasks s \<and> workers_states s' = workers_states s \<and> out_stream s' = out_stream s"
  using drop_front_while_hd[of "\<lambda>c. now_at env (ticks (shared s)) - c > 1000000000"
      "completion_times_ns (metrics s)"]
  by (simp add: get_rolling_throughput_def now_ns_u64_def Let_def
      THROUGHPUT_WINDOW_NS_def out_stream_def)

end
