(* ===== verification/Scheduling.thy ===== *)
theory Scheduling
  imports Worker_Pool Replication_Log Coordinator_Metrics
begin

text \<open>
  The primary's work: assigning tasks to workers round robin, sending results to clients,
  working off the two backlogs, and the handlers of \<^verbatim>\<open>SUBMIT\<close> and \<^verbatim>\<open>COMPLETE\<close> events.

  A \<^verbatim>\<open>Task&\<close> parameter refers to an entry of \<^verbatim>\<open>tasks_\<close>; the model passes the entry's key. A
  \<^verbatim>\<open>while\<close> loop over a backlog is a \<open>partial_function\<close>: \<open>None\<close> would also stand for a loop
  that does not end, so the lemmas that these operations return a state cover termination.
\<close>

subsection \<open>Assigning\<close>

definition assign_message :: "u64 \<Rightarrow> Task \<Rightarrow> Message" where
  "assign_message ep task = (let
     msg = Message_new ASSIGN;
     msg = msg\<lparr>assign := (assign msg)\<lparr>am_type := t_type task, am_task_id := t_id task\<rparr>\<rparr>;
     msg = msg\<lparr>epoch := ep\<rparr>
   in case t_type task of
        SYNTHETIC \<Rightarrow> msg\<lparr>assign := (assign msg)\<lparr>am_duration_us := duration_us (synthetic_task task)\<rparr>\<rparr>
      | WORD_COUNT \<Rightarrow> msg\<lparr>assign := (assign msg)\<lparr>am_words := words (word_count_task task)\<rparr>\<rparr>
      | _ \<Rightarrow> msg)"

definition assign_rep_message :: "u64 \<Rightarrow> Task \<Rightarrow> Message" where
  "assign_rep_message ep task = (let
     rep = AssignedReplicationMsg_default\<lparr>ar_task_id := t_id task, ar_queued_at := queued_at task,
       ar_started_at := started_at task, ar_client_id := t_client_id task,
       ar_worker_id := t_worker_id task, ar_task_type := t_type task\<rparr>;
     rep = (case t_type task of
        SYNTHETIC \<Rightarrow> rep\<lparr>ar_duration_us := ucast (duration_us (synthetic_task task))\<rparr>
      | WORD_COUNT \<Rightarrow> rep\<lparr>ar_words := words (word_count_task task)\<rparr>
      | _ \<Rightarrow> rep)
   in (Message_new ASSIGNED_REPLICATE)\<lparr>epoch := ep, assigned_rep := rep\<rparr>)"

primrec assign_loop :: "Env \<Rightarrow> u64 \<Rightarrow> nat list \<Rightarrow> Coordinator \<Rightarrow> (bool \<times> Coordinator) option" where
  "assign_loop env k [] s = Some (False, s)"
| "assign_loop env k (i # is) s = do {
     let active_idx = (rr_index s + i) mod length (active_workers s);
     worker_id \<leftarrow> vec_at (active_workers s) active_idx;
     w \<leftarrow> worker_at s worker_id;
     if length (running_tasks w) \<ge> WORKER_MAX_QUEUE_DEPTH then assign_loop env k is s
     else do {
       task \<leftarrow> umap_find (tasks s) k;
       case try_push_outgoing env \<lparr>oe_fd = ws_fd w, oe_msg = assign_message (current_epoch s) task\<rparr> s of
         (ok, s) \<Rightarrow>
         if \<not> ok then Some (False, s)
         else do {
           let s = s\<lparr>rr_index := (active_idx + 1) mod length (active_workers s)\<rparr>;
           case now_ns_u64 env s of (now, s) \<Rightarrow> do {
             let task = task\<lparr>t_worker_id := worker_id, t_state := RUNNING, started_at := now\<rparr>;
             let s = set_task k task s;
             let s = set_worker worker_id
               (w\<lparr>running_tasks := uset_insert (t_id task) (running_tasks w)\<rparr>) s;
             let s = s\<lparr>metrics := record_assignment (metrics s)\<rparr>;
             s \<leftarrow> add_to_log (assign_rep_message (current_epoch s) task) s;
             Some (True, s)
           }
         }
     }
   }"

definition assign_task :: "Env \<Rightarrow> u64 \<Rightarrow> Coordinator \<Rightarrow> (bool \<times> Coordinator) option" where
  "assign_task env k s = (let
     num_active = (of_nat (length (active_workers s)) :: u32)
   in assign_loop env k [0..<unat num_active] s)"

subsection \<open>Results\<close>

definition result_message :: "u64 \<Rightarrow> Task \<Rightarrow> Message" where
  "result_message ep task = (let
     msg = Message_new RESULT;
     msg = msg\<lparr>result := (result msg)\<lparr>rm_success := t_success task, rm_task_id := t_id task\<rparr>\<rparr>;
     msg = (if t_type task = WORD_COUNT
            then msg\<lparr>result := (result msg)\<lparr>rm_result := t_result task\<rparr>\<rparr> else msg)
   in msg\<lparr>epoch := ep\<rparr>)"

definition complete_rep_message :: "u64 \<Rightarrow> Task \<Rightarrow> Message" where
  "complete_rep_message ep task = (Message_new COMPLETED_REPLICATE)\<lparr>epoch := ep,
     completed_rep := \<lparr>cr_task_id = t_id task, cr_started_at = started_at task,
       cr_completed_at = completed_at task, cr_worker_id = t_worker_id task,
       cr_result = t_result task, cr_success = t_success task\<rparr>\<rparr>"

definition send_result :: "Env \<Rightarrow> Task \<Rightarrow> Coordinator \<Rightarrow> (bool \<times> Coordinator) option" where
  "send_result env task s = (let
     fd = (case umap_find (client_fds s) (t_client_id task) of None \<Rightarrow> -1 | Some fd \<Rightarrow> fd)
   in case try_push_outgoing env \<lparr>oe_fd = fd, oe_msg = result_message (current_epoch s) task\<rparr> s of
     (ok, s) \<Rightarrow>
     if \<not> ok then Some (False, s)
     else do {
       s \<leftarrow> add_to_log (complete_rep_message (current_epoch s) task) s;
       Some (True, s)
     })"

subsection \<open>Backlogs\<close>

partial_function (option) completed_loop :: "Env \<Rightarrow> Coordinator \<Rightarrow> Coordinator option" where
  "completed_loop env s = (case completed_backlog s of
     [] \<Rightarrow> Some s
   | task_id # rest \<Rightarrow> (case umap_find (tasks s) task_id of
       None \<Rightarrow> completed_loop env (s\<lparr>completed_backlog := rest\<rparr>)
     | Some task \<Rightarrow> do {
         (sent, s) \<leftarrow> send_result env task s;
         if sent then do {
           s \<leftarrow> replicate_log env (s\<lparr>completed_backlog := rest\<rparr>);
           completed_loop env s
         } else Some s
       }))"

partial_function (option) queued_loop :: "Env \<Rightarrow> Coordinator \<Rightarrow> Coordinator option" where
  "queued_loop env s = (case queued_backlog s of
     [] \<Rightarrow> Some s
   | task_id # rest \<Rightarrow> do {
       _ \<leftarrow> umap_find (tasks s) task_id;
       (assigned, s) \<leftarrow> assign_task env task_id s;
       if assigned then do {
         s \<leftarrow> replicate_log env (s\<lparr>queued_backlog := rest\<rparr>);
         queued_loop env s
       } else Some s
     })"

definition process_backlog :: "Env \<Rightarrow> Coordinator \<Rightarrow> Coordinator option" where
  "process_backlog env s = Option.bind (completed_loop env s) (queued_loop env)"

subsection \<open>Submission and completion\<close>

definition submitted_task :: "SubmitMsg \<Rightarrow> u64 \<Rightarrow> Task" where
  "submitted_task m now = (let
     task = Task_new (sm_task_id m) (sm_client_id m) (sm_type m) now
   in case t_type task of
        SYNTHETIC \<Rightarrow> task\<lparr>synthetic_task := \<lparr>duration_us = sm_duration_us m\<rparr>\<rparr>
      | WORD_COUNT \<Rightarrow> task\<lparr>word_count_task := \<lparr>words = sm_words m\<rparr>\<rparr>
      | _ \<Rightarrow> task)"

definition process_submit_event :: "Env \<Rightarrow> IncomingEvent \<Rightarrow> Coordinator \<Rightarrow> Coordinator option" where
  "process_submit_event env event s = do {
     let s = s\<lparr>is_primary := True\<rparr>;
     let submit_msg = submit (ie_msg event);
     let s = s\<lparr>client_fds := umap_assign (sm_client_id submit_msg) (ie_fd event) (client_fds s)\<rparr>;
     case now_ns_u64 env s of (now, s) \<Rightarrow> do {
       let task = submitted_task submit_msg now;
       let s = set_task (t_id task) task s;
       let s = s\<lparr>metrics := record_enqueue (metrics s)\<rparr>;
       (assigned, s) \<leftarrow> assign_task env (t_id task) s;
       let s = (if assigned then s else s\<lparr>queued_backlog := queued_backlog s @ [t_id task]\<rparr>);
       replicate_log env s
     }
   }"

definition completed_task :: "CompleteMsg \<Rightarrow> Task \<Rightarrow> Task" where
  "completed_task m task = (let
     task = task\<lparr>started_at := com_started_at m, completed_at := com_completed_at m,
       t_state := COMPLETED, t_success := com_success m\<rparr>
   in case t_type task of
        WORD_COUNT \<Rightarrow> task\<lparr>t_result := com_result m\<rparr>
      | _ \<Rightarrow> task\<lparr>t_result := 0\<rparr>)"

definition process_complete_event :: "Env \<Rightarrow> IncomingEvent \<Rightarrow> Coordinator \<Rightarrow> Coordinator option" where
  "process_complete_event env event s = (let
     s = s\<lparr>is_primary := True\<rparr>;
     complete_msg = complete (ie_msg event);
     k = com_task_id complete_msg
   in case umap_find (tasks s) k of
     None \<Rightarrow> Some s
   | Some task \<Rightarrow> do {
       let task = completed_task complete_msg task;
       let s = set_task k task s;
       w \<leftarrow> worker_at s (t_worker_id task);
       let w = w\<lparr>running_tasks := uset_erase (t_id task) (running_tasks w)\<rparr>;
       let s = s\<lparr>metrics := record_completion_system (metrics s) task\<rparr>;
       let s = set_worker (t_worker_id task) (record_completion_worker w task) s;
       (sent, s) \<leftarrow> send_result env task s;
       let s = (if sent then s else s\<lparr>completed_backlog := completed_backlog s @ [t_id task]\<rparr>);
       replicate_log env s
     })"

subsection \<open>The invariant of the scheduler\<close>

definition sched_inv :: "Coordinator \<Rightarrow> bool" where
  "sched_inv s \<longleftrightarrow> pool_safe s \<and> tasks_inv s \<and> shared_inv (shared s) \<and> log_inv s"

lemma sched_invD:
  assumes "sched_inv s"
  shows "pool_safe s" "tasks_inv s" "shared_inv (shared s)" "log_inv s"
  using assms by (simp_all add: sched_inv_def)

text \<open>\<open>s'\<close> is \<open>s\<close> after assigning task \<open>k\<close>, which was \<open>t\<close>, to the active worker in place \<open>idx\<close>.\<close>

definition assigned :: "u64 \<Rightarrow> Task \<Rightarrow> nat \<Rightarrow> Coordinator \<Rightarrow> Coordinator \<Rightarrow> bool" where
  "assigned k t idx s s' \<longleftrightarrow> (\<exists>now sh r wp l. let
     wid = active_workers s ! idx;
     w = workers_states s ! unat wid;
     t' = t\<lparr>t_worker_id := wid, t_state := RUNNING, started_at := now\<rparr>
   in s' = s\<lparr>rr_index := (idx + 1) mod length (active_workers s), tasks := umap_assign k t' (tasks s),
        workers_states := (workers_states s)
          [unat wid := w\<lparr>running_tasks := uset_insert (t_id t) (running_tasks w)\<rparr>],
        metrics := record_assignment (metrics s), replication_read_ptr := r,
        replication_write_ptr := wp, replication_log := l, shared := sh\<rparr> \<and>
      shared_inv sh \<and> log_inv s' \<and>
      pending s' = last_n (MAX_LOG_SIZE - 1) (pending s @ [assign_rep_message (current_epoch s) t']) \<and>
      out_stream (s\<lparr>shared := sh\<rparr>) =
        out_stream s @ [\<lparr>oe_fd = ws_fd w, oe_msg = assign_message (current_epoch s) t\<rparr>])"

definition has_room :: "Coordinator \<Rightarrow> nat \<Rightarrow> bool" where
  "has_room s idx \<longleftrightarrow>
     length (running_tasks (workers_states s ! unat (active_workers s ! idx))) < WORKER_MAX_QUEUE_DEPTH"

lemma pending_log_only:
  assumes "log_inv s"
  shows "log_inv (s\<lparr>rr_index := a, tasks := b, workers_states := c, metrics := d, shared := e\<rparr>)"
    "pending (s\<lparr>rr_index := a, tasks := b, workers_states := c, metrics := d, shared := e\<rparr>) = pending s"
  using assms by (simp_all add: log_inv_def pending_def)

lemma assign_loop_full:
  assumes "sched_inv s" and "idx = (rr_index s + i) mod length (active_workers s)"
    and "active_workers s \<noteq> []" and "\<not> has_room s idx"
  shows "assign_loop env k (i # is) s = assign_loop env k is s"
proof -
  have idx: "idx < length (active_workers s)" using assms(2,3) by simp
  then have "unat (active_workers s ! idx) < length (workers_states s)"
    using sched_invD(1)[OF assms(1)] by (auto simp: pool_safe_def)
  then show ?thesis
    using idx assms(2,4) by (simp add: vec_at_def worker_at_def has_room_def Let_def)
qed

lemma assign_loop_room:
  assumes inv: "sched_inv s" and idx: "idx = (rr_index s + i) mod length (active_workers s)"
    and ne: "active_workers s \<noteq> []" and room: "has_room s idx" and t: "umap_find (tasks s) k = Some t"
  shows "\<exists>ok s'. assign_loop env k (i # is) s = Some (ok, s') \<and>
    (if ok then assigned k t idx s s'
     else s' = s\<lparr>shared := shared s'\<rparr> \<and> shared_inv (shared s') \<and> out_stream s' = out_stream s \<and> out_full s \<and> out_full s')"
proof -
  note d = sched_invD[OF inv]
  let ?wid = "active_workers s ! idx"
  let ?w = "workers_states s ! unat ?wid"
  let ?ev = "\<lparr>oe_fd = ws_fd ?w, oe_msg = assign_message (current_epoch s) t\<rparr>"
  have i: "idx < length (active_workers s)" using idx ne by simp
  then have wid: "unat ?wid < length (workers_states s)" using d(1) by (auto simp: pool_safe_def)
  obtain ok s1 where push: "try_push_outgoing env ?ev s = (ok, s1)" by fastforce
  obtain sh where sh: "s1 = s\<lparr>shared := sh\<rparr>" "shared_inv sh"
    "out_stream s1 = out_stream s @ (if ok then [?ev] else [])"
    using try_push_outgoing_eq[OF d(3) push] by blast
  define t' where "t' = t\<lparr>t_worker_id := ?wid, t_state := RUNNING, started_at := now_at env (ticks sh)\<rparr>"
  define s2 where "s2 = s\<lparr>rr_index := (idx + 1) mod length (active_workers s),
    tasks := umap_assign k t' (tasks s), workers_states := (workers_states s)
      [unat ?wid := ?w\<lparr>running_tasks := uset_insert (t_id t) (running_tasks ?w)\<rparr>],
    metrics := record_assignment (metrics s), shared := tick sh\<rparr>"
  have step: "assign_loop env k (i # is) s = (if ok then
      Option.bind (add_to_log (assign_rep_message (current_epoch s) t') s2) (\<lambda>s. Some (True, s))
      else Some (False, s1))"
    using idx i wid room t push sh(1)
    by (simp add: vec_at_def worker_at_def has_room_def Let_def now_ns_eq set_task_def
        set_worker_def s2_def t'_def)
  show ?thesis
  proof (cases ok)
    case False
    then have "out_full s \<and> out_full s1" using try_push_outgoing_fails[OF d(3)] push by simp
    then show ?thesis using False step sh by auto
  next
    case True
    have log2: "log_inv s2" "pending s2 = pending s"
      using pending_log_only[OF d(4)] by (simp_all add: s2_def)
    obtain r wp l where add: "add_to_log (assign_rep_message (current_epoch s) t') s2 =
        Some (s2\<lparr>replication_read_ptr := r, replication_write_ptr := wp, replication_log := l\<rparr>)"
      "log_inv (s2\<lparr>replication_read_ptr := r, replication_write_ptr := wp, replication_log := l\<rparr>)"
      "pending (s2\<lparr>replication_read_ptr := r, replication_write_ptr := wp, replication_log := l\<rparr>) =
        last_n (MAX_LOG_SIZE - 1) (pending s2 @ [assign_rep_message (current_epoch s) t'])"
      using add_to_log_eq[OF log2(1)] by blast
    have "assigned k t idx s (s2\<lparr>replication_read_ptr := r, replication_write_ptr := wp, replication_log := l\<rparr>)"
      unfolding assigned_def Let_def using add(2,3) log2 sh True
      by (intro exI[of _ "now_at env (ticks sh)"] exI[of _ "tick sh"] exI[of _ r] exI[of _ wp] exI[of _ l])
        (simp add: s2_def t'_def out_stream_def)
    then show ?thesis using True step add(1) by auto
  qed
qed

definition only_shared :: "Coordinator \<Rightarrow> Coordinator \<Rightarrow> bool" where
  "only_shared s s' \<longleftrightarrow> s' = s\<lparr>shared := shared s'\<rparr> \<and> shared_inv (shared s') \<and> out_stream s' = out_stream s"

definition rr_place :: "Coordinator \<Rightarrow> nat \<Rightarrow> nat" where
  "rr_place s i = (rr_index s + i) mod length (active_workers s)"

lemma assign_loop_cases:
  assumes inv: "sched_inv s" and t: "umap_find (tasks s) k = Some t"
    and ne: "is \<noteq> [] \<longrightarrow> active_workers s \<noteq> []"
  shows "\<exists>ok s'. assign_loop env k is s = Some (ok, s') \<and>
    (if ok then \<exists>pre i post. is = pre @ i # post \<and> (\<forall>j\<in>set pre. \<not> has_room s (rr_place s j)) \<and>
         has_room s (rr_place s i) \<and> assigned k t (rr_place s i) s s'
     else only_shared s s' \<and> ((\<forall>j\<in>set is. \<not> has_room s (rr_place s j)) \<or> out_full s \<and> out_full s'))"
  using ne
proof (induction "is")
  case Nil
  then show ?case using sched_invD(3)[OF inv] by (intro exI[of _ False] exI[of _ s]) (simp add: only_shared_def)
next
  case (Cons i "is")
  have act: "active_workers s \<noteq> []" using Cons.prems by simp
  show ?case
  proof (cases "has_room s (rr_place s i)")
    case True
    obtain ok s' where *: "assign_loop env k (i # is) s = Some (ok, s')"
      "if ok then assigned k t (rr_place s i) s s'
       else s' = s\<lparr>shared := shared s'\<rparr> \<and> shared_inv (shared s') \<and> out_stream s' = out_stream s \<and> out_full s \<and> out_full s'"
      using assign_loop_room[OF inv rr_place_def act True t] by blast
    show ?thesis
    proof (cases ok)
      case True
      then show ?thesis
        using * \<open>has_room s (rr_place s i)\<close>
        by (intro exI[of _ ok] exI[of _ s']) (auto intro!: exI[of _ "[]"])
    next
      case False
      then show ?thesis using * by (intro exI[of _ ok] exI[of _ s']) (simp add: only_shared_def)
    qed
  next
    case False
    obtain ok s' where *: "assign_loop env k is s = Some (ok, s')"
      "if ok then \<exists>pre j post. is = pre @ j # post \<and> (\<forall>j\<in>set pre. \<not> has_room s (rr_place s j)) \<and>
         has_room s (rr_place s j) \<and> assigned k t (rr_place s j) s s'
       else only_shared s s' \<and> ((\<forall>j\<in>set is. \<not> has_room s (rr_place s j)) \<or> out_full s \<and> out_full s')"
      using Cons.IH act by blast
    have step: "assign_loop env k (i # is) s = Some (ok, s')"
      using assign_loop_full[OF inv rr_place_def act False] *(1) by (simp only:)
    show ?thesis
    proof (cases ok)
      case True
      then obtain pre j post where "is = pre @ j # post" "\<forall>j\<in>set pre. \<not> has_room s (rr_place s j)"
        "has_room s (rr_place s j)" "assigned k t (rr_place s j) s s'" using *(2) by auto
      then have "i # is = (i # pre) @ j # post \<and> (\<forall>j\<in>set (i # pre). \<not> has_room s (rr_place s j)) \<and>
          has_room s (rr_place s j) \<and> assigned k t (rr_place s j) s s'" using False by simp
      then show ?thesis using step True by (intro exI[of _ ok] exI[of _ s']) (simp only: if_True, blast)
    next
      case not_ok: False
      then show ?thesis using step *(2) False by (intro exI[of _ ok] exI[of _ s']) simp
    qed
  qed
qed

lemma assigned_inv:
  assumes inv: "sched_inv s" and t: "umap_find (tasks s) k = Some t" and room: "has_room s idx"
    and idx: "idx < length (active_workers s)" and a: "assigned k t idx s s'"
  shows "sched_inv s'"
proof -
  note d = sched_invD[OF inv]
  define wid where "wid = active_workers s ! idx"
  define w where "w = workers_states s ! unat wid"
  obtain now sh r wp l where s': "s' = s\<lparr>rr_index := (idx + 1) mod length (active_workers s),
      tasks := umap_assign k (t\<lparr>t_worker_id := wid, t_state := RUNNING, started_at := now\<rparr>) (tasks s),
      workers_states := (workers_states s)[unat wid := w\<lparr>running_tasks := uset_insert (t_id t) (running_tasks w)\<rparr>],
      metrics := record_assignment (metrics s), replication_read_ptr := r,
      replication_write_ptr := wp, replication_log := l, shared := sh\<rparr>"
    "shared_inv sh" "log_inv s'"
    using a unfolding assigned_def Let_def wid_def w_def by blast
  have k: "t_id t = k" "k \<in> umap_keys (tasks s)"
    using d(2) t by (simp_all add: tasks_inv_def umap_keys_iff)
  have wid: "unat wid < length (workers_states s)"
    using d(1) idx by (auto simp: pool_safe_def wid_def)
  then have w: "worker_ok (tasks s) w" using d(2) by (simp add: tasks_inv_def w_def)
  have keys: "umap_keys (umap_assign k v (tasks s)) = umap_keys (tasks s)" for v
    using k(2) by auto
  have "worker_ok (tasks s) (w\<lparr>running_tasks := uset_insert (t_id t) (running_tasks w)\<rparr>)"
    using w k room length_uset_insert_le[of "t_id t" "running_tasks w"]
    by (auto simp: worker_ok_def has_room_def w_def wid_def)
  then have "\<forall>v\<in>set (workers_states s'). worker_ok (tasks s') v"
    using d(2) by (auto simp: s'(1) tasks_inv_def worker_ok_def keys
        dest!: set_update_subset_insert[THEN subsetD])
  moreover have "umap_ok (tasks s')" "\<forall>k t. umap_find (tasks s') k = Some t \<longrightarrow> t_id t = k"
    "set (queued_backlog s') \<subseteq> umap_keys (tasks s')"
    using d(2) k by (auto simp: s'(1) tasks_inv_def umap_ok_assign umap_find_assign)
  ultimately have "tasks_inv s'" by (simp add: tasks_inv_def)
  moreover have "pool_safe s'" using d(1) by (simp add: s'(1) pool_safe_def)
  ultimately show ?thesis using s' by (simp add: sched_inv_def)
qed

lemma only_shared_inv: "sched_inv s \<Longrightarrow> only_shared s s' \<Longrightarrow> sched_inv s'"
proof -
  assume inv: "sched_inv s" and o: "only_shared s s'"
  obtain sh where "s' = s\<lparr>shared := sh\<rparr>" "shared_inv sh" using o by (auto simp: only_shared_def)
  then show "sched_inv s'" using inv by (simp add: sched_inv_def)
qed

lemma assign_task_cases:
  assumes inv: "sched_inv s" and t: "umap_find (tasks s) k = Some t"
  shows "\<exists>ok s'. assign_task env k s = Some (ok, s') \<and> sched_inv s' \<and>
    (if ok then \<exists>i<length (active_workers s). (\<forall>j<i. \<not> has_room s (rr_place s j)) \<and>
         has_room s (rr_place s i) \<and> assigned k t (rr_place s i) s s'
     else only_shared s s' \<and>
       ((\<forall>j<length (active_workers s) mod 2 ^ 32. \<not> has_room s (rr_place s j)) \<or> out_full s \<and> out_full s'))"
proof -
  let ?n = "length (active_workers s)"
  have n: "unat (of_nat ?n :: u32) = ?n mod 2 ^ 32" by (simp add: unat_of_nat)
  have le: "?n mod 2 ^ 32 \<le> ?n" by simp
  have ne: "[0..<?n mod 2 ^ 32] \<noteq> [] \<longrightarrow> active_workers s \<noteq> []" by auto
  obtain ok s' where *: "assign_task env k s = Some (ok, s')"
    "if ok then \<exists>pre i post. [0..<?n mod 2 ^ 32] = pre @ i # post \<and>
         (\<forall>j\<in>set pre. \<not> has_room s (rr_place s j)) \<and> has_room s (rr_place s i) \<and> assigned k t (rr_place s i) s s'
     else only_shared s s' \<and> ((\<forall>j\<in>set [0..<?n mod 2 ^ 32]. \<not> has_room s (rr_place s j)) \<or> out_full s \<and> out_full s')"
    using assign_loop_cases[OF inv t ne, of env] unfolding assign_task_def Let_def n by blast
  show ?thesis
  proof (cases ok)
    case False
    then show ?thesis using * only_shared_inv[OF inv] by (intro exI[of _ ok] exI[of _ s']) auto
  next
    case True
    then obtain pre i post where i: "[0..<?n mod 2 ^ 32] = pre @ i # post"
      "\<forall>j\<in>set pre. \<not> has_room s (rr_place s j)" "has_room s (rr_place s i)"
      "assigned k t (rr_place s i) s s'" using *(2) by auto
    have "i < ?n mod 2 ^ 32 \<and> pre = [0..<i]"
      using i(1) by (rule upt_split)
    then have "i < ?n" "set pre = {0..<i}" using le by auto
    moreover have "rr_place s i < ?n"
      unfolding rr_place_def using \<open>i < ?n\<close> by (intro mod_less_divisor) linarith
    ultimately have "i < ?n \<and> (\<forall>j<i. \<not> has_room s (rr_place s j)) \<and> sched_inv s'"
      using i(2) assigned_inv[OF inv t i(3) _ i(4)] by auto
    then show ?thesis using *(1) True i(3,4) by (intro exI[of _ ok] exI[of _ s']) auto
  qed
qed

subsection \<open>Changes of the log and the queues only\<close>

text \<open>
  Pushing, logging and \<^verbatim>\<open>replicate\<close> change nothing but the replication log and the shared
  queues, and only extend the outgoing stream.
\<close>

definition log_only :: "Coordinator \<Rightarrow> Coordinator \<Rightarrow> bool" where
  "log_only s s' \<longleftrightarrow> (\<exists>r wp l sh. s' = s\<lparr>replication_read_ptr := r, replication_write_ptr := wp,
     replication_log := l, shared := sh\<rparr>) \<and> log_inv s' \<and> shared_inv (shared s') \<and>
     (\<exists>evs. out_stream s' = out_stream s @ evs)"

lemma log_only_fields:
  assumes "log_only s s'"
  shows "tasks s' = tasks s" "workers_states s' = workers_states s" "active_workers s' = active_workers s"
    "available_ids s' = available_ids s" "queued_backlog s' = queued_backlog s"
    "completed_backlog s' = completed_backlog s" "current_epoch s' = current_epoch s"
    "client_fds s' = client_fds s" "early_complete_reps s' = early_complete_reps s"
    "is_primary s' = is_primary s" "metrics s' = metrics s" "rr_index s' = rr_index s"
    "last_sweep s' = last_sweep s"
  using assms by (auto simp: log_only_def)

lemma log_only_out: "log_only s s' \<Longrightarrow> set (out_stream s) \<subseteq> set (out_stream s')"
  by (auto simp: log_only_def)

lemma log_only_sched:
  assumes "sched_inv s" and "log_only s s'"
  shows "sched_inv s'"
  using assms by (auto simp: log_only_def sched_inv_def pool_safe_def tasks_inv_def)

lemma replicate_log_only:
  assumes "sched_inv s"
  shows "\<exists>s'. replicate_log env s = Some s' \<and> log_only s s' \<and> sched_inv s'"
proof -
  obtain r sh k where *: "replicate_log env s = Some (s\<lparr>replication_read_ptr := r, shared := sh\<rparr>)"
    "shared_inv sh" "log_inv (s\<lparr>replication_read_ptr := r\<rparr>)"
    "out_stream (s\<lparr>shared := sh\<rparr>) = out_stream s @ map rep_event (take k (pending s))"
    using replicate_log_eq[OF sched_invD(4,3)[OF assms], of env] by blast
  have "log_only s (s\<lparr>replication_read_ptr := r, shared := sh\<rparr>)"
    unfolding log_only_def
    using * by (intro conjI exI[of _ r] exI[of _ "replication_write_ptr s"] exI[of _ "replication_log s"]
        exI[of _ sh] exI[of _ "map rep_event (take k (pending s))"]) (simp_all add: out_stream_def)
  then show ?thesis using *(1) log_only_sched[OF assms] by blast
qed

definition client_fd :: "Coordinator \<Rightarrow> Task \<Rightarrow> int" where
  "client_fd s t = (case umap_find (client_fds s) (t_client_id t) of None \<Rightarrow> -1 | Some fd \<Rightarrow> fd)"

definition result_event :: "Coordinator \<Rightarrow> Task \<Rightarrow> OutgoingEvent" where
  "result_event s t = \<lparr>oe_fd = client_fd s t, oe_msg = result_message (current_epoch s) t\<rparr>"

lemma send_result_cases:
  assumes inv: "sched_inv s"
  shows "\<exists>ok s'. send_result env t s = Some (ok, s') \<and> log_only s s' \<and> sched_inv s' \<and>
    out_stream s' = out_stream s @ (if ok then [result_event s t] else []) \<and>
    pending s' = (if ok then last_n (MAX_LOG_SIZE - 1)
      (pending s @ [complete_rep_message (current_epoch s) t]) else pending s) \<and> (\<not> ok \<longrightarrow> out_full s \<and> out_full s')"
proof -
  note d = sched_invD[OF inv]
  obtain ok s1 where push: "try_push_outgoing env (result_event s t) s = (ok, s1)" by fastforce
  obtain sh where s1: "s1 = s\<lparr>shared := sh\<rparr>" "shared_inv sh"
    "out_stream s1 = out_stream s @ (if ok then [result_event s t] else [])"
    using try_push_outgoing_eq[OF d(3) push] by blast
  have step: "send_result env t s = (if ok then Option.bind
      (add_to_log (complete_rep_message (current_epoch s) t) s1) (\<lambda>s. Some (True, s)) else Some (False, s1))"
    using push s1(1) by (simp add: send_result_def Let_def result_event_def client_fd_def)
  show ?thesis
  proof (cases ok)
    case False
    have "log_only s s1"
      unfolding log_only_def s1(1)
      using s1(2,3) d(4) False
      by (intro conjI exI[of _ "replication_read_ptr s"] exI[of _ "replication_write_ptr s"]
          exI[of _ "replication_log s"] exI[of _ sh] exI[of _ "[]"]) (simp_all add: s1(1))
    then show ?thesis
      using False step s1 push try_push_outgoing_fails[OF d(3)] log_only_sched[OF inv]
      by (intro exI[of _ ok] exI[of _ s1]) simp
  next
    case True
    have l1: "log_inv s1" "pending s1 = pending s" using d(4) by (simp_all add: s1(1))
    obtain r wp l where add: "add_to_log (complete_rep_message (current_epoch s) t) s1 =
        Some (s1\<lparr>replication_read_ptr := r, replication_write_ptr := wp, replication_log := l\<rparr>)"
      "log_inv (s1\<lparr>replication_read_ptr := r, replication_write_ptr := wp, replication_log := l\<rparr>)"
      "pending (s1\<lparr>replication_read_ptr := r, replication_write_ptr := wp, replication_log := l\<rparr>) =
        last_n (MAX_LOG_SIZE - 1) (pending s1 @ [complete_rep_message (current_epoch s) t])"
      using add_to_log_eq[OF l1(1)] by blast
    define s2 where "s2 = s1\<lparr>replication_read_ptr := r, replication_write_ptr := wp, replication_log := l\<rparr>"
    have out: "out_stream s2 = out_stream s @ [result_event s t]"
      using s1 True by (simp add: s2_def out_stream_def)
    have "log_only s s2"
      unfolding log_only_def
      using add(2) s1(1,2) out
      by (intro conjI exI[of _ r] exI[of _ wp] exI[of _ l] exI[of _ sh] exI[of _ "[result_event s t]"])
        (simp_all add: s2_def)
    then show ?thesis
      using True step add l1 out log_only_sched[OF inv]
      by (intro exI[of _ ok] exI[of _ s2]) (simp add: s2_def)
  qed
qed

end
