(* ===== verification/Failure_Detection.thy ===== *)
theory Failure_Detection
  imports Worker_Pool Replication_Log
begin

text \<open>
  What the worker pool promises the scheduler: which workers a sweep removes and where their
  tasks go, what a registration does, and what a heartbeat from a worker that has already
  been removed leads to.
\<close>

subsection \<open>What a sweep does\<close>

definition late :: "u64 \<Rightarrow> WorkerState \<Rightarrow> bool" where
  "late now w \<longleftrightarrow> alive w \<and> \<not> now - last_heartbeat_ns w \<le> HEARTBEAT_TIMEOUT_NS"

definition lost_tasks :: "u64 \<Rightarrow> Coordinator \<Rightarrow> u32 list \<Rightarrow> u64 list" where
  "lost_tasks now s ids = concat (map (\<lambda>i. running_tasks (workers_states s ! unat i))
     (filter (\<lambda>i. late now (workers_states s ! unat i)) ids))"

text \<open>The state \<open>s'\<close> is \<open>s\<close> after the timeout check of the workers \<open>ids\<close> at time \<open>now\<close>.\<close>

definition swept :: "u64 \<Rightarrow> u32 list \<Rightarrow> Coordinator \<Rightarrow> Coordinator \<Rightarrow> bool" where
  "swept now ids s s' \<longleftrightarrow> length (workers_states s') = length (workers_states s) \<and>
     queued_backlog s' = queued_backlog s @ lost_tasks now s ids \<and>
     (\<forall>k. umap_find (tasks s') k = (if k \<in> set (lost_tasks now s ids)
        then map_option (\<lambda>t. t\<lparr>t_state := QUEUED\<rparr>) (umap_find (tasks s) k) else umap_find (tasks s) k)) \<and>
     (\<forall>i. unat i < length (workers_states s) \<longrightarrow>
        last_heartbeat_ns (workers_states s' ! unat i) = last_heartbeat_ns (workers_states s ! unat i) \<and>
        (if i \<in> set ids \<and> late now (workers_states s ! unat i)
         then \<not> alive (workers_states s' ! unat i)
         else alive (workers_states s' ! unat i) = alive (workers_states s ! unat i) \<and>
           running_tasks (workers_states s' ! unat i) = running_tasks (workers_states s ! unat i)))"

lemma is_alive_swept:
  assumes inv: "tasks_inv s" "pool_inv s" and i: "unat i < length (workers_states s)"
    and now: "\<forall>n. now_at env n = now" and r: "is_alive env i s = Some (b, s')"
  shows "swept now [i] s s'"
proof (cases "late now (workers_states s ! unat i)")
  case False
  then have "is_alive env i s = Some (False, s) \<or> is_alive env i s = Some (True, s\<lparr>shared := tick (shared s)\<rparr>)"
    using is_alive_quiet[OF i, of env] now by (auto simp: late_def)
  then have "s' = s \<or> s' = s\<lparr>shared := tick (shared s)\<rparr>"
    unfolding r option.inject prod.inject by blast
  then show ?thesis
    using False by (elim disjE) (simp_all add: swept_def lost_tasks_def)
next
  case True
  then have "alive (workers_states s ! unat i)"
    "\<not> now_at env (ticks (shared s)) - last_heartbeat_ns (workers_states s ! unat i) \<le> HEARTBEAT_TIMEOUT_NS"
    using now by (simp_all add: late_def)
  from is_alive_pool[OF inv i this] obtain A W T where *:
    "is_alive env i s = Some (False, timed_out i A W T s)" "same_workers (workers_states s) W"
    "requeued (running_tasks (workers_states s ! unat i)) (tasks s) T"
    by blast
  then have s': "s' = timed_out i A W T s" using r by simp
  have w: "last_heartbeat_ns (workers_states s' ! unat k) = last_heartbeat_ns (workers_states s ! unat k) \<and>
      (if k \<in> set [i] \<and> late now (workers_states s ! unat k) then \<not> alive (workers_states s' ! unat k)
       else alive (workers_states s' ! unat k) = alive (workers_states s ! unat k) \<and>
         running_tasks (workers_states s' ! unat k) = running_tasks (workers_states s ! unat k))"
    if k: "unat k < length (workers_states s)" for k
  proof (cases "k = i")
    case True
    then show ?thesis
      using \<open>late now (workers_states s ! unat i)\<close> same_workersD(3)[OF *(2) i] *(2) i
      by (simp add: s' timed_out_def same_workers_def mark_dead_def)
  next
    case False
    then have "unat k \<noteq> unat i" by (simp add: word_unat_eq_iff)
    then show ?thesis
      using False same_workersD[OF *(2) k] by (simp add: s' timed_out_def)
  qed
  have lost: "lost_tasks now s [i] = running_tasks (workers_states s ! unat i)"
    using True by (simp add: lost_tasks_def)
  have t: "umap_find (tasks s') k = (if k \<in> set (lost_tasks now s [i])
      then map_option (\<lambda>t. t\<lparr>t_state := QUEUED\<rparr>) (umap_find (tasks s) k) else umap_find (tasks s) k)" for k
    using *(3) unfolding lost by (simp add: s' timed_out_def requeued_def)
  have q: "queued_backlog s' = queued_backlog s @ lost_tasks now s [i]"
    "length (workers_states s') = length (workers_states s)"
    using *(2) unfolding lost by (simp_all add: s' timed_out_def same_workers_def)
  show ?thesis unfolding swept_def using w t q by blast
qed

lemma swept_lost:
  assumes "swept now [i] s s1" and "i \<notin> set ids" and "\<forall>k\<in>set ids. unat k < length (workers_states s)"
  shows "lost_tasks now s1 ids = lost_tasks now s ids"
    and "k \<in> set ids \<Longrightarrow> late now (workers_states s1 ! unat k) = late now (workers_states s ! unat k)"
proof -
  have same: "last_heartbeat_ns (workers_states s1 ! unat k) = last_heartbeat_ns (workers_states s ! unat k)"
    "alive (workers_states s1 ! unat k) = alive (workers_states s ! unat k)"
    "running_tasks (workers_states s1 ! unat k) = running_tasks (workers_states s ! unat k)"
    if "k \<in> set ids" for k
  proof -
    have "k \<noteq> i" "unat k < length (workers_states s)" using that assms(2,3) by auto
    with assms(1) show "last_heartbeat_ns (workers_states s1 ! unat k) = last_heartbeat_ns (workers_states s ! unat k)"
      "alive (workers_states s1 ! unat k) = alive (workers_states s ! unat k)"
      "running_tasks (workers_states s1 ! unat k) = running_tasks (workers_states s ! unat k)"
      by (simp_all add: swept_def)
  qed
  then show late: "late now (workers_states s1 ! unat k) = late now (workers_states s ! unat k)"
    if "k \<in> set ids" for k using that by (simp add: late_def)
  have "filter (\<lambda>k. late now (workers_states s1 ! unat k)) ids = filter (\<lambda>k. late now (workers_states s ! unat k)) ids"
    using late by (intro filter_cong) simp_all
  then show "lost_tasks now s1 ids = lost_tasks now s ids"
    using same by (auto simp: lost_tasks_def intro!: arg_cong[of _ _ concat])
qed

lemma swept_alive:
  assumes "swept now ids s s'" and "unat i < length (workers_states s)" and "i \<in> set ids"
  shows "alive (workers_states s' ! unat i) \<longleftrightarrow>
    alive (workers_states s ! unat i) \<and> \<not> late now (workers_states s ! unat i)"
proof (cases "late now (workers_states s ! unat i)")
  case True
  then show ?thesis using assms unfolding swept_def by simp
next
  case False
  then show ?thesis using assms unfolding swept_def by simp
qed

lemma swept_Cons:
  assumes a: "swept now [i] s s1" and b: "swept now ids s1 s'"
    and i: "i \<notin> set ids" "unat i < length (workers_states s)"
    and ids: "\<forall>k\<in>set ids. unat k < length (workers_states s)"
  shows "swept now (i # ids) s s'"
proof -
  note lost = swept_lost[OF a i(1) ids]
  have split: "lost_tasks now s (i # ids) = lost_tasks now s [i] @ lost_tasks now s ids"
    by (simp add: lost_tasks_def)
  have w: "last_heartbeat_ns (workers_states s' ! unat k) = last_heartbeat_ns (workers_states s ! unat k) \<and>
      (if k \<in> set (i # ids) \<and> late now (workers_states s ! unat k)
       then \<not> alive (workers_states s' ! unat k)
       else alive (workers_states s' ! unat k) = alive (workers_states s ! unat k) \<and>
         running_tasks (workers_states s' ! unat k) = running_tasks (workers_states s ! unat k))"
    if k: "unat k < length (workers_states s)" for k
  proof -
    have k1: "unat k < length (workers_states s1)" using a k by (simp add: swept_def)
    show ?thesis
    proof (cases "k \<in> set ids")
      case True
      then show ?thesis
        using a b k k1 i lost(2)[OF True] unfolding swept_def by (cases "k = i") auto
    next
      case False
      then show ?thesis
        using a b k k1 unfolding swept_def by (cases "k = i") auto
    qed
  qed
  have t: "umap_find (tasks s') k = (if k \<in> set (lost_tasks now s (i # ids))
      then map_option (\<lambda>t. t\<lparr>t_state := QUEUED\<rparr>) (umap_find (tasks s) k) else umap_find (tasks s) k)" for k
    using a b unfolding swept_def split lost(1) by (simp add: option.map_comp comp_def)
  have q: "queued_backlog s' = queued_backlog s @ lost_tasks now s (i # ids)"
    "length (workers_states s') = length (workers_states s)"
    using a b unfolding swept_def split lost(1) by simp_all
  show ?thesis unfolding swept_def using w t q by blast
qed

lemma sweep_loop_swept:
  assumes "tasks_inv s" "pool_inv s" and "\<forall>i\<in>set ids. unat i < length (workers_states s)"
    and "distinct ids" and now: "\<forall>n. now_at env n = now"
    and "sweep_loop env ids s = Some s'"
  shows "swept now ids s s'"
  using assms(1-4,6)
proof (induction ids arbitrary: s)
  case Nil
  then show ?case by (simp add: swept_def lost_tasks_def)
next
  case (Cons i ids)
  have i: "unat i < length (workers_states s)" using Cons.prems(3) by simp
  obtain b s1 where s1: "is_alive env i s = Some (b, s1)" "sweep_loop env ids s1 = Some s'"
    using Cons.prems(5) by (auto simp: bind_eq_Some_conv)
  note d = is_alive_SomeD[OF Cons.prems(1) pool_inv_safe[OF Cons.prems(2)] i s1(1)]
  have ids: "i \<notin> set ids" "distinct ids" "\<forall>k\<in>set ids. unat k < length (workers_states s)"
    using Cons.prems(3,4) by simp_all
  then have "\<forall>k\<in>set ids. unat k < length (workers_states s1)" using d(3) by simp
  then have "swept now ids s1 s'"
    by (rule Cons.IH[OF d(1) is_alive_pool_inv[OF Cons.prems(1,2) i s1(1)] _ ids(2) s1(2)])
  then show ?case
    by (rule swept_Cons[OF is_alive_swept[OF Cons.prems(1,2) i now s1(1)] _ ids(1) i ids(3)])
qed

subsection \<open>Properties\<close>

text \<open>C12:
  A sweep detects exactly the dead workers and loses none of their tasks: afterwards the
  active workers are those whose last heartbeat is at most one second old, every task that
  was running on a removed worker is queued again and stands in the backlog, no other task
  has changed, and the invariants of the pool and of the task table hold. (The clock is
  taken to read the same throughout the sweep.)
\<close>

theorem sweep_requeues_lost_tasks:
  assumes "pool_inv s" and "tasks_inv s" and "\<forall>n. now_at env n = now"
  shows "\<exists>s' lost. sweep_workers env s = Some s' \<and> pool_inv s' \<and> tasks_inv s' \<and>
    (\<forall>i. i \<in> set (active_workers s') \<longleftrightarrow> i \<in> set (active_workers s) \<and>
       now - last_heartbeat_ns (workers_states s ! unat i) \<le> 1000000000) \<and>
    (\<forall>k. k \<in> set lost \<longleftrightarrow> (\<exists>i\<in>set (active_workers s) - set (active_workers s').
       k \<in> set (running_tasks (workers_states s ! unat i)))) \<and>
    queued_backlog s' = queued_backlog s @ lost \<and>
    (\<forall>k. umap_find (tasks s') k = (if k \<in> set lost
       then map_option (\<lambda>t. t\<lparr>t_state := QUEUED\<rparr>) (umap_find (tasks s) k) else umap_find (tasks s) k))"
proof -
  let ?ids = "map of_nat [0..<unat (of_nat (length (workers_states s)) :: u32)] :: u32 list"
  have len: "length (workers_states s) < 2 ^ 32" using assms(1) by (simp add: pool_inv_def)
  obtain s' where s': "sweep_workers env s = Some s'" "tasks_inv s'" "pool_inv s'"
    using sweep_workers_safe[OF assms(2) pool_inv_safe[OF assms(1)], of env] assms(1) by blast
  have ids: "set ?ids = {i. unat i < length (workers_states s)}" "distinct ?ids"
    by (rule sweep_ids(2)[OF len], rule sweep_ids(3)[OF len])
  have sw: "swept now ?ids s s'"
    by (rule sweep_loop_swept[OF assms(2,1) sweep_ids(1)[OF len] ids(2) assms(3)
          s'(1)[unfolded sweep_workers_def Let_def]])
  note active = pool_inv_active_iff
  have keep: "i \<in> set (active_workers s') \<longleftrightarrow> i \<in> set (active_workers s) \<and> \<not> late now (workers_states s ! unat i)" for i
  proof -
    have "length (workers_states s') = length (workers_states s)" using sw by (simp add: swept_def)
    then show ?thesis
      using swept_alive[OF sw, of i] ids(1) unfolding active[OF assms(1)] active[OF s'(3)] by auto
  qed
  have lost: "k \<in> set (lost_tasks now s ?ids) \<longleftrightarrow> (\<exists>i\<in>set (active_workers s) - set (active_workers s').
      k \<in> set (running_tasks (workers_states s ! unat i)))" for k
    using keep active[OF assms(1)] ids(1) by (auto simp: lost_tasks_def late_def)
  have "i \<in> set (active_workers s') \<longleftrightarrow> i \<in> set (active_workers s) \<and>
      now - last_heartbeat_ns (workers_states s ! unat i) \<le> 1000000000" for i
    using keep[of i] active[OF assms(1), of i] by (auto simp: late_def HEARTBEAT_TIMEOUT_NS_def)
  then show ?thesis
    using s' sw lost unfolding swept_def by blast
qed

text \<open>Worker 0 has been silent for two seconds and runs task 7; worker 1 is alive.\<close>

definition two_workers :: Coordinator where
  "two_workers = Coordinator_init\<lparr>
     tasks := [(7, (Task_new 7 1 SYNTHETIC 5)\<lparr>t_state := RUNNING\<rparr>)],
     workers_states := [(WorkerState_new 4 0)\<lparr>running_tasks := [7]\<rparr>,
       (WorkerState_new 5 2000000000)\<lparr>active_index := 1\<rparr>],
     active_workers := [0, 1]\<rparr>"

definition clock_2s :: Env where
  "clock_2s = \<lparr>now_at = \<lambda>_. 2000000000, drain_at = \<lambda>_. 0, control_at = \<lambda>_. [], task_at = \<lambda>_. []\<rparr>"

lemma unat_less_2: "unat (i :: u32) < Suc (Suc 0) \<longleftrightarrow> i = 0 \<or> i = 1"
proof -
  have "unat i = 0 \<longleftrightarrow> i = 0" "unat i = 1 \<longleftrightarrow> i = 1"
    by (simp_all add: word_unat_eq_iff)
  then show ?thesis by auto
qed

lemma all_less_2: "(\<forall>j<Suc (Suc 0). P j) \<longleftrightarrow> P 0 \<and> P 1"
  by (auto simp: less_Suc_eq)

lemma two_workers_inv: "pool_inv two_workers \<and> tasks_inv two_workers"
proof
  show "pool_inv two_workers"
    by (auto simp: pool_inv_def index_ok_def two_workers_def Coordinator_init_def
        WorkerState_new_def unat_less_2 all_less_2)
  show "tasks_inv two_workers"
    by (auto simp: tasks_inv_def worker_ok_def two_workers_def Coordinator_init_def umap_ok_def
        umap_find_def umap_keys_def WorkerState_new_def Task_new_def Task_default_def
        WORKER_MAX_QUEUE_DEPTH_def WORKER_QUEUE_CAPACITY_def split: if_splits)
qed

theorem sweep_requeues_lost_tasks_witness:
  "\<exists>s'. sweep_workers clock_2s two_workers = Some s' \<and> set (active_workers s') = {1} \<and>
     map_option t_state (umap_find (tasks s') 7) = Some QUEUED \<and> 7 \<in> set (queued_backlog s')"
proof -
  have run: "set (active_workers two_workers) = {0, 1}"
    "running_tasks (workers_states two_workers ! 0) = [7]"
    "last_heartbeat_ns (workers_states two_workers ! 0) = 0"
    "last_heartbeat_ns (workers_states two_workers ! 1) = 2000000000"
    "\<exists>t. umap_find (tasks two_workers) 7 = Some t"
    by (simp_all add: two_workers_def WorkerState_new_def umap_find_def)
  have now: "\<forall>n. now_at clock_2s n = 2000000000" by (simp add: clock_2s_def)
  obtain s' lost where *: "sweep_workers clock_2s two_workers = Some s'"
    "\<forall>i. i \<in> set (active_workers s') \<longleftrightarrow> i \<in> set (active_workers two_workers) \<and>
       2000000000 - last_heartbeat_ns (workers_states two_workers ! unat i) \<le> 1000000000"
    "\<forall>k. k \<in> set lost \<longleftrightarrow> (\<exists>i\<in>set (active_workers two_workers) - set (active_workers s').
       k \<in> set (running_tasks (workers_states two_workers ! unat i)))"
    "queued_backlog s' = queued_backlog two_workers @ lost"
    "\<forall>k. umap_find (tasks s') k = (if k \<in> set lost
       then map_option (\<lambda>t. t\<lparr>t_state := QUEUED\<rparr>) (umap_find (tasks two_workers) k)
       else umap_find (tasks two_workers) k)"
    using sweep_requeues_lost_tasks[OF two_workers_inv[THEN conjunct1] two_workers_inv[THEN conjunct2] now]
    by blast
  have act: "set (active_workers s') = {1}"
    using *(2) run by (auto split: if_splits)
  moreover have "(0 :: u32) \<in> {0, 1} - {1}" by simp
  ultimately have "7 \<in> set lost"
    using *(3) run(1,2) unat_0 by (metis list.set_intros(1))
  then show ?thesis using *(1,4,5) act run(5) by auto
qed

text \<open>
  Registration gives out a fresh id and tells the worker: it never faults and keeps the
  invariants; either the acknowledgement does not fit into the outgoing queue and nothing
  but the shared queues changes, or it is sent to the worker's descriptor and carries an id
  that no active worker has, and the worker with that id is alive, active and the last in
  the order of assignment.
\<close>

theorem register_fresh_id:
  assumes "pool_inv s" and "tasks_inv s" and "shared_inv (shared s)"
    and "available_ids s = [] \<longrightarrow> Suc (length (workers_states s)) < 2 ^ 32"
  shows "\<exists>s'. process_register_event env ev s = Some s' \<and> pool_inv s' \<and> tasks_inv s' \<and>
    shared_inv (shared s') \<and> tasks s' = tasks s \<and>
    (s' = s\<lparr>shared := shared s'\<rparr> \<and> out_stream s' = out_stream s \<or>
     (\<exists>i. i \<notin> set (active_workers s) \<and> active_workers s' = active_workers s @ [i] \<and>
        alive (workers_states s' ! unat i) \<and> ws_fd (workers_states s' ! unat i) = ie_fd ev \<and>
        out_stream s' = out_stream s @ [\<lparr>oe_fd = ie_fd ev, oe_msg =
          (Message_new ACKNOWLEDGE)\<lparr>acknowledge := \<lparr>ack_worker_id = i\<rparr>\<rparr>\<rparr>]))"
proof -
  note safe = pool_inv_safe[OF assms(1)]
  obtain s' where s': "process_register_event env ev s = Some s'" "tasks_inv s'" "shared_inv (shared s')"
    "tasks s' = tasks s"
    using register_safe[OF assms(2) safe assms(3,4)] by blast
  obtain ok s1 where push: "try_push_outgoing env (ack_event ev (reg_id s)) s = (ok, s1)" by fastforce
  show ?thesis
  proof (cases ok)
    case False
    obtain sh1 where s1: "s1 = s\<lparr>shared := sh1\<rparr>" "out_stream s1 = out_stream s"
      using try_push_outgoing_eq[OF assms(3) push] False by auto
    have "s' = s1" using register_eq(1)[OF assms(3) safe assms(4) push False] s'(1) by simp
    then show ?thesis using s' s1 assms(1) by auto
  next
    case True
    have inv: "pool_inv s'"
      using register_pool_inv[OF assms(1,3,4) _ s'(1)] push True by simp
    note slot = reg_id_slot(1)[OF safe assms(4)]
    obtain now sh' where eq: "s' = s\<lparr>
        workers_states := (slots s)[unat (reg_id s) := (slots s ! unat (reg_id s))
          \<lparr>alive := True, last_heartbeat_ns := now, ws_fd := ie_fd ev, active_index := length (active_workers s)\<rparr>],
        active_workers := active_workers s @ [reg_id s], available_ids := butlast (available_ids s),
        shared := sh'\<rparr>" "out_stream (s\<lparr>shared := sh'\<rparr>) = out_stream s @ [ack_event ev (reg_id s)]"
      using register_eq(2)[OF assms(3) safe assms(4) push True] s'(1) by auto
    have "distinct (active_workers s')" using inv by (simp add: pool_inv_def index_ok_def)
    then have "reg_id s \<notin> set (active_workers s)" using eq(1) by simp
    then show ?thesis
      using s' inv eq slot
      by (intro exI[of _ s'] conjI disjI2 exI[of _ "reg_id s"])
        (simp_all add: out_stream_def ack_event_def)
  qed
qed

lemma Coordinator_init_pool: "pool_inv Coordinator_init \<and> tasks_inv Coordinator_init"
  by (simp add: pool_inv_def index_ok_def tasks_inv_def Coordinator_init_def)

theorem register_fresh_id_witness:
  "\<exists>s'. process_register_event clock_2s \<lparr>ie_fd = 9, ie_msg = Message_new REGISTER\<rparr> Coordinator_init = Some s' \<and>
    pool_inv s' \<and> tasks_inv s'"
  using register_fresh_id[of Coordinator_init clock_2s "\<lparr>ie_fd = 9, ie_msg = Message_new REGISTER\<rparr>"]
    Coordinator_init_pool Coordinator_init_shared
  by (auto simp: Coordinator_init_def)

text \<open>C40:
  A heartbeat from a worker that has been declared dead corrupts the pool: the worker counts
  as alive again although it is not active and its id is free, and when it times out once
  more, \<^verbatim>\<open>mark_inactive\<close> follows its stale \<^verbatim>\<open>active_index_\<close> and takes a different, healthy
  worker off the list of active workers, while the id is entered a second time into
  \<^verbatim>\<open>available_ids_\<close>, so that two registrations will share it.
\<close>

theorem stale_heartbeat_removes_healthy_worker:
  assumes "pool_inv s" and "tasks_inv s"
    and "i = hb_worker_id (heartbeat (ie_msg ev))" and "unat i < length (workers_states s)"
    and "\<not> alive (workers_states s ! unat i)"
    and "j = active_index (workers_states s ! unat i)" and "j < length (active_workers s)"
    and "now_at env (Suc (ticks (shared s))) - now_at env (ticks (shared s)) > 1000000000"
  shows "\<exists>s1 s2. process_heartbeat_event env ev s = Some s1 \<and> is_alive env i s1 = Some (False, s2) \<and>
    active_workers s ! j \<noteq> i \<and> alive (workers_states s2 ! unat (active_workers s ! j)) \<and>
    active_workers s ! j \<notin> set (active_workers s2) \<and> count_list (available_ids s2) i = 2"
proof -
  let ?v = "active_workers s ! j" and ?now = "now_at env (ticks (shared s))"
  define w where "w = (workers_states s ! unat i)\<lparr>last_heartbeat_ns := ?now, alive := True\<rparr>"
  define s1 where "s1 = s\<lparr>workers_states := (workers_states s)[unat i := w], shared := tick (shared s)\<rparr>"
  have hb: "process_heartbeat_event env ev s = Some s1"
    using heartbeat_eq[of ev s env] assms(3,4) by (simp add: s1_def w_def)
  have v: "?v \<in> set (active_workers s)" using assms(7) by simp
  then have v': "alive (workers_states s ! unat ?v)" "?v \<noteq> i" "unat ?v < length (workers_states s)"
    using assms(5) pool_inv_active_iff[OF assms(1)] by auto
  then have nv: "unat ?v \<noteq> unat i" by (simp add: word_unat_eq_iff)
  have t1: "tasks_inv s1"
    using heartbeat_safe[OF assms(2) pool_inv_safe[OF assms(1)], of ev env] assms(3,4) hb by auto
  have ok: "index_ok (active_workers s1) (workers_states s1)"
  proof -
    have "active_index ((workers_states s)[unat i := w] ! k) = active_index (workers_states s ! k)" for k
      using assms(4) by (cases "k = unat i") (simp_all add: w_def)
    then show ?thesis using assms(1) by (simp add: pool_inv_def index_ok_def s1_def)
  qed
  obtain A W where AW: "mark_inactive i (s1\<lparr>shared := tick (shared s1)\<rparr>) =
      Some (s1\<lparr>shared := tick (shared s1), active_workers := A, workers_states := W\<rparr>)"
    "set A = set (active_workers s1) - {active_workers s1 ! j}" "same_workers (workers_states s1) W"
    using mark_inactive_at[of "s1\<lparr>shared := tick (shared s1)\<rparr>" i j] ok assms(4,6,7)
    by (auto simp: s1_def w_def)
  have i1: "unat i < length (workers_states s1)" "alive (workers_states s1 ! unat i)"
    "\<not> now_at env (ticks (shared s1)) - last_heartbeat_ns (workers_states s1 ! unat i) \<le> HEARTBEAT_TIMEOUT_NS"
    using assms(4,8) by (simp_all add: s1_def w_def tick_def HEARTBEAT_TIMEOUT_NS_def)
  obtain T where T: "is_alive env i s1 = Some (False, timed_out i A W T s1)"
    using is_alive_timeout[OF t1 i1 AW(1,3)] by blast
  have "alive (W ! unat ?v)"
    using same_workersD(1)[OF AW(3), of "unat ?v"] v' nv by (simp add: s1_def)
  then have "alive (workers_states (timed_out i A W T s1) ! unat ?v)"
    using nv by (simp add: timed_out_def)
  moreover have "count_list (available_ids s) i = 1"
  proof -
    have "i \<in> set (available_ids s)" "distinct (available_ids s)"
      using assms(1,4,5) by (simp_all add: pool_inv_def)
    then show ?thesis by (simp add: count_list_distinct)
  qed
  ultimately show ?thesis
    using hb T AW(2) v' by (intro exI[of _ s1] exI[of _ "timed_out i A W T s1"])
      (simp add: timed_out_def s1_def)
qed

text \<open>Worker 0 is dead with a stale place 0, worker 1 is alive in place 0.\<close>

definition dead_worker :: Coordinator where
  "dead_worker = Coordinator_init\<lparr>
     workers_states := [mark_dead (WorkerState_new 4 0), WorkerState_new 5 0],
     active_workers := [1], available_ids := [0]\<rparr>"

definition clock_2s_steps :: Env where
  "clock_2s_steps = \<lparr>now_at = \<lambda>n. of_nat n * 2000000000, drain_at = \<lambda>_. 0, control_at = \<lambda>_. [],
     task_at = \<lambda>_. []\<rparr>"

lemma dead_worker_inv: "pool_inv dead_worker \<and> tasks_inv dead_worker"
proof
  show "pool_inv dead_worker"
    by (auto simp: pool_inv_def index_ok_def dead_worker_def Coordinator_init_def
        WorkerState_new_def mark_dead_def unat_less_2)
  show "tasks_inv dead_worker"
    by (simp add: tasks_inv_def worker_ok_def dead_worker_def Coordinator_init_def
        WorkerState_new_def mark_dead_def)
qed

theorem stale_heartbeat_removes_healthy_worker_witness:
  "\<exists>s1 s2. process_heartbeat_event clock_2s_steps
      \<lparr>ie_fd = 4, ie_msg = (Message_new HEARTBEAT)\<lparr>heartbeat := \<lparr>hb_worker_id = 0\<rparr>\<rparr>\<rparr> dead_worker = Some s1 \<and>
    is_alive clock_2s_steps 0 s1 = Some (False, s2) \<and> 1 \<notin> set (active_workers s2) \<and>
    alive (workers_states s2 ! 1)"
proof -
  have d: "ticks (shared dead_worker) = 0" "active_workers dead_worker = [1]"
    "active_index (workers_states dead_worker ! 0) = 0" "\<not> alive (workers_states dead_worker ! 0)"
    "length (workers_states dead_worker) = 2"
    by (simp_all add: dead_worker_def Coordinator_init_def Shared_init_def WorkerState_new_def mark_dead_def)
  then show ?thesis
    using stale_heartbeat_removes_healthy_worker[of dead_worker 0
        "\<lparr>ie_fd = 4, ie_msg = (Message_new HEARTBEAT)\<lparr>heartbeat := \<lparr>hb_worker_id = 0\<rparr>\<rparr>\<rparr>" 0 clock_2s_steps]
      dead_worker_inv by (auto simp: clock_2s_steps_def)
qed

end
