(* ===== verification/Task_Accounting.thy ===== *)
theory Task_Accounting
  imports Scheduling Failure_Detection
begin

text \<open>
  No task is lost: the invariant of a primary coordinator, and that every operation of the
  primary keeps it. A task in the table is queued and in the backlog, or running on a worker
  that has it in its set, or completed, and then its result has been pushed for the client
  or waits in the backlog of results.
\<close>

subsection \<open>The invariant\<close>

definition answered :: "Coordinator \<Rightarrow> Task \<Rightarrow> bool" where
  "answered s t \<longleftrightarrow> (\<exists>fd ep. \<lparr>oe_fd = fd, oe_msg = result_message ep t\<rparr> \<in> set (out_stream s))"

definition accounted_task :: "Coordinator \<Rightarrow> u64 \<Rightarrow> Task \<Rightarrow> bool" where
  "accounted_task s k t = (case t_state t of
     QUEUED \<Rightarrow> k \<in> set (queued_backlog s)
   | RUNNING \<Rightarrow> unat (t_worker_id t) < length (workers_states s) \<and>
       k \<in> set (running_tasks (workers_states s ! unat (t_worker_id t)))
   | COMPLETED \<Rightarrow> k \<in> set (completed_backlog s) \<or> answered s t
   | TaskState_undef _ \<Rightarrow> False)"

text \<open>The task \<open>x\<close>, if any, is exempt: a handler is working on it.\<close>

definition accounted_but :: "u64 option \<Rightarrow> Coordinator \<Rightarrow> bool" where
  "accounted_but x s \<longleftrightarrow>
     (\<forall>k t. umap_find (tasks s) k = Some t \<longrightarrow> x \<noteq> Some k \<longrightarrow> accounted_task s k t)"

definition ids_ok :: "Coordinator \<Rightarrow> bool" where
  "ids_ok s \<longleftrightarrow> (\<forall>k t. umap_find (tasks s) k = Some t \<longrightarrow>
     unat (t_worker_id t) < max 1 (length (workers_states s)))"

definition prim_inv :: "u64 option \<Rightarrow> Coordinator \<Rightarrow> bool" where
  "prim_inv x s \<longleftrightarrow> pool_inv s \<and> accounted_but x s \<and> ids_ok s"

lemma prim_invD:
  assumes "prim_inv x s"
  shows "pool_inv s" "accounted_but x s" "ids_ok s"
  using assms by (simp_all add: prim_inv_def)

lemma accounted_task_mono:
  assumes "accounted_task s k t" and "workers_states s' = workers_states s"
    and "set (queued_backlog s) \<subseteq> set (queued_backlog s')"
    and "set (completed_backlog s) \<subseteq> set (completed_backlog s')"
    and "set (out_stream s) \<subseteq> set (out_stream s')"
  shows "accounted_task s' k t"
  using assms by (auto simp: accounted_task_def answered_def split: TaskState.splits)

lemma prim_inv_log_only:
  assumes "prim_inv x s" and "log_only s s'"
  shows "prim_inv x s'"
proof -
  note f = log_only_fields[OF assms(2)]
  have "accounted_task s' k t" if "accounted_task s k t" for k t
    using accounted_task_mono[OF that, of s'] f log_only_out[OF assms(2)] by simp
  then show ?thesis
    using assms(1) f by (auto simp: prim_inv_def pool_inv_def accounted_but_def ids_ok_def)
qed

lemma prim_inv_only_shared:
  assumes "prim_inv x s" and "only_shared s s'"
  shows "prim_inv x s'"
proof -
  obtain sh where s': "s' = s\<lparr>shared := sh\<rparr>" "out_stream s' = out_stream s"
    using assms(2) by (auto simp: only_shared_def)
  have "accounted_task s' k t" if "accounted_task s k t" for k t
    using accounted_task_mono[OF that, of s'] s' by simp
  then show ?thesis
    using assms(1) s'(1) by (auto simp: prim_inv_def pool_inv_def accounted_but_def ids_ok_def)
qed

subsection \<open>Assignment\<close>

lemma assigned_out:
  assumes "assigned k t idx s s'"
  shows "out_stream s' = out_stream s @
    [\<lparr>oe_fd = ws_fd (workers_states s ! unat (active_workers s ! idx)), oe_msg = assign_message (current_epoch s) t\<rparr>]"
proof -
  obtain sh where "shared s' = sh" "out_stream (s\<lparr>shared := sh\<rparr>) = out_stream s @
      [\<lparr>oe_fd = ws_fd (workers_states s ! unat (active_workers s ! idx)), oe_msg = assign_message (current_epoch s) t\<rparr>]"
    using assms unfolding assigned_def Let_def by auto
  then show ?thesis by (simp add: out_stream_def)
qed

lemma assigned_fields:
  assumes "assigned k t idx s s'"
  shows "active_workers s' = active_workers s" "available_ids s' = available_ids s"
    "queued_backlog s' = queued_backlog s" "completed_backlog s' = completed_backlog s"
    "length (workers_states s') = length (workers_states s)" "current_epoch s' = current_epoch s"
    "client_fds s' = client_fds s" "early_complete_reps s' = early_complete_reps s"
    "is_primary s' = is_primary s"
  using assms by (auto simp: assigned_def Let_def)

lemma assigned_prim_inv:
  assumes inv: "prim_inv (Some k) s" and a: "assigned k t idx s s'" and idk: "t_id t = k"
    and idx: "idx < length (active_workers s)"
  shows "prim_inv None s'"
proof -
  note d = prim_invD[OF inv]
  define wid where "wid = active_workers s ! idx"
  define w where "w = (workers_states s ! unat wid)"
  define w' where "w' = w\<lparr>running_tasks := uset_insert (t_id t) (running_tasks w)\<rparr>"
  obtain now sh r wp l where s': "s' = s\<lparr>rr_index := (idx + 1) mod length (active_workers s),
      tasks := umap_assign k (t\<lparr>t_worker_id := wid, t_state := RUNNING, started_at := now\<rparr>) (tasks s),
      workers_states := (workers_states s)[unat wid := w'],
      metrics := record_assignment (metrics s), replication_read_ptr := r,
      replication_write_ptr := wp, replication_log := l, shared := sh\<rparr>"
    using a unfolding assigned_def Let_def wid_def w_def w'_def by blast
  have act: "wid \<in> set (active_workers s)" using idx by (simp add: wid_def)
  then have wid: "unat wid < length (workers_states s)" "alive w"
    using pool_inv_active_iff[OF d(1)] by (auto simp: w_def)
  have nth: "alive (workers_states s' ! j) = alive (workers_states s ! j)"
    "active_index (workers_states s' ! j) = active_index (workers_states s ! j)"
    "set (running_tasks (workers_states s ! j)) \<subseteq> set (running_tasks (workers_states s' ! j))"
    "\<not> alive (workers_states s ! j) \<Longrightarrow> running_tasks (workers_states s' ! j) = running_tasks (workers_states s ! j)"
    for j
    using wid by (cases "j = unat wid"; simp add: s' w'_def; auto simp: w_def)+
  note f = assigned_fields[OF a]
  have "pool_inv s'"
    using d(1) nth f by (simp add: pool_inv_def index_ok_def)
  moreover have "ids_ok s'"
    using d(3) wid(1) by (auto simp: ids_ok_def s' umap_find_assign)
  moreover have "accounted_task s' j u" if u: "umap_find (tasks s') j = Some u" for j u
  proof (cases "j = k")
    case True
    then have "u = t\<lparr>t_worker_id := wid, t_state := RUNNING, started_at := now\<rparr>"
      using u by (simp add: s' umap_find_assign)
    then show ?thesis using True wid(1) idk by (simp add: accounted_task_def s' w'_def)
  next
    case False
    then have "umap_find (tasks s) j = Some u" using u by (simp add: s' umap_find_assign)
    then have "accounted_task s j u" using d(2) False by (simp add: accounted_but_def)
    then show ?thesis
      using nth(3) f assigned_out[OF a] by (auto simp: accounted_task_def answered_def split: TaskState.splits)
  qed
  ultimately show ?thesis by (simp add: prim_inv_def accounted_but_def)
qed

subsection \<open>The backlogs\<close>

definition same_sched :: "Coordinator \<Rightarrow> Coordinator \<Rightarrow> bool" where
  "same_sched s s' \<longleftrightarrow> tasks s' = tasks s \<and> workers_states s' = workers_states s \<and>
     active_workers s' = active_workers s \<and> available_ids s' = available_ids s \<and>
     queued_backlog s' = queued_backlog s \<and> early_complete_reps s' = early_complete_reps s \<and>
     current_epoch s' = current_epoch s \<and> client_fds s' = client_fds s \<and>
     is_primary s' = is_primary s \<and> rr_index s' = rr_index s \<and> metrics s' = metrics s"

lemma same_sched_log_only: "log_only s s' \<Longrightarrow> same_sched s s'"
  by (simp add: same_sched_def log_only_fields)

lemma same_sched_trans: "same_sched a b \<Longrightarrow> same_sched b c \<Longrightarrow> same_sched a c"
  by (simp add: same_sched_def)

lemma sched_inv_completed [simp]: "sched_inv (s\<lparr>completed_backlog := c\<rparr>) = sched_inv s"
  by (simp add: sched_inv_def pool_safe_def tasks_inv_def log_inv_def)

lemma out_stream_upd [simp]:
  "out_stream (s\<lparr>completed_backlog := c\<rparr>) = out_stream s" "out_stream (s\<lparr>queued_backlog := q\<rparr>) = out_stream s"
  by (simp_all add: out_stream_def)

text \<open>Taking the first id off the result backlog once its task has been answered, or is gone.\<close>

lemma prim_inv_pop_completed:
  assumes inv: "prim_inv x s" and b: "completed_backlog s = k # rest"
    and fin: "\<And>t. umap_find (tasks s) k = Some t \<Longrightarrow> t_state t = COMPLETED \<Longrightarrow> answered s t"
  shows "prim_inv x (s\<lparr>completed_backlog := rest\<rparr>)"
proof -
  have "accounted_task (s\<lparr>completed_backlog := rest\<rparr>) j t"
    if "umap_find (tasks s) j = Some t" "accounted_task s j t" for j t
    using that fin[of t] b
    by (cases "j = k") (auto simp: accounted_task_def answered_def split: TaskState.splits)
  then show ?thesis
    using inv by (auto simp: prim_inv_def pool_inv_def accounted_but_def ids_ok_def)
qed

lemma completed_loop_ok:
  assumes "sched_inv s"
  shows "\<exists>s'. completed_loop env s = Some s' \<and> sched_inv s' \<and> same_sched s s' \<and>
    (prim_inv None s \<longrightarrow> prim_inv None s') \<and> (completed_backlog s' = [] \<or> out_full s')"
  using assms
proof (induction "length (completed_backlog s)" arbitrary: s)
  case 0
  then have "completed_loop env s = Some s" by (simp add: completed_loop.simps)
  then show ?case using 0 by (simp add: same_sched_def)
next
  case (Suc n)
  obtain k rest where b: "completed_backlog s = k # rest" using Suc.hyps(2) by (cases "completed_backlog s") auto
  then have n: "n = length rest" using Suc.hyps(2) by simp
  show ?case
  proof (cases "umap_find (tasks s) k")
    case None
    let ?s1 = "s\<lparr>completed_backlog := rest\<rparr>"
    have step: "completed_loop env s = completed_loop env ?s1"
      using b None by (simp add: completed_loop.simps[of env s])
    have "same_sched s ?s1" "sched_inv ?s1" "n = length (completed_backlog ?s1)"
      using Suc.prems n by (simp_all add: same_sched_def)
    moreover have "prim_inv None s \<longrightarrow> prim_inv None ?s1"
      using prim_inv_pop_completed[OF _ b] None by simp
    ultimately show ?thesis
      using Suc.hyps(1)[of ?s1] step same_sched_trans[of s ?s1] by auto
  next
    case (Some t)
    obtain ok s1 where s1: "send_result env t s = Some (ok, s1)" "log_only s s1" "sched_inv s1"
      "out_stream s1 = out_stream s @ (if ok then [result_event s t] else [])" "\<not> ok \<longrightarrow> out_full s \<and> out_full s1"
      using send_result_cases[OF Suc.prems] by blast
    note ss = same_sched_log_only[OF s1(2)] and p1 = prim_inv_log_only[OF _ s1(2)]
    show ?thesis
    proof (cases ok)
      case False
      then have "completed_loop env s = Some s1"
        using b Some s1(1) by (simp add: completed_loop.simps[of env s])
      then show ?thesis using s1 ss p1 False by auto
    next
      case True
      let ?s2 = "s1\<lparr>completed_backlog := rest\<rparr>"
      have b1: "completed_backlog s1 = k # rest" "tasks s1 = tasks s"
        using log_only_fields[OF s1(2)] b by simp_all
      have ans: "answered s1 t"
        using s1(4) True by (auto simp: answered_def result_event_def)
      obtain s3 where s3: "replicate_log env ?s2 = Some s3" "log_only ?s2 s3" "sched_inv s3"
        using replicate_log_only[of ?s2 env] s1(3) by auto
      have step: "completed_loop env s = completed_loop env s3"
        using b Some s1(1) s3(1) True by (simp add: completed_loop.simps[of env s])
      have "same_sched s1 ?s2" by (simp add: same_sched_def)
      then have "same_sched s s3"
        using ss same_sched_log_only[OF s3(2)] same_sched_trans by blast
      moreover have "n = length (completed_backlog s3)"
        using log_only_fields(6)[OF s3(2)] n by simp
      moreover have "prim_inv None s \<longrightarrow> prim_inv None s3"
        using p1 prim_inv_pop_completed[OF _ b1(1)] ans Some b1(2) prim_inv_log_only[OF _ s3(2)] by auto
      ultimately show ?thesis
        using Suc.hyps(1)[of s3] s3(3) step same_sched_trans[of s s3] by auto
    qed
  qed
qed

text \<open>What assigning from the backlog leaves: the places, the pool and the order.\<close>

definition backlog_frame :: "Coordinator \<Rightarrow> Coordinator \<Rightarrow> bool" where
  "backlog_frame s s' \<longleftrightarrow> umap_keys (tasks s') = umap_keys (tasks s) \<and>
     length (workers_states s') = length (workers_states s) \<and>
     active_workers s' = active_workers s \<and> available_ids s' = available_ids s \<and>
     completed_backlog s' = completed_backlog s \<and> early_complete_reps s' = early_complete_reps s \<and>
     current_epoch s' = current_epoch s \<and> (\<exists>n. queued_backlog s' = drop n (queued_backlog s))"

lemma backlog_frame_trans:
  assumes "backlog_frame a b" and "backlog_frame b c"
  shows "backlog_frame a c"
proof -
  obtain m n where "queued_backlog b = drop m (queued_backlog a)" "queued_backlog c = drop n (queued_backlog b)"
    using assms by (auto simp: backlog_frame_def)
  then have "queued_backlog c = drop (n + m) (queued_backlog a)" by simp
  then show ?thesis using assms by (auto simp: backlog_frame_def)
qed

lemma assigned_keys:
  assumes "assigned k t idx s s'" and "umap_find (tasks s) k = Some t"
  shows "umap_keys (tasks s') = umap_keys (tasks s)"
proof -
  obtain u where "tasks s' = umap_assign k u (tasks s)"
    using assms(1) unfolding assigned_def Let_def by auto
  moreover have "k \<in> umap_keys (tasks s)" using assms(2) by (simp add: umap_keys_iff)
  ultimately show ?thesis by auto
qed

lemma prim_inv_weaken: "prim_inv None s \<Longrightarrow> prim_inv x s"
  by (simp add: prim_inv_def accounted_but_def)

text \<open>The first id of the queue may go once its task is running.\<close>

lemma prim_inv_pop_queued:
  assumes inv: "prim_inv None s" and b: "queued_backlog s = k # rest"
    and run: "\<And>t. umap_find (tasks s) k = Some t \<Longrightarrow> t_state t \<noteq> QUEUED"
  shows "prim_inv None (s\<lparr>queued_backlog := rest\<rparr>)"
proof -
  have "accounted_task (s\<lparr>queued_backlog := rest\<rparr>) j t"
    if "umap_find (tasks s) j = Some t" "accounted_task s j t" for j t
    using that run[of t] b
    by (cases "j = k") (auto simp: accounted_task_def answered_def split: TaskState.splits)
  then show ?thesis
    using inv by (auto simp: prim_inv_def pool_inv_def accounted_but_def ids_ok_def)
qed

lemma sched_inv_pop_queued:
  assumes "sched_inv s" and "set q \<subseteq> set (queued_backlog s)"
  shows "sched_inv (s\<lparr>queued_backlog := q\<rparr>)"
  using assms by (auto simp: sched_inv_def pool_safe_def tasks_inv_def log_inv_def)

lemma assigned_running:
  assumes "assigned k t idx s s'"
  shows "\<exists>u. umap_find (tasks s') k = Some u \<and> t_state u = RUNNING"
  using assms unfolding assigned_def Let_def by (auto simp: umap_find_assign)

definition blocked :: "Coordinator \<Rightarrow> bool" where
  "blocked s \<longleftrightarrow> (\<forall>j<length (active_workers s) mod 2 ^ 32. \<not> has_room s (rr_place s j)) \<or> out_full s"

lemma blocked_only_shared:
  assumes "only_shared s s'"
    and "(\<forall>j<length (active_workers s) mod 2 ^ 32. \<not> has_room s (rr_place s j)) \<or> out_full s'"
  shows "blocked s'"
proof -
  obtain sh where "s' = s\<lparr>shared := sh\<rparr>" using assms(1) by (auto simp: only_shared_def)
  then have "has_room s' = has_room s" "rr_place s' = rr_place s" "active_workers s' = active_workers s"
    by (auto simp: has_room_def rr_place_def fun_eq_iff)
  then show ?thesis using assms(2) by (simp add: blocked_def)
qed

lemma queued_loop_ok:
  assumes "sched_inv s"
  shows "\<exists>s'. queued_loop env s = Some s' \<and> sched_inv s' \<and> backlog_frame s s' \<and>
    (prim_inv None s \<longrightarrow> prim_inv None s') \<and> (queued_backlog s' = [] \<or> blocked s')"
  using assms
proof (induction "length (queued_backlog s)" arbitrary: s)
  case 0
  then have "queued_loop env s = Some s" by (simp add: queued_loop.simps)
  then show ?case using 0 by (simp add: backlog_frame_def)
next
  case (Suc n)
  obtain k rest where b: "queued_backlog s = k # rest" using Suc.hyps(2) by (cases "queued_backlog s") auto
  obtain t where t: "umap_find (tasks s) k = Some t"
    using sched_invD(2)[OF Suc.prems] b by (auto simp: tasks_inv_def umap_keys_iff)
  then have idk: "t_id t = k" using sched_invD(2)[OF Suc.prems] by (simp add: tasks_inv_def)
  obtain ok s1 where s1: "assign_task env k s = Some (ok, s1)" "sched_inv s1"
    "if ok then \<exists>i<length (active_workers s). (\<forall>j<i. \<not> has_room s (rr_place s j)) \<and>
         has_room s (rr_place s i) \<and> assigned k t (rr_place s i) s s1
     else only_shared s s1 \<and>
       ((\<forall>j<length (active_workers s) mod 2 ^ 32. \<not> has_room s (rr_place s j)) \<or> out_full s \<and> out_full s1)"
    using assign_task_cases[OF Suc.prems t, of env] by blast
  show ?case
  proof (cases ok)
    case False
    then have o: "only_shared s s1" "blocked s1" using s1(3) blocked_only_shared by auto
    have "queued_loop env s = Some s1"
      using b t s1(1) False by (simp add: queued_loop.simps[of env s])
    moreover have "backlog_frame s s1"
    proof -
      obtain sh where "s1 = s\<lparr>shared := sh\<rparr>" using o(1) by (auto simp: only_shared_def)
      then show ?thesis by (auto simp: backlog_frame_def intro: exI[of _ 0])
    qed
    ultimately show ?thesis using s1(2) o prim_inv_only_shared[OF _ o(1)] by auto
  next
    case True
    then obtain i where i: "i < length (active_workers s)" "assigned k t (rr_place s i) s s1"
      using s1(3) by auto
    note f = assigned_fields[OF i(2)]
    let ?s2 = "s1\<lparr>queued_backlog := rest\<rparr>"
    have idx: "rr_place s i < length (active_workers s)"
      unfolding rr_place_def using i(1) by (intro mod_less_divisor) linarith
    have b1: "queued_backlog s1 = k # rest" using f b by simp
    have p2: "prim_inv None s \<longrightarrow> prim_inv None ?s2"
      using assigned_prim_inv[OF prim_inv_weaken i(2) idk idx] prim_inv_pop_queued[OF _ b1]
        assigned_running[OF i(2)] by auto
    have "sched_inv ?s2" using b1 by (intro sched_inv_pop_queued[OF s1(2)]) auto
    then obtain s3 where s3: "replicate_log env ?s2 = Some s3" "log_only ?s2 s3" "sched_inv s3"
      using replicate_log_only[of ?s2 env] by blast
    note f3 = log_only_fields[OF s3(2)]
    have step: "queued_loop env s = queued_loop env s3"
      using b t s1(1) s3(1) True by (simp add: queued_loop.simps[of env s])
    have fr: "backlog_frame s s3"
      using f f3 b assigned_keys[OF i(2) t] by (auto simp: backlog_frame_def intro: exI[of _ 1])
    have "n = length (queued_backlog s3)" using f3 b Suc.hyps(2) by simp
    then obtain s' where "queued_loop env s3 = Some s'" "sched_inv s'" "backlog_frame s3 s'"
      "prim_inv None s3 \<longrightarrow> prim_inv None s'" "queued_backlog s' = [] \<or> blocked s'"
      using Suc.hyps(1) s3(3) by blast
    then show ?thesis
      using step p2 prim_inv_log_only[OF _ s3(2)] backlog_frame_trans[OF fr] by auto
  qed
qed

lemma process_backlog_ok:
  assumes "sched_inv s"
  shows "\<exists>s'. process_backlog env s = Some s' \<and> sched_inv s' \<and>
    (prim_inv None s \<longrightarrow> prim_inv None s') \<and> length (workers_states s') = length (workers_states s) \<and>
    active_workers s' = active_workers s \<and> available_ids s' = available_ids s \<and>
    umap_keys (tasks s') = umap_keys (tasks s) \<and> early_complete_reps s' = early_complete_reps s \<and>
    current_epoch s' = current_epoch s \<and>
    (\<exists>n. queued_backlog s' = drop n (queued_backlog s)) \<and> (queued_backlog s' = [] \<or> blocked s')"
proof -
  obtain s1 where s1: "completed_loop env s = Some s1" "sched_inv s1" "same_sched s s1"
    "prim_inv None s \<longrightarrow> prim_inv None s1"
    using completed_loop_ok[OF assms] by blast
  obtain s' where s': "queued_loop env s1 = Some s'" "sched_inv s'" "backlog_frame s1 s'"
    "prim_inv None s1 \<longrightarrow> prim_inv None s'" "queued_backlog s' = [] \<or> blocked s'"
    using queued_loop_ok[OF s1(2)] by blast
  show ?thesis
    using s1 s' by (intro exI[of _ s']) (auto simp: process_backlog_def same_sched_def backlog_frame_def)
qed

subsection \<open>Submission\<close>

text \<open>The state in which \<^verbatim>\<open>process_submit_event\<close> tries to assign the new task.\<close>

definition enqueued :: "Env \<Rightarrow> IncomingEvent \<Rightarrow> Coordinator \<Rightarrow> Task \<Rightarrow> Coordinator" where
  "enqueued env ev s t = s\<lparr>is_primary := True,
     client_fds := umap_assign (sm_client_id (submit (ie_msg ev))) (ie_fd ev) (client_fds s),
     tasks := umap_assign (t_id t) t (tasks s), metrics := record_enqueue (metrics s),
     shared := tick (shared s)\<rparr>"

lemma submitted_task_simps [simp]:
  "t_id (submitted_task m now) = sm_task_id m" "t_state (submitted_task m now) = QUEUED"
  "t_worker_id (submitted_task m now) = 0" "t_client_id (submitted_task m now) = sm_client_id m"
  "t_type (submitted_task m now) = sm_type m" "queued_at (submitted_task m now) = now"
  by (simp_all add: submitted_task_def Task_new_def Task_default_def Let_def split: TaskType.split)

lemma process_submit_eq:
  fixes ev s env
  defines "t \<equiv> submitted_task (submit (ie_msg ev)) (now_at env (ticks (shared s)))"
  shows "process_submit_event env ev s = do {
    (ok, s) \<leftarrow> assign_task env (sm_task_id (submit (ie_msg ev))) (enqueued env ev s t);
    replicate_log env (if ok then s else s\<lparr>queued_backlog := queued_backlog s @ [sm_task_id (submit (ie_msg ev))]\<rparr>)
  }"
  unfolding process_submit_event_def Let_def now_ns_eq prod.case t_def
  by (rule bind_option_cong) (simp_all add: set_task_def enqueued_def split: prod.split)

lemma enqueued_sched:
  assumes "sched_inv s"
  shows "sched_inv (enqueued env ev s t)"
proof -
  note d = sched_invD[OF assms]
  have "\<forall>w\<in>set (workers_states s). worker_ok (umap_assign (t_id t) t (tasks s)) w"
    using d(2) by (auto simp: tasks_inv_def intro: worker_ok_keys[rotated])
  then show ?thesis
    using d
    by (auto simp: sched_inv_def enqueued_def pool_safe_def tasks_inv_def log_inv_def umap_ok_assign umap_find_assign)
qed

lemma enqueued_prim:
  assumes inv: "prim_inv None s" and "t_worker_id t = 0"
  shows "prim_inv (Some (t_id t)) (enqueued env ev s t)"
proof -
  let ?s = "enqueued env ev s t"
  have out: "out_stream ?s = out_stream s" by (simp add: enqueued_def out_stream_def)
  have "accounted_task ?s k u" if "accounted_task s k u" for k u
    using accounted_task_mono[OF that, of ?s] out by (simp add: enqueued_def)
  then show ?thesis
    using inv assms(2)
    by (auto simp: prim_inv_def pool_inv_def accounted_but_def ids_ok_def enqueued_def umap_find_assign)
qed

lemma sched_inv_push_queued:
  assumes "sched_inv s" and "k \<in> umap_keys (tasks s)"
  shows "sched_inv (s\<lparr>queued_backlog := queued_backlog s @ [k]\<rparr>)"
  using assms by (auto simp: sched_inv_def pool_safe_def tasks_inv_def log_inv_def)

lemma prim_inv_push_queued:
  assumes inv: "prim_inv (Some k) s" and t: "umap_find (tasks s) k = Some t" "t_state t = QUEUED"
  shows "prim_inv None (s\<lparr>queued_backlog := queued_backlog s @ [k]\<rparr>)"
proof -
  let ?s = "s\<lparr>queued_backlog := queued_backlog s @ [k]\<rparr>"
  have "accounted_task ?s j u" if "umap_find (tasks s) j = Some u" "j \<noteq> k \<longrightarrow> accounted_task s j u" for j u
  proof (cases "j = k")
    case True
    then show ?thesis using that(1) t by (simp add: accounted_task_def)
  next
    case False
    then show ?thesis using accounted_task_mono[of s j u ?s] that(2) by auto
  qed
  then show ?thesis
    using inv by (auto simp: prim_inv_def pool_inv_def accounted_but_def ids_ok_def)
qed

text \<open>
  The outcome of a submission: the new task is running on an active worker that has been
  sent the assignment, or it is queued at the end of the backlog because no worker could
  take it.
\<close>

definition submit_outcome :: "IncomingEvent \<Rightarrow> Coordinator \<Rightarrow> u64 \<Rightarrow> Coordinator \<Rightarrow> bool" where
  "submit_outcome ev s now s' \<longleftrightarrow> (let
     m = submit (ie_msg ev); k = sm_task_id m; t = submitted_task m now
   in (\<exists>wid\<in>set (active_workers s). \<exists>started.
        umap_find (tasks s') k = Some (t\<lparr>t_worker_id := wid, t_state := RUNNING, started_at := started\<rparr>) \<and>
        k \<in> set (running_tasks (workers_states s' ! unat wid)) \<and>
        \<lparr>oe_fd = ws_fd (workers_states s ! unat wid), oe_msg = assign_message (current_epoch s) t\<rparr>
          \<in> set (out_stream s') \<and> queued_backlog s' = queued_backlog s) \<or>
      umap_find (tasks s') k = Some t \<and> queued_backlog s' = queued_backlog s @ [k] \<and> blocked s)"

lemma blocked_enqueued: "blocked (enqueued env ev s t) = blocked s"
  by (simp add: blocked_def enqueued_def has_room_def rr_place_def out_full_def del: length_contents)

lemma process_submit_ok:
  assumes inv: "sched_inv s"
  shows "\<exists>s'. process_submit_event env ev s = Some s' \<and> sched_inv s' \<and>
    (prim_inv None s \<longrightarrow> prim_inv None s') \<and> length (workers_states s') = length (workers_states s) \<and>
    active_workers s' = active_workers s \<and> available_ids s' = available_ids s \<and> is_primary s' \<and>
    umap_keys (tasks s') = insert (sm_task_id (submit (ie_msg ev))) (umap_keys (tasks s)) \<and>
    early_complete_reps s' = early_complete_reps s \<and> current_epoch s' = current_epoch s \<and>
    submit_outcome ev s (now_at env (ticks (shared s))) s'"
proof -
  define t where "t = submitted_task (submit (ie_msg ev)) (now_at env (ticks (shared s)))"
  define k where "k = sm_task_id (submit (ie_msg ev))"
  define e where "e = enqueued env ev s t"
  have tk: "t_id t = k" "t_worker_id t = 0" "t_state t = QUEUED" by (simp_all add: t_def k_def)
  have e: "sched_inv e" "umap_find (tasks e) k = Some t"
    using enqueued_sched[OF inv] tk by (simp_all add: e_def) (simp add: enqueued_def umap_find_assign)
  have pe: "prim_inv None s \<longrightarrow> prim_inv (Some k) e"
    using enqueued_prim[of s t] tk by (auto simp: e_def)
  have fe: "active_workers e = active_workers s" "available_ids e = available_ids s"
    "workers_states e = workers_states s" "queued_backlog e = queued_backlog s"
    "early_complete_reps e = early_complete_reps s" "current_epoch e = current_epoch s" "is_primary e"
    "umap_keys (tasks e) = insert k (umap_keys (tasks s))"
    by (simp_all add: e_def enqueued_def tk)
  obtain ok s1 where s1: "assign_task env k e = Some (ok, s1)" "sched_inv s1"
    "if ok then \<exists>i<length (active_workers e). (\<forall>j<i. \<not> has_room e (rr_place e j)) \<and>
         has_room e (rr_place e i) \<and> assigned k t (rr_place e i) e s1
     else only_shared e s1 \<and>
       ((\<forall>j<length (active_workers e) mod 2 ^ 32. \<not> has_room e (rr_place e j)) \<or> out_full e \<and> out_full s1)"
    using assign_task_cases[OF e, of env] by blast
  define s2 where "s2 = (if ok then s1 else s1\<lparr>queued_backlog := queued_backlog s1 @ [k]\<rparr>)"
  have step: "process_submit_event env ev s = replicate_log env s2"
    using s1(1) unfolding process_submit_eq s2_def by (simp flip: t_def k_def e_def)
  have s2: "sched_inv s2 \<and> (prim_inv None s \<longrightarrow> prim_inv None s2) \<and>
    length (workers_states s2) = length (workers_states s) \<and> active_workers s2 = active_workers s \<and>
    available_ids s2 = available_ids s \<and> umap_keys (tasks s2) = insert k (umap_keys (tasks s)) \<and>
    early_complete_reps s2 = early_complete_reps s \<and> current_epoch s2 = current_epoch s \<and> is_primary s2 \<and>
    submit_outcome ev s (now_at env (ticks (shared s))) s2"
  proof (cases ok)
    case True
    then obtain i where i: "i < length (active_workers e)" "assigned k t (rr_place e i) e s1" using s1(3) by auto
    have idx: "rr_place e i < length (active_workers e)"
      unfolding rr_place_def using i(1) by (intro mod_less_divisor) linarith
    define wid where "wid = active_workers e ! rr_place e i"
    have mem: "wid \<in> set (active_workers s)" using idx fe by (simp add: wid_def)
    then have "unat wid < length (workers_states s)" using sched_invD(1)[OF inv] by (auto simp: pool_safe_def)
    then have out: "submit_outcome ev s (now_at env (ticks (shared s))) s1"
      using i(2) mem assigned_out[OF i(2)] assigned_fields(3)[OF i(2)] fe tk(1)
      unfolding submit_outcome_def assigned_def Let_def t_def[symmetric] k_def[symmetric] wid_def[symmetric]
      by (intro disjI1 bexI[of _ wid]) (auto simp: umap_find_assign)
    show ?thesis
      using True s1(2) assigned_fields[OF i(2)] fe assigned_keys[OF i(2) e(2)] out
        assigned_prim_inv[OF _ i(2) tk(1) idx] pe by (auto simp: s2_def)
  next
    case False
    define sh where "sh = shared s1"
    have o: "only_shared e s1" "s1 = e\<lparr>shared := sh\<rparr>"
      using s1(3) False by (simp_all add: only_shared_def sh_def)
    have "sched_inv s2"
      using False sched_inv_push_queued[OF s1(2), of k] fe(8) o(2) by (simp add: s2_def)
    moreover have "prim_inv None s \<longrightarrow> prim_inv None s2"
      using pe prim_inv_only_shared[OF _ o(1)] prim_inv_push_queued[of k s1 t] e(2) tk(3) o(2) False
      by (auto simp: s2_def)
    moreover have "blocked e" using s1(3) False by (auto simp: blocked_def)
    ultimately show ?thesis
      using False fe o(2) e(2) blocked_enqueued[of env ev s t]
      by (simp add: s2_def submit_outcome_def Let_def flip: t_def k_def e_def)
  qed
  obtain s' where s': "replicate_log env s2 = Some s'" "log_only s2 s'" "sched_inv s'"
    using replicate_log_only[of s2 env] s2 by blast
  have "submit_outcome ev s (now_at env (ticks (shared s))) s'"
    using s2 log_only_fields[OF s'(2)] log_only_out[OF s'(2)]
    unfolding submit_outcome_def Let_def by auto
  then show ?thesis
    using step s' s2 log_only_fields[OF s'(2)] prim_inv_log_only[OF _ s'(2)]
    by (intro exI[of _ s']) (auto simp: k_def)
qed

subsection \<open>Completion\<close>

text \<open>The state in which \<^verbatim>\<open>process_complete_event\<close> sends the result: task \<open>k\<close> is now \<open>t\<close>.\<close>

definition finished :: "u64 \<Rightarrow> Task \<Rightarrow> Coordinator \<Rightarrow> Coordinator" where
  "finished k t s = s\<lparr>is_primary := True, tasks := umap_assign k t (tasks s),
     metrics := record_completion_system (metrics s) t,
     workers_states := (workers_states s)[unat (t_worker_id t) :=
       record_completion_worker ((workers_states s ! unat (t_worker_id t))
         \<lparr>running_tasks := uset_erase (t_id t) (running_tasks (workers_states s ! unat (t_worker_id t)))\<rparr>) t]\<rparr>"

lemma completed_task_simps [simp]:
  "t_id (completed_task m t) = t_id t" "t_worker_id (completed_task m t) = t_worker_id t"
  "t_state (completed_task m t) = COMPLETED" "t_success (completed_task m t) = com_success m"
  "t_client_id (completed_task m t) = t_client_id t" "t_type (completed_task m t) = t_type t"
  by (simp_all add: completed_task_def Let_def split: TaskType.split)

definition complete_ok :: "IncomingEvent \<Rightarrow> Coordinator \<Rightarrow> bool" where
  "complete_ok ev s \<longleftrightarrow> (\<forall>t. umap_find (tasks s) (com_task_id (complete (ie_msg ev))) = Some t \<longrightarrow>
     unat (t_worker_id t) < length (workers_states s))"

lemma process_complete_unknown:
  "umap_find (tasks s) (com_task_id (complete (ie_msg ev))) = None \<Longrightarrow>
     process_complete_event env ev s = Some (s\<lparr>is_primary := True\<rparr>)"
  by (simp add: process_complete_event_def Let_def)

lemma process_complete_eq:
  assumes "umap_find (tasks s) k = Some u" and "k = com_task_id (complete (ie_msg ev))"
    and "t = completed_task (complete (ie_msg ev)) u" and "unat (t_worker_id u) < length (workers_states s)"
  shows "process_complete_event env ev s = do {
    (sent, s) \<leftarrow> send_result env t (finished k t s);
    replicate_log env (if sent then s else s\<lparr>completed_backlog := completed_backlog s @ [t_id t]\<rparr>)
  }"
  unfolding assms(3) using assms(1,2,4)
  by (simp add: process_complete_event_def Let_def worker_at_def vec_at_def set_task_def
      set_worker_def finished_def)

lemma finished_fields:
  assumes "unat (t_worker_id t) < length (workers_states s)"
  shows "length (workers_states (finished k t s)) = length (workers_states s)"
    "alive (workers_states (finished k t s) ! j) = alive (workers_states s ! j)"
    "active_index (workers_states (finished k t s) ! j) = active_index (workers_states s ! j)"
    "running_tasks (workers_states (finished k t s) ! j) = (if j = unat (t_worker_id t)
       then uset_erase (t_id t) (running_tasks (workers_states s ! j)) else running_tasks (workers_states s ! j))"
  using assms by (cases "j = unat (t_worker_id t)"; simp add: finished_def record_completion_worker_def)+

lemma finished_sched:
  assumes inv: "sched_inv s" and w: "unat (t_worker_id t) < length (workers_states s)"
    and k: "k \<in> umap_keys (tasks s)" "t_id t = k"
  shows "sched_inv (finished k t s)"
proof -
  note d = sched_invD[OF inv]
  have keys: "umap_keys (umap_assign k t (tasks s)) = umap_keys (tasks s)" using k by auto
  have "worker_ok (umap_assign k t (tasks s)) (workers_states (finished k t s) ! j)"
    if "j < length (workers_states s)" for j
  proof -
    have "worker_ok (tasks s) (workers_states s ! j)" using d(2) that by (simp add: tasks_inv_def)
    then show ?thesis
      using length_uset_erase_le[of "t_id t" "running_tasks (workers_states s ! j)"]
      by (auto simp: worker_ok_def finished_fields(4)[OF w] keys distinct_uset_erase)
  qed
  then have "\<forall>v\<in>set (workers_states (finished k t s)). worker_ok (umap_assign k t (tasks s)) v"
    unfolding all_set_conv_all_nth finished_fields(1)[OF w] by blast
  moreover have "tasks (finished k t s) = umap_assign k t (tasks s)" by (simp add: finished_def)
  moreover have "pool_safe (finished k t s)" "log_inv (finished k t s)" "shared_inv (shared (finished k t s))"
    using d by (simp_all add: finished_def pool_safe_def log_inv_def)
  ultimately show ?thesis
    using d(2) k keys
    by (auto simp: sched_inv_def tasks_inv_def umap_ok_assign umap_find_assign) (simp_all add: finished_def, blast+)
qed

lemma finished_prim:
  assumes inv: "prim_inv None s" and w: "unat (t_worker_id t) < length (workers_states s)"
    and k: "t_id t = k"
  shows "prim_inv (Some k) (finished k t s)"
proof -
  let ?s = "finished k t s"
  note d = prim_invD[OF inv] and ff = finished_fields[OF w]
  have f: "active_workers ?s = active_workers s" "available_ids ?s = available_ids s"
    "queued_backlog ?s = queued_backlog s" "completed_backlog ?s = completed_backlog s"
    "out_stream ?s = out_stream s" "tasks ?s = umap_assign k t (tasks s)"
    by (simp_all add: finished_def out_stream_def)
  have "pool_inv ?s"
  proof -
    have "\<not> alive (workers_states s ! j) \<longrightarrow> running_tasks (workers_states s ! j) = [] \<Longrightarrow>
        \<not> alive (workers_states s ! j) \<longrightarrow> running_tasks (workers_states ?s ! j) = []" for j
      by (auto simp: ff uset_erase_def)
    then show ?thesis using d(1) by (simp add: pool_inv_def index_ok_def ff f)
  qed
  moreover have "ids_ok ?s" using d(3) w by (auto simp: ids_ok_def ff f umap_find_assign)
  moreover have "accounted_task ?s j u" if "umap_find (tasks ?s) j = Some u" "j \<noteq> k" for j u
  proof -
    have "accounted_task s j u"
      using d(2) that by (simp add: accounted_but_def f umap_find_assign)
    then show ?thesis
      using that(2) k by (auto simp: accounted_task_def answered_def ff f split: TaskState.splits)
  qed
  ultimately show ?thesis by (simp add: prim_inv_def accounted_but_def)
qed

lemma prim_inv_settle:
  assumes inv: "prim_inv (Some k) s" and t: "umap_find (tasks s) k = Some t" "t_state t = COMPLETED"
    and c: "set (completed_backlog s) \<subseteq> set c" "k \<in> set c \<or> answered s t"
  shows "prim_inv None (s\<lparr>completed_backlog := c\<rparr>)"
proof -
  let ?s = "s\<lparr>completed_backlog := c\<rparr>"
  have "accounted_task ?s j u" if "umap_find (tasks s) j = Some u" "j \<noteq> k \<longrightarrow> accounted_task s j u" for j u
  proof (cases "j = k")
    case True
    then show ?thesis using that(1) t c by (auto simp: accounted_task_def answered_def)
  next
    case False
    then show ?thesis using accounted_task_mono[of s j u ?s] that(2) c by simp
  qed
  then show ?thesis
    using inv by (auto simp: prim_inv_def pool_inv_def accounted_but_def ids_ok_def)
qed

text \<open>
  The outcome of a completion: the task carries what the worker reported, its worker is free
  of it, and its result is on the way to the client or waits in the backlog of results.
\<close>

definition complete_outcome :: "IncomingEvent \<Rightarrow> Coordinator \<Rightarrow> Task \<Rightarrow> Coordinator \<Rightarrow> bool" where
  "complete_outcome ev s u s' \<longleftrightarrow> (let
     m = complete (ie_msg ev); k = com_task_id m; t = completed_task m u
   in umap_find (tasks s') k = Some t \<and> (\<forall>j. j \<noteq> k \<longrightarrow> umap_find (tasks s') j = umap_find (tasks s) j) \<and>
      k \<notin> set (running_tasks (workers_states s' ! unat (t_worker_id u))) \<and>
      metrics s' = record_completion_system (metrics s) t \<and>
      (\<lparr>oe_fd = client_fd s u, oe_msg = result_message (current_epoch s) t\<rparr> \<in> set (out_stream s') \<and>
         completed_backlog s' = completed_backlog s \<or>
       out_full s \<and> completed_backlog s' = completed_backlog s @ [k]))"

lemma process_complete_ok:
  assumes inv: "sched_inv s" and u: "umap_find (tasks s) k = Some u"
    and k: "k = com_task_id (complete (ie_msg ev))" and w: "unat (t_worker_id u) < length (workers_states s)"
  shows "\<exists>s'. process_complete_event env ev s = Some s' \<and> sched_inv s' \<and>
    (prim_inv None s \<longrightarrow> prim_inv None s') \<and> length (workers_states s') = length (workers_states s) \<and>
    active_workers s' = active_workers s \<and> available_ids s' = available_ids s \<and> is_primary s' \<and>
    umap_keys (tasks s') = umap_keys (tasks s) \<and>
    early_complete_reps s' = early_complete_reps s \<and> current_epoch s' = current_epoch s \<and>
    complete_outcome ev s u s'"
proof -
  define t where "t = completed_task (complete (ie_msg ev)) u"
  define c where "c = finished k t s"
  have tk: "t_id t = k" "t_worker_id t = t_worker_id u" "t_state t = COMPLETED" "t_client_id t = t_client_id u"
    using sched_invD(2)[OF inv] u by (simp_all add: t_def tasks_inv_def)
  have km: "k \<in> umap_keys (tasks s)" using u by (simp add: umap_keys_iff)
  have wt: "unat (t_worker_id t) < length (workers_states s)" using w tk by simp
  have c: "sched_inv c" "prim_inv None s \<longrightarrow> prim_inv (Some k) c"
    using finished_sched[OF inv wt km tk(1)] finished_prim[OF _ wt tk(1)] by (auto simp: c_def)
  have fc: "active_workers c = active_workers s" "available_ids c = available_ids s" "is_primary c"
    "completed_backlog c = completed_backlog s" "early_complete_reps c = early_complete_reps s"
    "current_epoch c = current_epoch s" "tasks c = umap_assign k t (tasks s)" "client_fds c = client_fds s"
    "metrics c = record_completion_system (metrics s) t" "out_full c = out_full s"
    by (simp_all add: c_def finished_def out_full_def)
  have wc: "length (workers_states c) = length (workers_states s)"
    "k \<notin> set (running_tasks (workers_states c ! unat (t_worker_id u)))"
    using finished_fields[OF wt, of k] tk by (simp_all add: c_def)
  obtain ok s1 where s1: "send_result env t c = Some (ok, s1)" "log_only c s1" "sched_inv s1"
    "out_stream s1 = out_stream c @ (if ok then [result_event c t] else [])" "\<not> ok \<longrightarrow> out_full c \<and> out_full s1"
    using send_result_cases[OF c(1)] by blast
  note f1 = log_only_fields[OF s1(2)]
  define b where "b = (if ok then completed_backlog s else completed_backlog s @ [k])"
  define s2 where "s2 = s1\<lparr>completed_backlog := b\<rparr>"
  have s2_eq: "s2 = (if ok then s1 else s1\<lparr>completed_backlog := completed_backlog s1 @ [t_id t]\<rparr>)"
    using f1(6) fc(4) tk(1) by (simp add: s2_def b_def)
  have step: "process_complete_event env ev s = replicate_log env s2"
    unfolding process_complete_eq[OF u k t_def w] s2_eq using s1(1) by (simp flip: c_def)
  have "ok \<longrightarrow> answered s1 t" using s1(4) by (auto simp: answered_def result_event_def)
  then have p2: "prim_inv None s \<longrightarrow> prim_inv None s2"
    using c(2) prim_inv_log_only[OF _ s1(2)] f1 fc tk(3) unfolding s2_def
    by (intro impI prim_inv_settle[of k s1 t]) (auto simp: b_def umap_find_assign)
  have "sched_inv s2" using s1(3) by (simp add: s2_def)
  then obtain s' where s': "replicate_log env s2 = Some s'" "log_only s2 s'" "sched_inv s'"
    using replicate_log_only by blast
  note f' = log_only_fields[OF s'(2)]
  have g: "tasks s' = umap_assign k t (tasks s)" "workers_states s' = workers_states c"
    "completed_backlog s' = b" "metrics s' = record_completion_system (metrics s) t"
    using f' f1 fc by (simp_all add: s2_def)
  have "result_event c t \<in> set (out_stream s')" if ok
    using that s1(4) log_only_out[OF s'(2)] by (auto simp: s2_def)
  then have "complete_outcome ev s u s'"
    using g wc s1(5) fc(6,8,10) tk(4)
    by (auto simp: complete_outcome_def Let_def umap_find_assign b_def result_event_def client_fd_def
        simp flip: t_def k)
  then show ?thesis
    using step s' p2 prim_inv_log_only[OF _ s'(2)] f' f1 fc wc(1) g km
    by (intro exI[of _ s']) (auto simp: s2_def)
qed

subsection \<open>The worker pool\<close>

lemma timed_out_prim:
  assumes inv: "prim_inv None s" and i: "unat i < length (workers_states s)"
    and same: "same_workers (workers_states s) W" and pool: "pool_inv (timed_out i A W T s)"
    and req: "requeued (running_tasks (workers_states s ! unat i)) (tasks s) T"
  shows "prim_inv None (timed_out i A W T s)"
proof -
  let ?s = "timed_out i A W T s" and ?ks = "running_tasks (workers_states s ! unat i)"
  note d = prim_invD[OF inv]
  have len: "length W = length (workers_states s)" using same by (simp add: same_workers_def)
  have f: "tasks ?s = T" "queued_backlog ?s = queued_backlog s @ ?ks" "out_stream ?s = out_stream s"
    "completed_backlog ?s = completed_backlog s" "length (workers_states ?s) = length (workers_states s)"
    by (simp_all add: timed_out_def out_stream_def len)
  have run: "running_tasks (workers_states ?s ! j) = running_tasks (workers_states s ! j)"
    if "j < length (workers_states s)" "j \<noteq> unat i" for j
    using that same_workersD(2)[OF same that(1)] by (simp add: timed_out_def)
  have find: "umap_find T k = (if k \<in> set ?ks
      then map_option (\<lambda>t. t\<lparr>t_state := QUEUED\<rparr>) (umap_find (tasks s) k) else umap_find (tasks s) k)" for k
    using req by (simp add: requeued_def)
  have "accounted_task ?s k t" if t: "umap_find T k = Some t" for k t
  proof (cases "k \<in> set ?ks")
    case True
    then have "t_state t = QUEUED" using t find[of k] by auto
    then show ?thesis using True by (simp add: accounted_task_def f)
  next
    case False
    then have "umap_find (tasks s) k = Some t" using t find[of k] by simp
    then have a: "accounted_task s k t" using d(2) by (simp add: accounted_but_def)
    show ?thesis
    proof (cases "t_state t = RUNNING")
      case True
      then have "unat (t_worker_id t) < length (workers_states s)"
        "k \<in> set (running_tasks (workers_states s ! unat (t_worker_id t)))"
        using a by (simp_all add: accounted_task_def)
      moreover from this False have "unat (t_worker_id t) \<noteq> unat i" by auto
      ultimately show ?thesis using True run by (simp add: accounted_task_def f)
    next
      case not_run: False
      then show ?thesis using a by (auto simp: accounted_task_def answered_def f split: TaskState.splits)
    qed
  qed
  moreover have "unat (t_worker_id t) < max 1 (length (workers_states s))" if "umap_find T k = Some t" for k t
    using that find[of k] d(3) by (auto simp: ids_ok_def split: if_splits)
  ultimately show ?thesis
    using pool by (simp add: prim_inv_def accounted_but_def ids_ok_def f)
qed

lemma prim_inv_shared_tick: "prim_inv x (s\<lparr>shared := tick (shared s)\<rparr>) = prim_inv x s"
  by (simp add: prim_inv_def accounted_but_def ids_ok_def accounted_task_def answered_def out_stream_def
      cong: TaskState.case_cong)

lemma is_alive_prim:
  assumes inv: "prim_inv None s" "tasks_inv s" and i: "unat i < length (workers_states s)"
    and r: "is_alive env i s = Some (b, s')"
  shows "prim_inv None s'"
proof (cases "alive (workers_states s ! unat i) \<and>
    \<not> now_at env (ticks (shared s)) - last_heartbeat_ns (workers_states s ! unat i) \<le> HEARTBEAT_TIMEOUT_NS")
  case True
  obtain A W T where "is_alive env i s = Some (False, timed_out i A W T s)"
    "same_workers (workers_states s) W" "pool_inv (timed_out i A W T s)"
    "requeued (running_tasks (workers_states s ! unat i)) (tasks s) T"
    using is_alive_pool[OF inv(2) prim_invD(1)[OF inv(1)] i] True by blast
  then show ?thesis using timed_out_prim[OF inv(1) i] r by simp
next
  case False
  then have "is_alive env i s = Some (False, s) \<or> is_alive env i s = Some (True, s\<lparr>shared := tick (shared s)\<rparr>)"
    using is_alive_quiet[OF i, of env] by blast
  then have "s' = s \<or> s' = s\<lparr>shared := tick (shared s)\<rparr>"
    unfolding r option.inject prod.inject by blast
  then show ?thesis using inv(1) prim_inv_shared_tick by (elim disjE) (simp_all only:)
qed

lemma sweep_loop_prim:
  assumes "prim_inv None s" "tasks_inv s" "\<forall>i\<in>set ids. unat i < length (workers_states s)"
    and "sweep_loop env ids s = Some s'"
  shows "prim_inv None s'"
  using assms
proof (induction ids arbitrary: s)
  case (Cons i ids)
  have i: "unat i < length (workers_states s)" using Cons.prems(3) by simp
  obtain b s1 where s1: "is_alive env i s = Some (b, s1)" "sweep_loop env ids s1 = Some s'"
    using Cons.prems(4) by (auto simp: bind_eq_Some_conv)
  note safe = pool_inv_safe[OF prim_invD(1)[OF Cons.prems(1)]]
  note d = is_alive_SomeD[OF Cons.prems(2) safe i s1(1)]
  have "\<forall>i\<in>set ids. unat i < length (workers_states s1)" using d(3) Cons.prems(3) by simp
  from Cons.IH[OF is_alive_prim[OF Cons.prems(1,2) i s1(1)] d(1) this s1(2)] show ?case .
qed simp

lemma same_rest_sched:
  assumes "sched_inv s" "same_rest s s'" "tasks_inv s'" "pool_safe s'"
  shows "sched_inv s'"
  using assms by (auto simp: sched_inv_def same_rest_def same_core_def log_inv_def shared_inv_def)

lemma sweep_workers_ok:
  assumes "sched_inv s"
  shows "\<exists>s'. sweep_workers env s = Some s' \<and> sched_inv s' \<and> (prim_inv None s \<longrightarrow> prim_inv None s') \<and>
    length (workers_states s') = length (workers_states s) \<and> same_rest s s' \<and>
    umap_keys (tasks s') = umap_keys (tasks s)"
proof -
  note d = sched_invD[OF assms]
  obtain s' where s': "sweep_workers env s = Some s'" "tasks_inv s'" "pool_safe s'" "same_rest s s'"
    "length (workers_states s') = length (workers_states s)" "umap_keys (tasks s') = umap_keys (tasks s)"
    using sweep_workers_safe[OF d(2,1), of env] by blast
  have "prim_inv None s \<longrightarrow> prim_inv None s'"
    using sweep_loop_prim[OF _ d(2) sweep_ids(1)] s'(1) d(1) by (simp add: sweep_workers_def pool_safe_def)
  then show ?thesis using s' same_rest_sched[OF assms s'(4,2,3)] by blast
qed

lemma heartbeat_ok:
  assumes inv: "sched_inv s" and i: "unat (hb_worker_id (heartbeat (ie_msg ev))) < length (workers_states s)"
  shows "\<exists>s'. process_heartbeat_event env ev s = Some s' \<and> sched_inv s' \<and>
    (prim_inv None s \<and> alive (workers_states s ! unat (hb_worker_id (heartbeat (ie_msg ev)))) \<longrightarrow> prim_inv None s') \<and>
    length (workers_states s') = length (workers_states s) \<and> same_rest s s' \<and> tasks s' = tasks s"
proof -
  note d = sched_invD[OF inv]
  obtain s' where s': "process_heartbeat_event env ev s = Some s'" "tasks_inv s'" "pool_safe s'" "same_rest s s'"
    "length (workers_states s') = length (workers_states s)" "tasks s' = tasks s"
    using heartbeat_safe[OF d(2,1) i] by blast
  define j where "j = unat (hb_worker_id (heartbeat (ie_msg ev)))"
  define w where "w = (workers_states s ! j)\<lparr>last_heartbeat_ns := now_at env (ticks (shared s)), alive := True\<rparr>"
  have eq: "s' = s\<lparr>workers_states := (workers_states s)[j := w], shared := tick (shared s)\<rparr>"
    using heartbeat_eq[OF i, of env] s'(1) by (simp add: j_def w_def)
  have run: "running_tasks (workers_states s' ! k) = running_tasks (workers_states s ! k)" for k
    using i by (cases "k = j") (simp_all add: eq w_def j_def)
  have "prim_inv None s'" if p: "prim_inv None s" "alive (workers_states s ! j)"
  proof -
    have "accounted_task s' k t" if "accounted_task s k t" for k t
      using that run s'(5) by (auto simp: accounted_task_def answered_def eq out_stream_def split: TaskState.splits)
    moreover have "pool_inv s'"
      using heartbeat_pool_inv[OF prim_invD(1)[OF p(1)] i _ s'(1)] p(2) by (simp add: j_def)
    ultimately show ?thesis
      using p(1) s'(5,6) by (simp add: prim_inv_def accounted_but_def ids_ok_def)
  qed
  then show ?thesis using s' same_rest_sched[OF inv s'(4,2,3)] by (auto simp: j_def)
qed

lemma register_ok:
  assumes inv: "sched_inv s" and room: "available_ids s = [] \<longrightarrow> Suc (length (workers_states s)) < 2 ^ 32"
  shows "\<exists>s'. process_register_event env ev s = Some s' \<and> sched_inv s' \<and>
    (prim_inv None s \<longrightarrow> prim_inv None s') \<and> same_core s s' \<and> tasks s' = tasks s \<and>
    length (workers_states s) \<le> length (workers_states s')"
proof -
  note d = sched_invD[OF inv]
  obtain s' where s': "process_register_event env ev s = Some s'" "tasks_inv s'" "pool_safe s'"
    "shared_inv (shared s')" "same_core s s'" "tasks s' = tasks s"
    "length (workers_states s) \<le> length (workers_states s')"
    using register_safe[OF d(2,1,3) room] by blast
  have "sched_inv s'" using s' d(4) by (auto simp: sched_inv_def same_core_def log_inv_def)
  moreover have "prim_inv None s'" if p: "prim_inv None s"
  proof -
    note safe = d(1)
    obtain ok s1 where push: "try_push_outgoing env (ack_event ev (reg_id s)) s = (ok, s1)" by fastforce
    obtain sh1 where s1: "s1 = s\<lparr>shared := sh1\<rparr>" "shared_inv sh1"
      "out_stream s1 = out_stream s @ (if ok then [ack_event ev (reg_id s)] else [])"
      using try_push_outgoing_eq[OF d(3) push] by blast
    show ?thesis
    proof (cases ok)
      case False
      then have "s' = s1" using register_eq(1)[OF d(3) safe room push] s'(1) by simp
      moreover have "only_shared s s1" using s1 False by (simp add: only_shared_def)
      ultimately show ?thesis using prim_inv_only_shared[OF p] by simp
    next
      case True
      have pool: "pool_inv s'"
        using register_pool_inv[OF prim_invD(1)[OF p] d(3) room _ s'(1)] push True by simp
      obtain now sh' where eq: "s' = s\<lparr>
          workers_states := (slots s)[unat (reg_id s) := (slots s ! unat (reg_id s))
            \<lparr>alive := True, last_heartbeat_ns := now, ws_fd := ie_fd ev, active_index := length (active_workers s)\<rparr>],
          active_workers := active_workers s @ [reg_id s], available_ids := butlast (available_ids s),
          shared := sh'\<rparr>" "out_stream (s\<lparr>shared := sh'\<rparr>) = out_stream s @ [ack_event ev (reg_id s)]"
        using register_eq(2)[OF d(3) safe room push True] s'(1) by auto
      have run: "running_tasks (workers_states s' ! k) = running_tasks (workers_states s ! k)"
        if "k < length (workers_states s)" for k
        using that by (cases "k = unat (reg_id s)") (auto simp: eq(1) slots_def nth_append)
      have out: "set (out_stream s) \<subseteq> set (out_stream s')"
      proof -
        have "out_stream s' = out_stream (s\<lparr>shared := sh'\<rparr>)" by (simp add: eq(1) out_stream_def)
        then show ?thesis using eq(2) by auto
      qed
      have bl: "queued_backlog s' = queued_backlog s" "completed_backlog s' = completed_backlog s"
        by (simp_all add: eq(1))
      have "accounted_task s' k t" if a: "accounted_task s k t" for k t
        using a run out bl s'(7) by (auto simp: accounted_task_def answered_def split: TaskState.splits)
      then have "accounted_but None s'"
        using prim_invD(2)[OF p] s'(6) by (simp add: accounted_but_def)
      moreover have "ids_ok s'"
      proof -
        have "max 1 (length (workers_states s)) \<le> max 1 (length (workers_states s'))"
          using s'(7) by (intro max.mono) simp_all
        then show ?thesis
          using prim_invD(3)[OF p] unfolding ids_ok_def s'(6) by (meson less_le_trans)
      qed
      ultimately show ?thesis using pool by (simp add: prim_inv_def)
    qed
  qed
  ultimately show ?thesis using s' by blast
qed

end
