(* ===== verification/Replica.thy ===== *)
theory Replica
  imports Task_Accounting
begin

text \<open>
  The backup's side of replication (\<^verbatim>\<open>process_assign_replicate_event\<close>,
  \<^verbatim>\<open>process_complete_replicate_event\<close>, \<^verbatim>\<open>process_snapshot_event\<close>) and the primary's answer to a
  reconnected peer (\<^verbatim>\<open>process_peer_reconnected\<close>). None of them can fault.

  The lemmas show that a backup which processes the messages the primary logs has the
  primary's entries, in either order of an assignment and its completion, and that messages
  of an older epoch change no task.
\<close>

subsection \<open>Operations\<close>

definition process_complete_replicate_event :: "IncomingEvent \<Rightarrow> Coordinator \<Rightarrow> Coordinator" where
  "process_complete_replicate_event event s = (let
     s = s\<lparr>is_primary := False\<rparr>
   in if epoch (ie_msg event) < current_epoch s then s
   else let
     m = completed_rep (ie_msg event);
     k = cr_task_id m;
     postpone = s\<lparr>early_complete_reps := umap_assign k event (early_complete_reps s)\<rparr>
   in case umap_find (tasks s) k of
     None \<Rightarrow> postpone
   | Some task \<Rightarrow>
       if t_state task = COMPLETED then postpone
       else let
         s = s\<lparr>current_epoch := epoch (ie_msg event)\<rparr>;
         task = task\<lparr>t_state := COMPLETED, t_worker_id := cr_worker_id m,
           started_at := cr_started_at m, completed_at := cr_completed_at m,
           t_success := cr_success m, t_result := cr_result m\<rparr>;
         s = set_task k task s
       in s\<lparr>metrics := record_completion_system (metrics s) task\<rparr>)"

definition replicated_task :: "AssignedReplicationMsg \<Rightarrow> u64 \<Rightarrow> Task" where
  "replicated_task m now = (let
     task = Task_new (ar_task_id m) (ar_client_id m) (ar_task_type m) now;
     task = task\<lparr>t_worker_id := ar_worker_id m, queued_at := ar_queued_at m,
       started_at := ar_started_at m, t_state := RUNNING\<rparr>
   in case t_type task of
        SYNTHETIC \<Rightarrow> task\<lparr>synthetic_task := (synthetic_task task)\<lparr>duration_us := ucast (ar_duration_us m)\<rparr>\<rparr>
      | WORD_COUNT \<Rightarrow> task\<lparr>word_count_task := (word_count_task task)\<lparr>words := ar_words m\<rparr>\<rparr>
      | _ \<Rightarrow> task)"

definition process_assign_replicate_event :: "Env \<Rightarrow> IncomingEvent \<Rightarrow> Coordinator \<Rightarrow> Coordinator" where
  "process_assign_replicate_event env event s = (let
     s = s\<lparr>is_primary := False\<rparr>
   in if epoch (ie_msg event) < current_epoch s then s
   else let
     s = s\<lparr>current_epoch := epoch (ie_msg event)\<rparr>;
     (now, s) = now_ns_u64 env s;
     task = replicated_task (assigned_rep (ie_msg event)) now;
     s = set_task (t_id task) task s;
     s = s\<lparr>metrics := record_assignment (metrics s)\<rparr>
   in case umap_find (early_complete_reps s) (t_id task) of
        None \<Rightarrow> s
      | Some early \<Rightarrow> let
          s = process_complete_replicate_event early s
        in s\<lparr>early_complete_reps := umap_erase (t_id task) (early_complete_reps s)\<rparr>)"

definition process_snapshot_event :: "IncomingEvent \<Rightarrow> Coordinator \<Rightarrow> Coordinator" where
  "process_snapshot_event event s = (let
     s = s\<lparr>is_primary := False, current_epoch := epoch (ie_msg event),
       tasks := snap_tasks (snapshot (ie_msg event)), replication_write_ptr := 0,
       replication_read_ptr := 0, queued_backlog := [], early_complete_reps := [],
       completed_backlog := []\<rparr>
   in s\<lparr>metrics := recompute_metrics (tasks s) (metrics s)\<rparr>)"

definition process_peer_reconnected :: "Env \<Rightarrow> Coordinator \<Rightarrow> Coordinator" where
  "process_peer_reconnected env s = (if \<not> is_primary s then s
   else let
     msg = (Message_new SNAPSHOT)\<lparr>snapshot := \<lparr>snap_tasks = tasks s\<rparr>\<rparr>;
     s = s\<lparr>current_epoch := current_epoch s + 1\<rparr>;
     msg = msg\<lparr>epoch := current_epoch s\<rparr>;
     event = OutgoingEvent_default\<lparr>oe_msg := msg\<rparr>
   in snd (try_push_outgoing env event s))"

subsection \<open>What a replication message carries\<close>

text \<open>
  Tasks as \<^verbatim>\<open>process_submit_event\<close> creates them carry the payload of their own type only, and
  a task that has not been completed has no completion time, result or success flag.
\<close>

definition payload_ok :: "Task \<Rightarrow> bool" where
  "payload_ok t \<longleftrightarrow> (t_type t \<noteq> SYNTHETIC \<longrightarrow> synthetic_task t = \<lparr>duration_us = 0\<rparr>) \<and>
     (t_type t \<noteq> WORD_COUNT \<longrightarrow> word_count_task t = \<lparr>words = []\<rparr>)"

definition open_ok :: "Task \<Rightarrow> bool" where
  "open_ok t \<longleftrightarrow> payload_ok t \<and> completed_at t = 0 \<and> t_result t = 0 \<and> t_success t = 0"

lemma submitted_open: "open_ok (submitted_task m now)"
  by (simp add: open_ok_def payload_ok_def submitted_task_def Task_new_def Task_default_def Let_def
      split: TaskType.split)

lemma open_ok_upd [simp]:
  "open_ok (t\<lparr>t_worker_id := w\<rparr>) = open_ok t" "open_ok (t\<lparr>t_state := st\<rparr>) = open_ok t"
  "open_ok (t\<lparr>started_at := n\<rparr>) = open_ok t"
  by (simp_all add: open_ok_def payload_ok_def)

lemma ucast_u32_u64: "(ucast (ucast (x :: u32) :: u64) :: u32) = x"
  by (simp add: ucast_up_ucast_id is_up)

text \<open>The assignment message rebuilds the running task.\<close>

lemma replicated_task_eq:
  assumes "open_ok t" and "t_state t = RUNNING"
  shows "replicated_task (assigned_rep (assign_rep_message ep t)) now = t"
  using assms
  by (cases "t_type t")
    (auto simp: replicated_task_def assign_rep_message_def Task_new_def Task_default_def Let_def
      AssignedReplicationMsg_default_def open_ok_def payload_ok_def ucast_u32_u64
      intro!: Task.equality SyntheticTask.equality WordCountTask.equality)

lemma assigned_rep_simps [simp]:
  "epoch (assign_rep_message ep t) = ep" "m_type (assign_rep_message ep t) = ASSIGNED_REPLICATE"
  "epoch (complete_rep_message ep t) = ep" "m_type (complete_rep_message ep t) = COMPLETED_REPLICATE"
  "m_type (assign_message ep t) = ASSIGN" "m_type (result_message ep t) = RESULT"
  by (simp_all add: assign_rep_message_def complete_rep_message_def assign_message_def result_message_def
      Message_new_def Let_def split: TaskType.split)

lemma assign_replicate_tasks:
  assumes "open_ok t" and "t_state t = RUNNING" and "\<not> ep < current_epoch b"
    and "umap_find (early_complete_reps b) (t_id t) = None"
  shows "tasks (process_assign_replicate_event env \<lparr>ie_fd = fd, ie_msg = assign_rep_message ep t\<rparr> b) =
      umap_assign (t_id t) t (tasks b)"
    and "current_epoch (process_assign_replicate_event env \<lparr>ie_fd = fd, ie_msg = assign_rep_message ep t\<rparr> b) = ep"
    and "early_complete_reps (process_assign_replicate_event env \<lparr>ie_fd = fd, ie_msg = assign_rep_message ep t\<rparr> b) =
      early_complete_reps b"
  using assms
  by (simp_all add: process_assign_replicate_event_def Let_def now_ns_eq set_task_def replicated_task_eq)

lemma complete_replicate_tasks:
  assumes u: "umap_find (tasks b) k = Some u" "t_state u \<noteq> COMPLETED" "t_id u = k"
    and "\<not> ep < current_epoch b"
  shows "tasks (process_complete_replicate_event \<lparr>ie_fd = fd, ie_msg = complete_rep_message ep (completed_task m u)\<rparr> b) =
      umap_assign k (completed_task m u) (tasks b)"
    and "current_epoch (process_complete_replicate_event \<lparr>ie_fd = fd, ie_msg = complete_rep_message ep (completed_task m u)\<rparr> b) = ep"
    and "early_complete_reps (process_complete_replicate_event
      \<lparr>ie_fd = fd, ie_msg = complete_rep_message ep (completed_task m u)\<rparr> b) = early_complete_reps b"
proof -
  let ?t = "completed_task m u" and ?r = "completed_rep (complete_rep_message ep (completed_task m u))"
  have k: "cr_task_id ?r = k" using u(3) by (simp add: complete_rep_message_def)
  have "u\<lparr>t_state := COMPLETED, t_worker_id := cr_worker_id ?r, started_at := cr_started_at ?r,
      completed_at := cr_completed_at ?r, t_success := cr_success ?r, t_result := cr_result ?r\<rparr> = ?t"
    by (cases "t_type u") (simp_all add: complete_rep_message_def completed_task_def)
  then show "tasks (process_complete_replicate_event \<lparr>ie_fd = fd, ie_msg = complete_rep_message ep ?t\<rparr> b) =
      umap_assign k ?t (tasks b)"
    "current_epoch (process_complete_replicate_event \<lparr>ie_fd = fd, ie_msg = complete_rep_message ep ?t\<rparr> b) = ep"
    "early_complete_reps (process_complete_replicate_event \<lparr>ie_fd = fd, ie_msg = complete_rep_message ep ?t\<rparr> b) =
      early_complete_reps b"
    using u assms(4) k by (simp_all add: process_complete_replicate_event_def Let_def set_task_def)
qed

subsection \<open>The stream of replication messages\<close>

text \<open>Everything a primary has for its peer: what has been pushed, then what is in the log.\<close>

definition rep_stream :: "Coordinator \<Rightarrow> Message list" where
  "rep_stream s = filter is_replication (map oe_msg (out_stream s)) @ pending s"

definition log_typed :: "Coordinator \<Rightarrow> bool" where
  "log_typed s \<longleftrightarrow> (\<forall>m\<in>set (pending s). is_replication m)"

definition rep_apply :: "Env \<Rightarrow> Message \<Rightarrow> Coordinator \<Rightarrow> Coordinator" where
  "rep_apply env m b = (case m_type m of
     ASSIGNED_REPLICATE \<Rightarrow> process_assign_replicate_event env \<lparr>ie_fd = 0, ie_msg = m\<rparr> b
   | COMPLETED_REPLICATE \<Rightarrow> process_complete_replicate_event \<lparr>ie_fd = 0, ie_msg = m\<rparr> b
   | SNAPSHOT \<Rightarrow> process_snapshot_event \<lparr>ie_fd = 0, ie_msg = m\<rparr> b
   | _ \<Rightarrow> b)"

text \<open>
  The backup mirrors the primary: every task the primary has running or completed, the
  backup has with the same fields. It is ready for the primary's next message.
\<close>

definition mirrors :: "Coordinator \<Rightarrow> Coordinator \<Rightarrow> bool" where
  "mirrors p b \<longleftrightarrow>
     (\<forall>k t. umap_find (tasks p) k = Some t \<longrightarrow> t_state t \<in> {RUNNING, COMPLETED} \<longrightarrow>
        umap_find (tasks b) k = Some t) \<and>
     current_epoch b \<le> current_epoch p \<and> early_complete_reps b = []"

text \<open>Open tasks of the primary are as a submission leaves them.\<close>

definition open_inv :: "Coordinator \<Rightarrow> bool" where
  "open_inv p \<longleftrightarrow> (\<forall>k t. umap_find (tasks p) k = Some t \<longrightarrow> t_state t \<noteq> COMPLETED \<longrightarrow> open_ok t)"

lemma rep_event_msg [simp]: "oe_msg (rep_event m) = m"
  by (simp add: rep_event_def)

lemma replicate_log_rep_stream:
  assumes "sched_inv s" and "log_typed s" and "replicate_log env s = Some s'"
  shows "rep_stream s' = rep_stream s" and "log_typed s'"
proof -
  obtain sent where sent: "out_stream s' = out_stream s @ map rep_event sent" "pending s = sent @ pending s'"
  proof -
    obtain r sh k where *: "replicate_log env s = Some (s\<lparr>replication_read_ptr := r, shared := sh\<rparr>)"
      "pending (s\<lparr>replication_read_ptr := r\<rparr>) = drop k (pending s)"
      "out_stream (s\<lparr>shared := sh\<rparr>) = out_stream s @ map rep_event (take k (pending s))"
      using replicate_log_eq[OF sched_invD(4,3)[OF assms(1)], of env] by blast
    then have "out_stream s' = out_stream s @ map rep_event (take k (pending s))"
      "pending s = take k (pending s) @ pending s'"
      using assms(3) by (simp_all add: out_stream_def)
    then show ?thesis using that by blast
  qed
  have "filter is_replication sent = sent"
    using assms(2) sent(2) by (auto simp: log_typed_def intro: filter_True)
  then show "rep_stream s' = rep_stream s"
    using sent by (simp add: rep_stream_def comp_def)
  show "log_typed s'" using assms(2) sent(2) by (simp add: log_typed_def)
qed

lemma last_n_snoc: "length xs < n \<Longrightarrow> last_n n (xs @ [x]) = xs @ [x]"
  by (simp add: last_n_def)

lemma assigned_rep_stream:
  assumes a: "assigned k t idx s s'" and "log_typed s" and room: "length (pending s) < 9999"
  shows "\<exists>wid now. let t' = t\<lparr>t_worker_id := wid, t_state := RUNNING, started_at := now\<rparr> in
    tasks s' = umap_assign k t' (tasks s) \<and> log_typed s' \<and>
    rep_stream s' = rep_stream s @ [assign_rep_message (current_epoch s) t']"
proof -
  obtain wid now where *: "tasks s' = umap_assign k (t\<lparr>t_worker_id := wid, t_state := RUNNING, started_at := now\<rparr>) (tasks s)"
    "pending s' = last_n (MAX_LOG_SIZE - 1) (pending s @
      [assign_rep_message (current_epoch s) (t\<lparr>t_worker_id := wid, t_state := RUNNING, started_at := now\<rparr>)])"
    using a unfolding assigned_def Let_def by auto
  have p: "pending s' = pending s @
      [assign_rep_message (current_epoch s) (t\<lparr>t_worker_id := wid, t_state := RUNNING, started_at := now\<rparr>)]"
    using *(2) room last_n_snoc[of "pending s" 9999] by (simp add: MAX_LOG_SIZE_def)
  then show ?thesis
    using *(1) assigned_out[OF a] assms(2)
    by (intro exI[of _ wid] exI[of _ now])
      (simp add: Let_def rep_stream_def log_typed_def is_replication_def)
qed

lemma mirrors_assign:
  assumes m: "mirrors p b" and t: "open_ok t" "t_state t = RUNNING" "t_id t = k"
    and p': "tasks p' = umap_assign k t (tasks p)" "current_epoch p' = current_epoch p"
  shows "mirrors p' (rep_apply env (assign_rep_message (current_epoch p) t) b)"
proof -
  have ep: "\<not> current_epoch p < current_epoch b" "umap_find (early_complete_reps b) (t_id t) = None"
    using m by (simp_all add: mirrors_def not_less)
  note r = assign_replicate_tasks[OF t(1,2) ep]
  show ?thesis
    using m p' t(3) unfolding mirrors_def by (simp add: rep_apply_def r umap_find_assign)
qed

lemma mirrors_complete:
  assumes m: "mirrors p b" and u: "umap_find (tasks p) k = Some u" "t_state u = RUNNING" "t_id u = k"
    and p': "tasks p' = umap_assign k (completed_task c u) (tasks p)" "current_epoch p' = current_epoch p"
  shows "mirrors p' (rep_apply env (complete_rep_message (current_epoch p) (completed_task c u)) b)"
proof -
  have ep: "\<not> current_epoch p < current_epoch b" and ub: "umap_find (tasks b) k = Some u"
    using m u by (auto simp: mirrors_def not_less)
  have "t_state u \<noteq> COMPLETED" using u(2) by simp
  note r = complete_replicate_tasks[OF ub this u(3) ep]
  show ?thesis
    using m p' unfolding mirrors_def by (simp add: rep_apply_def r umap_find_assign)
qed

lemma enqueued_rep_stream:
  "rep_stream (enqueued env ev s t) = rep_stream s" "pending (enqueued env ev s t) = pending s"
  by (simp_all add: rep_stream_def enqueued_def out_stream_def pending_def)

lemma mirrors_enqueued:
  assumes "mirrors s b" and "t_state t = QUEUED" and "tasks s' = umap_assign k t (tasks s)"
    and "current_epoch s' = current_epoch s"
  shows "mirrors s' b"
  using assms by (auto simp: mirrors_def umap_find_assign split: if_splits)

lemma mirrors_cong:
  "tasks s' = tasks s \<Longrightarrow> current_epoch s' = current_epoch s \<Longrightarrow> mirrors s' b = mirrors s b"
  by (simp add: mirrors_def)

subsection \<open>Properties\<close>

text \<open>A submitted task that stays in the backlog is nothing to replicate.\<close>

lemma submit_queued_mirrors:
  assumes inv: "sched_inv s1" and o: "only_shared e s1" and k: "umap_find (tasks e) k = Some t"
    and m: "mirrors e b" and l: "log_typed e"
  defines "s2 \<equiv> s1\<lparr>queued_backlog := queued_backlog s1 @ [k]\<rparr>"
  shows "sched_inv s2 \<and> log_typed s2 \<and> (\<exists>ms. rep_stream s2 = rep_stream e @ ms \<and> mirrors s2 (fold (rep_apply env') ms b))"
proof -
  define sh where "sh = shared s1"
  have o': "s1 = e\<lparr>shared := sh\<rparr>" using o by (simp add: only_shared_def sh_def)
  have "sched_inv s2" using sched_inv_push_queued[OF inv, of k] k o' by (simp add: s2_def umap_keys_iff)
  moreover have p2: "pending s2 = pending e" using o' by (simp add: s2_def pending_def)
  moreover have "rep_stream s2 = rep_stream e"
  proof -
    have "out_stream s2 = out_stream s1" by (simp add: s2_def)
    then show ?thesis using o p2 by (simp add: rep_stream_def only_shared_def)
  qed
  moreover have "mirrors s2 b" using m o' by (simp add: s2_def mirrors_def)
  ultimately show ?thesis using l by (auto simp: log_typed_def intro!: exI[of _ "[]"])
qed

text \<open>C13:
  A submission keeps the backup a mirror of the primary: whether the task is assigned at
  once or queued, the primary's stream of replication messages grows by some messages such
  that a backup which mirrored the primary before and processes them mirrors it afterwards.
  (Provided the replication log is not about to drop its oldest entry.)
\<close>

theorem submit_replicates:
  assumes inv: "sched_inv p" "log_typed p" and room: "length (pending p) < 9999" and m: "mirrors p b"
    and sub: "process_submit_event env ev p = Some p'"
  shows "\<exists>ms. rep_stream p' = rep_stream p @ ms \<and> log_typed p' \<and> mirrors p' (fold (rep_apply env') ms b)"
proof -
  define t where "t = submitted_task (submit (ie_msg ev)) (now_at env (ticks (shared p)))"
  define k where "k = sm_task_id (submit (ie_msg ev))"
  define e where "e = enqueued env ev p t"
  have tk: "t_id t = k" "t_state t = QUEUED" "open_ok t"
    using submitted_open by (simp_all add: t_def k_def)
  have e: "sched_inv e" "umap_find (tasks e) k = Some t" "tasks e = umap_assign k t (tasks p)"
    "current_epoch e = current_epoch p"
    using enqueued_sched[OF inv(1)] tk(1) by (simp_all add: e_def) (simp_all add: enqueued_def umap_find_assign)
  have es: "rep_stream e = rep_stream p" "pending e = pending p" "log_typed e"
    using inv(2) by (simp_all add: e_def enqueued_rep_stream log_typed_def)
  have me: "mirrors e b" by (rule mirrors_enqueued[OF m tk(2) e(3,4)])
  obtain ok s1 where s1: "assign_task env k e = Some (ok, s1)" "sched_inv s1"
    "if ok then \<exists>i<length (active_workers e). (\<forall>j<i. \<not> has_room e (rr_place e j)) \<and>
         has_room e (rr_place e i) \<and> assigned k t (rr_place e i) e s1
     else only_shared e s1 \<and>
       ((\<forall>j<length (active_workers e) mod 2 ^ 32. \<not> has_room e (rr_place e j)) \<or> out_full e \<and> out_full s1)"
    using assign_task_cases[OF e(1,2), of env] by blast
  define s2 where "s2 = (if ok then s1 else s1\<lparr>queued_backlog := queued_backlog s1 @ [k]\<rparr>)"
  have step: "replicate_log env s2 = Some p'"
    using s1(1) sub unfolding process_submit_eq s2_def by (cases ok) (simp_all flip: t_def k_def e_def)
  have s2: "sched_inv s2 \<and> log_typed s2 \<and>
    (\<exists>ms. rep_stream s2 = rep_stream p @ ms \<and> mirrors s2 (fold (rep_apply env') ms b))"
  proof (cases ok)
    case True
    then obtain i where i: "assigned k t (rr_place e i) e s1" using s1(3) by auto
    obtain wid now where a: "tasks s1 = umap_assign k (t\<lparr>t_worker_id := wid, t_state := RUNNING, started_at := now\<rparr>) (tasks e)"
      "log_typed s1" "rep_stream s1 = rep_stream e @ [assign_rep_message (current_epoch e)
        (t\<lparr>t_worker_id := wid, t_state := RUNNING, started_at := now\<rparr>)]"
      using assigned_rep_stream[OF i es(3)] room es(2) by (auto simp: Let_def)
    have "mirrors s1 (rep_apply env' (assign_rep_message (current_epoch e)
        (t\<lparr>t_worker_id := wid, t_state := RUNNING, started_at := now\<rparr>)) b)"
      using tk assigned_fields(6)[OF i] by (intro mirrors_assign[OF me _ _ _ a(1)]) simp_all
    then show ?thesis using True s1(2) a(2,3) es(1) by (auto simp: s2_def)
  next
    case False
    then show ?thesis
      using submit_queued_mirrors[OF s1(2) _ e(2) me es(3), of env'] s1(3) es(1) by (auto simp: s2_def)
  qed
  then have "sched_inv s2" "log_typed s2" by simp_all
  note r = replicate_log_rep_stream[OF this step]
  obtain s3 where "replicate_log env s2 = Some s3" "log_only s2 s3" using replicate_log_only s2 by blast
  then have "mirrors p' = mirrors s2"
    using step log_only_fields[of s2 s3] by (auto simp: mirrors_def fun_eq_iff)
  then show ?thesis using s2 r by auto
qed

lemma Coordinator_init_sched: "sched_inv Coordinator_init"
  using Coordinator_init_pool Coordinator_init_shared Coordinator_init_log pool_inv_safe
  by (auto simp: sched_inv_def)

lemma Coordinator_init_mirrors:
  "mirrors Coordinator_init Coordinator_init \<and> log_typed Coordinator_init"
  using Coordinator_init_log by (simp add: mirrors_def log_typed_def Coordinator_init_def)

text \<open>A submission of the synthetic task 3 by client 1.\<close>

definition submit_event :: IncomingEvent where
  "submit_event = \<lparr>ie_fd = 9, ie_msg = (Message_new SUBMIT)\<lparr>submit :=
     SubmitMsg_default\<lparr>sm_task_id := 3, sm_client_id := 1, sm_duration_us := 100\<rparr>\<rparr>\<rparr>"

theorem submit_replicates_witness:
  "\<exists>p' ms. process_submit_event clock_2s submit_event Coordinator_init = Some p' \<and>
    rep_stream p' = rep_stream Coordinator_init @ ms \<and> mirrors p' (fold (rep_apply clock_2s) ms Coordinator_init)"
proof -
  obtain p' where p': "process_submit_event clock_2s submit_event Coordinator_init = Some p'"
    using process_submit_ok[OF Coordinator_init_sched] by blast
  have "length (pending Coordinator_init) < 9999" using Coordinator_init_log by simp
  from submit_replicates[OF Coordinator_init_sched conjunct2[OF Coordinator_init_mirrors] this
      conjunct1[OF Coordinator_init_mirrors] p'] p' show ?thesis by blast
qed

text \<open>C14:
  A completion that is answered keeps the backup a mirror of the primary: when a worker
  reports a running task and the outgoing queue has room, the primary's stream of
  replication messages grows by one message, and a backup which mirrored the primary before
  and processes it mirrors it afterwards, the completed task with its result included.
\<close>

theorem complete_replicates:
  assumes inv: "sched_inv p" "log_typed p" and room: "length (pending p) < 9999" and m: "mirrors p b"
    and u: "umap_find (tasks p) (com_task_id (complete (ie_msg ev))) = Some u" "t_state u = RUNNING"
    and w: "unat (t_worker_id u) < length (workers_states p)" and free: "\<not> out_full p"
    and com: "process_complete_event env ev p = Some p'"
  shows "\<exists>msg. rep_stream p' = rep_stream p @ [msg] \<and> log_typed p' \<and> mirrors p' (rep_apply env' msg b)"
proof -
  define k where "k = com_task_id (complete (ie_msg ev))"
  define t where "t = completed_task (complete (ie_msg ev)) u"
  define c where "c = finished k t p"
  have u': "umap_find (tasks p) k = Some u" using u(1) by (simp add: k_def)
  have idu: "t_id u = k" using sched_invD(2)[OF inv(1)] u' by (simp add: tasks_inv_def)
  have tk: "t_id t = k" "t_worker_id t = t_worker_id u" using idu by (simp_all add: t_def)
  have wt: "unat (t_worker_id t) < length (workers_states p)" using w tk by simp
  have c: "sched_inv c"
    using finished_sched[OF inv(1) wt _ tk(1)] u' by (simp add: c_def umap_keys_iff)
  have fc: "current_epoch c = current_epoch p" "tasks c = umap_assign k t (tasks p)" "pending c = pending p"
    "out_stream c = out_stream p" "\<not> out_full c"
    using free by (simp_all add: c_def finished_def pending_def out_stream_def out_full_def)
  obtain ok s1 where s1: "send_result env t c = Some (ok, s1)" "log_only c s1" "sched_inv s1"
    "out_stream s1 = out_stream c @ (if ok then [result_event c t] else [])"
    "pending s1 = (if ok then last_n (MAX_LOG_SIZE - 1)
      (pending c @ [complete_rep_message (current_epoch c) t]) else pending c)" "\<not> ok \<longrightarrow> out_full c"
    using send_result_cases[OF c] by blast
  then have ok: ok using fc(5) by blast
  have step: "replicate_log env s1 = Some p'"
    using process_complete_eq[OF u' k_def t_def w, of env] s1(1) com ok by (simp flip: c_def)
  have pend: "pending s1 = pending p @ [complete_rep_message (current_epoch p) t]"
    using s1(5) ok fc room last_n_snoc[of "pending p" 9999] by (simp add: MAX_LOG_SIZE_def)
  have typed: "log_typed s1" using inv(2) by (simp add: log_typed_def pend is_replication_def)
  have stream: "rep_stream s1 = rep_stream p @ [complete_rep_message (current_epoch p) t]"
    using s1(4) ok fc(4) by (simp add: rep_stream_def pend result_event_def is_replication_def)
  have "mirrors s1 (rep_apply env' (complete_rep_message (current_epoch p) t) b)"
    unfolding t_def using log_only_fields[OF s1(2)] fc
    by (intro mirrors_complete[OF m u' u(2) idu]) (simp_all flip: t_def)
  moreover have "mirrors p' = mirrors s1"
  proof -
    obtain s3 where "replicate_log env s1 = Some s3" "log_only s1 s3" using replicate_log_only s1(3) by blast
    then show ?thesis using step log_only_fields[of s1 s3] by (auto simp: mirrors_def fun_eq_iff)
  qed
  ultimately show ?thesis
    using replicate_log_rep_stream[OF s1(3) typed step] stream by auto
qed

definition complete_event :: IncomingEvent where
  "complete_event = \<lparr>ie_fd = 4, ie_msg = (Message_new COMPLETE)\<lparr>complete :=
     \<lparr>com_task_id = 7, com_started_at = 10, com_completed_at = 20, com_result = 0, com_success = 1\<rparr>\<rparr>\<rparr>"

lemma two_workers_facts:
  "sched_inv two_workers" "log_typed two_workers" "pending two_workers = []" "\<not> out_full two_workers"
  "mirrors two_workers two_workers"
proof -
  have eq: "shared two_workers = shared Coordinator_init" "pending two_workers = pending Coordinator_init"
    "log_inv two_workers = log_inv Coordinator_init"
    by (simp_all add: two_workers_def pending_def log_inv_def)
  show "sched_inv two_workers"
    using two_workers_inv Coordinator_init_shared Coordinator_init_log pool_inv_safe eq
    by (auto simp: sched_inv_def)
  show p: "pending two_workers = []" using eq Coordinator_init_log by simp
  then show "log_typed two_workers" by (simp add: log_typed_def)
  show "\<not> out_full two_workers"
    using Coordinator_init_outgoing unfolding out_full_def eq
    by (simp add: COORDINATOR_OUTGOING_QUEUE_CAPACITY_def COORDINATOR_TASK_QUEUE_CAPACITY_def del: length_contents)
  show "mirrors two_workers two_workers" by (simp add: mirrors_def two_workers_def Coordinator_init_def)
qed

lemma two_workers_task:
  "umap_find (tasks two_workers) 7 = Some ((Task_new 7 1 SYNTHETIC 5)\<lparr>t_state := RUNNING\<rparr>)"
  "length (workers_states two_workers) = 2"
  by (simp_all add: two_workers_def umap_find_def)

theorem complete_replicates_witness:
  "\<exists>p' msg. process_complete_event clock_2s complete_event two_workers = Some p' \<and>
    rep_stream p' = rep_stream two_workers @ [msg] \<and> mirrors p' (rep_apply clock_2s msg two_workers)"
proof -
  have u: "umap_find (tasks two_workers) (com_task_id (complete (ie_msg complete_event))) =
      Some ((Task_new 7 1 SYNTHETIC 5)\<lparr>t_state := RUNNING\<rparr>)"
    using two_workers_task(1) by (simp add: complete_event_def)
  have w: "unat (t_worker_id ((Task_new 7 1 SYNTHETIC 5)\<lparr>t_state := RUNNING\<rparr>)) < length (workers_states two_workers)"
    using two_workers_task(2) by (simp add: Task_new_def Task_default_def)
  obtain p' where p': "process_complete_event clock_2s complete_event two_workers = Some p'"
    using process_complete_ok[OF two_workers_facts(1) u refl w] by blast
  have "length (pending two_workers) < 9999" by (simp add: two_workers_facts(3))
  from complete_replicates[OF two_workers_facts(1,2) this two_workers_facts(5) u _ w two_workers_facts(4) p']
    p' show ?thesis by auto
qed

text \<open>C38:
  A completion may overtake its assignment: when the backup does not have the task yet (or
  still has it completed from an earlier run of the client), processing the completion
  first, which is put aside, and then the assignment leads to exactly the state of
  processing them in order, metrics and epoch included.
\<close>

theorem replication_order_irrelevant:
  assumes "k = ar_task_id (assigned_rep (ie_msg a))" and "k = cr_task_id (completed_rep (ie_msg c))"
    and "umap_find (tasks b) k = None \<or> (\<exists>u. umap_find (tasks b) k = Some u \<and> t_state u = COMPLETED)"
    and "umap_find (early_complete_reps b) k = None"
    and "current_epoch b \<le> epoch (ie_msg a)" and "epoch (ie_msg a) \<le> epoch (ie_msg c)"
  shows "process_assign_replicate_event env a (process_complete_replicate_event c b) =
    process_complete_replicate_event c (process_assign_replicate_event env a b)"
proof -
  let ?t = "replicated_task (assigned_rep (ie_msg a)) (now_at env (ticks (shared b)))"
  have t: "t_id ?t = k" "t_state ?t = RUNNING"
    using assms(1) by (simp_all add: replicated_task_def Task_new_def Task_default_def Let_def split: TaskType.split)
  have "\<not> epoch (ie_msg c) < current_epoch b" "\<not> epoch (ie_msg a) < current_epoch b"
    "\<not> epoch (ie_msg c) < epoch (ie_msg a)"
    using assms(5,6) by (auto simp: not_less)
  moreover have "process_complete_replicate_event c b = b\<lparr>is_primary := False,
      early_complete_reps := umap_assign k c (early_complete_reps b)\<rparr>"
    using assms(2,3) calculation(1) by (auto simp: process_complete_replicate_event_def Let_def)
  ultimately show ?thesis
    using assms(2,4) t
    by (simp add: process_assign_replicate_event_def process_complete_replicate_event_def Let_def
        now_ns_eq set_task_def umap_find_assign umap_erase_assign)
qed

text \<open>Assignment and completion of task 3, for a backup that has nothing yet.\<close>

definition rep_run :: Task where
  "rep_run = (Task_new 3 1 SYNTHETIC 5)\<lparr>t_state := RUNNING, started_at := 8\<rparr>"

definition rep_assign :: IncomingEvent where
  "rep_assign = \<lparr>ie_fd = 6, ie_msg = assign_rep_message 2 rep_run\<rparr>"

definition rep_complete :: IncomingEvent where
  "rep_complete = \<lparr>ie_fd = 6, ie_msg = complete_rep_message 2
     (rep_run\<lparr>t_state := COMPLETED, completed_at := 9, t_success := 1\<rparr>)\<rparr>"

theorem replication_order_irrelevant_witness:
  "process_assign_replicate_event clock_2s rep_assign (process_complete_replicate_event rep_complete Coordinator_init) =
   process_complete_replicate_event rep_complete (process_assign_replicate_event clock_2s rep_assign Coordinator_init)"
  by (rule replication_order_irrelevant[of 3])
    (simp_all add: rep_assign_def rep_complete_def rep_run_def assign_rep_message_def complete_rep_message_def
      Task_new_def Task_default_def AssignedReplicationMsg_default_def Coordinator_init_def Message_new_def)

text \<open>
  Replication messages of an older epoch change no task: the only effect is that the
  receiver stops being primary, which the code does before it looks at the epoch, so that a
  late message of a deposed primary still demotes the current one.
\<close>

theorem stale_epoch_changes_no_task:
  assumes "epoch (ie_msg ev) < current_epoch s"
  shows "process_assign_replicate_event env ev s = s\<lparr>is_primary := False\<rparr> \<and>
    process_complete_replicate_event ev s = s\<lparr>is_primary := False\<rparr>"
  using assms by (simp add: process_assign_replicate_event_def process_complete_replicate_event_def Let_def)

theorem stale_epoch_changes_no_task_witness:
  "\<not> is_primary (process_assign_replicate_event clock_2s rep_assign
      (Coordinator_init\<lparr>is_primary := True, current_epoch := 5\<rparr>)) \<and>
   tasks (process_complete_replicate_event rep_assign
      (Coordinator_init\<lparr>is_primary := True, current_epoch := 5\<rparr>)) = []"
proof -
  have "epoch (ie_msg rep_assign) < current_epoch (Coordinator_init\<lparr>is_primary := True, current_epoch := 5\<rparr>)"
    by (simp add: rep_assign_def)
  from stale_epoch_changes_no_task[OF this] show ?thesis by (simp add: Coordinator_init_def)
qed

end
