(* ===== verification/Top_Report.thy ===== *)
theory Top_Report
  imports Task_Accounting "HOL-Library.Multiset"
begin

text \<open>
  \<^verbatim>\<open>process_top_request\<close>: the report a coordinator sends to the monitoring tool.

  \<^verbatim>\<open>std::nth_element\<close> puts the element of rank \<^verbatim>\<open>p95_idx\<close> in its place; the model reads it off the
  sorted samples. The response is pushed in a loop without a bound, so that the handler
  returns only if the network thread keeps taking events: \<open>top_request_returns\<close> states that
  it then does.
\<close>

subsection \<open>Operations\<close>

definition p95_index :: "nat \<Rightarrow> nat" where
  "p95_index n = n * 95 div 100"

definition latency_report :: "Metrics \<Rightarrow> CoordinatorMetrics \<Rightarrow> CoordinatorMetrics" where
  "latency_report m cm = (let copy = latencies m in
     if copy \<noteq> [] then
       cm\<lparr>p95_latency_us := sort copy ! p95_index (length copy) div 1000,
          min_latency_us := Min (set copy) div 1000, max_latency_us := Max (set copy) div 1000\<rparr>
     else cm\<lparr>p95_latency_us := 0, min_latency_us := 0, max_latency_us := 0\<rparr>)"

text \<open>Division by a product that wraps to zero faults.\<close>

definition average_us :: "u64 \<Rightarrow> u64 \<Rightarrow> u64 option" where
  "average_us total_ns completed = (if completed > 0 then
     (if completed * 1000 = 0 then None else Some (total_ns div (completed * 1000))) else Some 0)"

definition worker_report :: "u64 \<Rightarrow> nat \<Rightarrow> WorkerState \<Rightarrow> WorkerMetrics option" where
  "worker_report now i w = do {
     avg \<leftarrow> average_us (ws_total_latency_ns w) (ws_tasks_completed w);
     Some \<lparr>wm_avg_latency_us = avg, wm_tasks_completed = ws_tasks_completed w,
       wm_tasks_running = of_nat (length (running_tasks w)),
       last_heartbeat_ms = (now - last_heartbeat_ns w) div 1000000,
       wm_worker_id = of_nat i, wm_alive = (if alive w then 1 else 0)\<rparr>
   }"

primrec workers_report :: "u64 \<Rightarrow> nat \<Rightarrow> WorkerState list \<Rightarrow> WorkerMetrics list option" where
  "workers_report now i [] = Some []"
| "workers_report now i (w # ws) = do {
     r \<leftarrow> worker_report now i w;
     rs \<leftarrow> workers_report now (Suc i) ws;
     Some (r # rs)
   }"

partial_function (option) push_until :: "Env \<Rightarrow> OutgoingEvent \<Rightarrow> Coordinator \<Rightarrow> Coordinator option" where
  "push_until env ev s = (case try_push_outgoing env ev s of (ok, s) \<Rightarrow>
     if ok then Some s else push_until env ev s)"

definition process_top_request :: "Env \<Rightarrow> IncomingEvent \<Rightarrow> Coordinator \<Rightarrow> Coordinator option" where
  "process_top_request env event s = do {
     let cm = latency_report (metrics s) CoordinatorMetrics_default;
     avg \<leftarrow> average_us (total_latency_ns (metrics s)) (tasks_completed (metrics s));
     let cm = cm\<lparr>avg_latency_us := avg, cm_tasks_completed := tasks_completed (metrics s),
       cm_tasks_running := tasks_running (metrics s), cm_tasks_queued := tasks_queued (metrics s)\<rparr>;
     case get_rolling_throughput env s of (n, s) \<Rightarrow> do {
       let cm = cm\<lparr>throughput := n, cm_active_workers := of_nat (length (active_workers s)),
         cm_is_primary := (if is_primary s then 1 else 0)\<rparr>;
       case now_ns_u64 env s of (now, s) \<Rightarrow> do {
         wms \<leftarrow> workers_report now 0 (workers_states s);
         let msg = (Message_new TOP_RESPONSE)\<lparr>top_response :=
           \<lparr>coordinator_metrics = cm, workers_metrics = wms\<rparr>\<rparr>;
         push_until env \<lparr>oe_fd = ie_fd event, oe_msg = msg\<rparr> s
       }
     }
   }"

subsection \<open>Ranks\<close>

lemma p95_index_less: "0 < n \<Longrightarrow> p95_index n < n"
  by (simp add: p95_index_def)

subsection \<open>The push without a bound\<close>

text \<open>A push that gives up has seen no turn in which the network thread took something.\<close>

lemma try_push_outgoing_no_drain:
  assumes inv: "shared_inv (shared s)" and pos: "0 < bound (outgoing_queue (shared s))"
    and fails: "try_push_outgoing env ev s = (False, s')"
  shows "turns (shared s) < turns (shared s') \<and>
    (\<forall>j. turns (shared s) \<le> j \<and> j < turns (shared s') \<longrightarrow> drain_at env j = 0)"
proof -
  let ?B = "bound (outgoing_queue (shared s))" and ?t = "turns (shared s)"
  obtain sh where r: "push_retry QUEUE_RETRY_COUNT (\<lambda>_. network_turn env) (push_outgoing ev) 0
      (network_turn env (shared s)) = (False, sh)" and s': "s' = s\<lparr>shared := sh\<rparr>"
    using fails by (auto simp: try_push_outgoing_def split: prod.splits)
  define P where "P q \<longleftrightarrow> shared_inv q \<and> bound (outgoing_queue q) = ?B \<and> ?t < turns q \<and>
    (\<forall>j. ?t \<le> j \<and> j < turns q - 1 \<longrightarrow> drain_at env j = 0) \<and>
    (drain_at env (turns q - 1) = 0 \<or> length (contents (outgoing_queue q)) < ?B)" for q
  have full: "length (contents (outgoing_queue q)) = ?B" if "P q" "push_outgoing ev q = None" for q
    using that spsc.push_None[of "outgoing_queue q" ev]
    by (simp add: P_def shared_inv_def push_outgoing_def del: length_contents)
  have turn: "P (network_turn env q)"
    if "shared_inv q" "bound (outgoing_queue q) = ?B" "?t \<le> turns q" "\<forall>j. ?t \<le> j \<and> j < turns q \<longrightarrow> drain_at env j = 0"
      "length (contents (outgoing_queue q)) \<le> ?B" for q
  proof -
    have "spsc_inv (outgoing_queue q)" using that(1) by (simp add: shared_inv_def)
    from network_turn_outgoing(3,4)[OF this, of env] that network_turn_inv[OF that(1), of env] pos
    show ?thesis unfolding P_def by (auto simp del: length_contents)
  qed
  have "if False then True else P sh"
  proof (rule push_retry_rule[OF r])
    show "P (network_turn env (shared s))"
      using inv spsc.items_le[of "outgoing_queue (shared s)"] by (intro turn) (auto simp: shared_inv_def)
    show "P (network_turn env q)" if q: "P q" "push_outgoing ev q = None" for q
    proof (rule turn)
      have d: "drain_at env (turns q - 1) = 0" using q full[OF q] by (auto simp: P_def)
      show "\<forall>j. ?t \<le> j \<and> j < turns q \<longrightarrow> drain_at env j = 0"
      proof (intro allI impI)
        fix j assume "?t \<le> j \<and> j < turns q"
        then show "drain_at env j = 0"
          using d q(1) by (cases "j = turns q - 1") (auto simp: P_def)
      qed
    qed (use q full[OF q] in \<open>auto simp: P_def simp del: length_contents\<close>)
  qed simp_all
  then have P: "P sh" by simp
  have "drain_at env (turns sh - 1) = 0" using P full[OF P push_retry_gives_up[OF r]] by (auto simp: P_def)
  have "drain_at env j = 0" if "?t \<le> j" "j < turns sh" for j
    using that P \<open>drain_at env (turns sh - 1) = 0\<close> by (cases "j = turns sh - 1") (auto simp: P_def)
  then show ?thesis using P s' by (simp add: P_def)
qed

lemma push_until_returns:
  assumes "shared_inv (shared s)" and "0 < bound (outgoing_queue (shared s))"
    and "turns (shared s) \<le> j" and "0 < drain_at env j"
  shows "\<exists>sh. push_until env ev s = Some (s\<lparr>shared := sh\<rparr>) \<and> shared_inv sh \<and> ticks sh = ticks (shared s) \<and>
    out_stream (s\<lparr>shared := sh\<rparr>) = out_stream s @ [ev]"
  using assms(1-3)
proof (induction "j - turns (shared s)" arbitrary: s rule: less_induct)
  case less
  obtain ok s1 where p: "try_push_outgoing env ev s = (ok, s1)" by fastforce
  obtain sh where s1: "s1 = s\<lparr>shared := sh\<rparr>" "shared_inv sh" "ticks sh = ticks (shared s)"
    "out_stream s1 = out_stream s @ (if ok then [ev] else [])"
    using try_push_outgoing_eq[OF less.prems(1) p] by blast
  show ?case
  proof (cases ok)
    case True
    then show ?thesis using p s1 by (intro exI[of _ sh]) (simp add: push_until.simps)
  next
    case False
    then have nd: "turns (shared s) < turns sh" "\<forall>i. turns (shared s) \<le> i \<and> i < turns sh \<longrightarrow> drain_at env i = 0"
      using try_push_outgoing_no_drain[OF less.prems(1,2), of env ev s1] p s1(1) by simp_all
    then have "turns sh \<le> j" using less.prems(3) assms(4) by (metis not_le less_irrefl)
    moreover from this have "j - turns (shared s1) < j - turns (shared s)"
      using nd(1) s1(1) by simp
    moreover have "bound (outgoing_queue sh) = bound (outgoing_queue (shared s))"
      using try_push_outgoing_level[OF less.prems(1) p] s1(1) by simp
    ultimately obtain sh' where "push_until env ev s1 = Some (s1\<lparr>shared := sh'\<rparr>)" "shared_inv sh'"
      "ticks sh' = ticks sh" "out_stream (s1\<lparr>shared := sh'\<rparr>) = out_stream s1 @ [ev]"
      using less.hyps[of s1] s1(1,2) nd(1) less.prems(2) by auto
    then show ?thesis
      using False p s1 by (intro exI[of _ sh']) (simp add: push_until.simps[of env ev s] out_stream_def)
  qed
qed

definition small_count :: "u64 \<Rightarrow> bool" where
  "small_count n \<longleftrightarrow> n * 1000 \<noteq> 0 \<or> n = 0"

lemma average_us_Some: "small_count completed \<Longrightarrow> \<exists>a. average_us total_ns completed = Some a"
  by (auto simp: average_us_def small_count_def)

lemma workers_report_Some:
  assumes "\<forall>w\<in>set ws. small_count (ws_tasks_completed w)"
  shows "\<exists>rs. workers_report now i ws = Some rs \<and> length rs = length ws"
  using assms
proof (induction ws arbitrary: i)
  case (Cons w ws)
  obtain a where "average_us (ws_total_latency_ns w) (ws_tasks_completed w) = Some a"
    using average_us_Some Cons.prems by fastforce
  then show ?case using Cons.IH[of "Suc i"] Cons.prems by (auto simp: worker_report_def)
qed simp

definition counts_ok :: "Coordinator \<Rightarrow> bool" where
  "counts_ok s \<longleftrightarrow> small_count (tasks_completed (metrics s)) \<and>
     (\<forall>w\<in>set (workers_states s). small_count (ws_tasks_completed w))"

lemma top_request_eq:
  assumes ok: "counts_ok s"
  shows "\<exists>wms msg cts sh. process_top_request env ev s = push_until env \<lparr>oe_fd = ie_fd ev, oe_msg = msg\<rparr>
      (s\<lparr>metrics := (metrics s)\<lparr>completion_times_ns := cts\<rparr>, shared := sh\<rparr>) \<and>
    sh = tick (tick (shared s)) \<and> m_type msg = TOP_RESPONSE \<and>
    workers_metrics (top_response msg) = wms \<and> length wms = length (workers_states s) \<and>
    cm_tasks_completed (coordinator_metrics (top_response msg)) = tasks_completed (metrics s) \<and>
    cm_tasks_running (coordinator_metrics (top_response msg)) = tasks_running (metrics s) \<and>
    cm_tasks_queued (coordinator_metrics (top_response msg)) = tasks_queued (metrics s)"
proof -
  obtain avg where avg: "average_us (total_latency_ns (metrics s)) (tasks_completed (metrics s)) = Some avg"
    using average_us_Some ok unfolding counts_ok_def by blast
  obtain n cts where thr: "get_rolling_throughput env s =
      (n, s\<lparr>metrics := (metrics s)\<lparr>completion_times_ns := cts\<rparr>, shared := tick (shared s)\<rparr>)"
    by (simp add: get_rolling_throughput_def now_ns_eq Let_def)
  obtain wms where wms: "workers_report (now_at env (ticks (tick (shared s)))) 0 (workers_states s) = Some wms"
    "length wms = length (workers_states s)"
    using workers_report_Some ok unfolding counts_ok_def by blast
  define cm where "cm = (latency_report (metrics s) CoordinatorMetrics_default)\<lparr>avg_latency_us := avg,
    cm_tasks_completed := tasks_completed (metrics s), cm_tasks_running := tasks_running (metrics s),
    cm_tasks_queued := tasks_queued (metrics s), throughput := n,
    cm_active_workers := of_nat (length (active_workers s)), cm_is_primary := (if is_primary s then 1 else 0)\<rparr>"
  define msg where "msg = (Message_new TOP_RESPONSE)\<lparr>top_response :=
    \<lparr>coordinator_metrics = cm, workers_metrics = wms\<rparr>\<rparr>"
  have "process_top_request env ev s = push_until env \<lparr>oe_fd = ie_fd ev, oe_msg = msg\<rparr>
      (s\<lparr>metrics := (metrics s)\<lparr>completion_times_ns := cts\<rparr>, shared := tick (tick (shared s))\<rparr>)"
    using avg thr wms by (simp add: process_top_request_def Let_def now_ns_eq msg_def cm_def)
  then show ?thesis
    using wms(2)
    by (intro exI[of _ wms] exI[of _ msg] exI[of _ cts] exI[of _ "tick (tick (shared s))"])
      (simp add: msg_def cm_def Message_new_def)
qed

subsection \<open>Properties\<close>

text \<open>C39:
  A monitoring request is answered as long as the network thread makes progress: if it takes
  an event from the outgoing queue in some later turn, the unbounded push loop ends, the
  handler returns, and exactly one response, to the requester's descriptor and with one
  entry per worker, has been added to the stream. Nothing else but the trimmed window of
  completion times changes.
\<close>

theorem top_request_returns:
  assumes "shared_inv (shared s)" and "0 < bound (outgoing_queue (shared s))" and "counts_ok s"
    and "turns (shared s) \<le> j" and "0 < drain_at env j"
  shows "\<exists>s' msg. process_top_request env ev s = Some s' \<and> shared_inv (shared s') \<and>
    out_stream s' = out_stream s @ [\<lparr>oe_fd = ie_fd ev, oe_msg = msg\<rparr>] \<and> m_type msg = TOP_RESPONSE \<and>
    length (workers_metrics (top_response msg)) = length (workers_states s) \<and>
    cm_tasks_completed (coordinator_metrics (top_response msg)) = tasks_completed (metrics s) \<and>
    s' = s\<lparr>metrics := (metrics s)\<lparr>completion_times_ns := completion_times_ns (metrics s')\<rparr>, shared := shared s'\<rparr>"
proof -
  obtain msg cts where eq: "process_top_request env ev s = push_until env \<lparr>oe_fd = ie_fd ev, oe_msg = msg\<rparr>
      (s\<lparr>metrics := (metrics s)\<lparr>completion_times_ns := cts\<rparr>, shared := tick (tick (shared s))\<rparr>)"
    "m_type msg = TOP_RESPONSE" "length (workers_metrics (top_response msg)) = length (workers_states s)"
    "cm_tasks_completed (coordinator_metrics (top_response msg)) = tasks_completed (metrics s)"
    using top_request_eq[OF assms(3), of env ev] by blast
  define s1 where "s1 = s\<lparr>metrics := (metrics s)\<lparr>completion_times_ns := cts\<rparr>, shared := tick (tick (shared s))\<rparr>"
  have s1: "shared_inv (shared s1)" "0 < bound (outgoing_queue (shared s1))" "turns (shared s1) \<le> j"
    using assms by (simp_all add: s1_def tick_def shared_inv_def)
  obtain sh where "push_until env \<lparr>oe_fd = ie_fd ev, oe_msg = msg\<rparr> s1 = Some (s1\<lparr>shared := sh\<rparr>)"
    "shared_inv sh" "out_stream (s1\<lparr>shared := sh\<rparr>) = out_stream s1 @ [\<lparr>oe_fd = ie_fd ev, oe_msg = msg\<rparr>]"
    using push_until_returns[OF s1 assms(5)] by blast
  moreover have "out_stream s1 = out_stream s" by (simp add: s1_def out_stream_def)
  ultimately show ?thesis
    using eq by (intro exI[of _ "s1\<lparr>shared := sh\<rparr>"] exI[of _ msg]) (simp add: s1_def)
qed

lemma Coordinator_init_counts: "counts_ok Coordinator_init"
  by (simp add: counts_ok_def small_count_def Coordinator_init_def Metrics_default_def)

definition draining :: Env where
  "draining = \<lparr>now_at = \<lambda>_. 5, drain_at = \<lambda>_. 1, control_at = \<lambda>_. [], task_at = \<lambda>_. []\<rparr>"

theorem top_request_returns_witness:
  "\<exists>s' msg. process_top_request draining \<lparr>ie_fd = 8, ie_msg = Message_new TOP_REQUEST\<rparr> Coordinator_init = Some s' \<and>
    out_stream s' = out_stream Coordinator_init @ [\<lparr>oe_fd = 8, oe_msg = msg\<rparr>] \<and> m_type msg = TOP_RESPONSE"
proof -
  have "0 < bound (outgoing_queue (shared Coordinator_init))"
    using Coordinator_init_outgoing(2)
    by (simp add: COORDINATOR_OUTGOING_QUEUE_CAPACITY_def COORDINATOR_TASK_QUEUE_CAPACITY_def)
  from top_request_returns[OF Coordinator_init_shared this Coordinator_init_counts order_refl,
      of draining "\<lparr>ie_fd = 8, ie_msg = Message_new TOP_REQUEST\<rparr>"]
  show ?thesis by (auto simp: draining_def)
qed

text \<open>
  The reported percentile is one: with \<open>n\<close> latency samples, the index \<^verbatim>\<open>(n * 95) / 100\<close> is
  inside the vector, the value there is one of the samples, more than 95 per cent of them
  (rounded down) are at most that value and at least the remaining ones are no smaller, and
  it lies between the reported minimum and maximum.
\<close>

theorem p95_is_percentile:
  assumes "latencies m \<noteq> []"
  shows "\<exists>v\<in>set (latencies m). let n = length (latencies m); r = latency_report m cm in
    n * 95 div 100 < n \<and> p95_latency_us r = v div 1000 \<and>
    n * 95 div 100 < length (filter (\<lambda>x. x \<le> v) (latencies m)) \<and>
    n - n * 95 div 100 \<le> length (filter (\<lambda>x. v \<le> x) (latencies m)) \<and>
    min_latency_us r \<le> p95_latency_us r \<and> p95_latency_us r \<le> max_latency_us r"
proof -
  let ?L = "latencies m" and ?i = "p95_index (length (latencies m))"
  define v where "v = sort ?L ! ?i"
  have i: "?i < length ?L" using assms by (intro p95_index_less) simp
  then have v: "v \<in> set ?L" using nth_mem[of ?i "sort ?L"] by (simp add: v_def)
  have rank: "Suc ?i \<le> length (filter (\<lambda>x. x \<le> v) ?L)" "length ?L - ?i \<le> length (filter (\<lambda>x. v \<le> x) ?L)"
    using sorted_nth_rank[of "sort ?L" ?i] i by (simp_all add: filter_sort_length flip: v_def)
  have "Min (set ?L) \<le> v" "v \<le> Max (set ?L)" using v by simp_all
  then have "Min (set ?L) div 1000 \<le> v div 1000" "v div 1000 \<le> Max (set ?L) div 1000"
    by (simp_all add: word_le_nat_alt unat_div div_le_mono)
  moreover have "p95_latency_us (latency_report m cm) = v div 1000"
    "min_latency_us (latency_report m cm) = Min (set ?L) div 1000"
    "max_latency_us (latency_report m cm) = Max (set ?L) div 1000"
    using assms by (simp_all add: Let_def latency_report_def flip: v_def)
  ultimately show ?thesis
    using v rank i unfolding p95_index_def Let_def by (intro bexI[of _ v]) simp_all
qed

definition sample_metrics :: Metrics where
  "sample_metrics = Metrics_default\<lparr>latencies := [5000, 1000, 3000]\<rparr>"

theorem p95_is_percentile_witness:
  "latencies sample_metrics \<noteq> [] \<and>
   min_latency_us (latency_report sample_metrics CoordinatorMetrics_default) \<le>
     p95_latency_us (latency_report sample_metrics CoordinatorMetrics_default)"
  using p95_is_percentile[of sample_metrics CoordinatorMetrics_default]
  by (auto simp: Let_def sample_metrics_def)

end
