(* ===== verification/Coordinator_Loop.thy ===== *)
theory Coordinator_Loop
  imports Replica Top_Report
begin

text \<open>
  The scheduler thread: the two queues' loops, one iteration of \<^verbatim>\<open>scheduler_worker\<close>, and the
  runs of a primary.

  \<open>sched_step\<close> is one call of the scheduler thread; \<open>sched_guard\<close> says which incoming events
  a primary can be sent when its peers keep to the protocol (heartbeats come from workers
  that are active, completions from a worker that has registered, no replication messages).
  The interface \<open>guarded_machine\<close> states what the handlers have in common: under its guard no
  call faults, and the invariant stays.
\<close>

subsection \<open>Dispatch and loops\<close>

definition handle_control :: "Env \<Rightarrow> IncomingEvent \<Rightarrow> Coordinator \<Rightarrow> Coordinator option" where
  "handle_control env event s = (case m_type (ie_msg event) of
     HEARTBEAT \<Rightarrow> process_heartbeat_event env event s
   | REGISTER \<Rightarrow> process_register_event env event s
   | _ \<Rightarrow> Some s)"

text \<open>An event of another type is reported and not counted against the budget.\<close>

partial_function (option) control_loop :: "Env \<Rightarrow> nat \<Rightarrow> Coordinator \<Rightarrow> Coordinator option" where
  "control_loop env processed s = (if processed < CONTROL_BUDGET then
     (case try_pop_incoming env pop_control s of
        (None, s) \<Rightarrow> Some s
      | (Some event, s) \<Rightarrow> do {
          s \<leftarrow> handle_control env event s;
          control_loop env
            (if m_type (ie_msg event) \<in> {HEARTBEAT, REGISTER} then processed + 1 else processed) s
        })
     else Some s)"

definition process_control_queue :: "Env \<Rightarrow> Coordinator \<Rightarrow> Coordinator option" where
  "process_control_queue env s = control_loop env 0 s"

definition handle_task :: "Env \<Rightarrow> IncomingEvent \<Rightarrow> Coordinator \<Rightarrow> Coordinator option" where
  "handle_task env event s = (case m_type (ie_msg event) of
     SUBMIT \<Rightarrow> process_submit_event env event s
   | COMPLETE \<Rightarrow> process_complete_event env event s
   | ASSIGNED_REPLICATE \<Rightarrow> Some (process_assign_replicate_event env event s)
   | COMPLETED_REPLICATE \<Rightarrow> Some (process_complete_replicate_event event s)
   | SNAPSHOT \<Rightarrow> Some (process_snapshot_event event s)
   | PEER_RECONNECTED \<Rightarrow> Some (process_peer_reconnected env s)
   | TOP_REQUEST \<Rightarrow> process_top_request env event s
   | _ \<Rightarrow> Some s)"

primrec task_loop :: "Env \<Rightarrow> nat \<Rightarrow> Coordinator \<Rightarrow> Coordinator option" where
  "task_loop env 0 s = Some s"
| "task_loop env (Suc n) s = (case try_pop_incoming env pop_task s of
     (None, s) \<Rightarrow> Some s
   | (Some event, s) \<Rightarrow> do {
       s \<leftarrow> handle_task env event s;
       task_loop env n s
     })"

definition process_task_queue :: "Env \<Rightarrow> Coordinator \<Rightarrow> Coordinator option" where
  "process_task_queue env s = (let
     limit = (if active_workers s = [] then TASK_FALLBACK_BUDGET
              else length (active_workers s) * WORKER_MAX_QUEUE_DEPTH)
   in task_loop env limit s)"

definition scheduler_iteration :: "Env \<Rightarrow> Coordinator \<Rightarrow> Coordinator option" where
  "scheduler_iteration env s = do {
     s \<leftarrow> (if is_primary s then do {
             s \<leftarrow> process_backlog env s;
             replicate_log env s
           } else Some s);
     s \<leftarrow> process_control_queue env s;
     s \<leftarrow> process_task_queue env s;
     case now_ns_u64 env s of (now, s) \<Rightarrow>
       if now - last_sweep s \<ge> SWEEP_INTERVAL_NS then do {
         s \<leftarrow> sweep_workers env s;
         case now_ns_u64 env s of (now, s) \<Rightarrow> Some (s\<lparr>last_sweep := now\<rparr>)
       } else Some s
   }"

text \<open>\<^verbatim>\<open>running_\<close> is seen true \<open>n\<close> times.\<close>

primrec scheduler_worker :: "Env \<Rightarrow> nat \<Rightarrow> Coordinator \<Rightarrow> Coordinator option" where
  "scheduler_worker env 0 s = Some s"
| "scheduler_worker env (Suc n) s = Option.bind (scheduler_iteration env s) (scheduler_worker env n)"

subsection \<open>Guarded machines\<close>

primrec run_events :: "('e \<Rightarrow> 's \<Rightarrow> 's option) \<Rightarrow> 'e list \<Rightarrow> 's \<Rightarrow> 's option" where
  "run_events step [] s = Some s"
| "run_events step (e # es) s = Option.bind (step e s) (run_events step es)"

text \<open>Every event of the run meets its guard in the state it is processed in.\<close>

primrec guarded_run :: "('e \<Rightarrow> 's \<Rightarrow> 's option) \<Rightarrow> ('e \<Rightarrow> 's \<Rightarrow> bool) \<Rightarrow> 'e list \<Rightarrow> 's \<Rightarrow> bool" where
  "guarded_run step guard [] s = True"
| "guarded_run step guard (e # es) s =
     (guard e s \<and> (case step e s of None \<Rightarrow> True | Some s' \<Rightarrow> guarded_run step guard es s'))"

locale guarded_machine =
  fixes step :: "'e \<Rightarrow> 's \<Rightarrow> 's option"
    and guard :: "'e \<Rightarrow> 's \<Rightarrow> bool"
    and inv :: "'s \<Rightarrow> bool"
  assumes step_ok: "inv s \<Longrightarrow> guard e s \<Longrightarrow> \<exists>s'. step e s = Some s' \<and> inv s'"
begin

lemma run_ok:
  assumes "inv s" and "guarded_run step guard es s"
  shows "\<exists>s'. run_events step es s = Some s' \<and> inv s'"
  using assms
proof (induction es arbitrary: s)
  case (Cons e es)
  obtain s1 where s1: "step e s = Some s1" "inv s1"
    using step_ok[OF Cons.prems(1)] Cons.prems(2) by auto
  then have "guarded_run step guard es s1" using Cons.prems(2) by simp
  from Cons.IH[OF s1(2) this] s1(1) show ?case by simp
qed simp

text \<open>A run can be continued: invariants are kept from every state it passes.\<close>

lemma run_append:
  assumes "inv s" and "guarded_run step guard es s" and "run_events step es s = Some s'"
    and "guarded_run step guard fs s'"
  shows "\<exists>s''. run_events step (es @ fs) s = Some s'' \<and> inv s''"
proof -
  have "run_events step (es @ fs) s = Option.bind (run_events step es s) (run_events step fs)" for es s
    by (induction es arbitrary: s) (auto split: Option.bind_split)
  moreover have "inv s'" using run_ok[OF assms(1,2)] assms(3) by simp
  ultimately show ?thesis using run_ok[OF _ assms(4)] assms(3) by simp
qed

end

subsection \<open>The steps of a primary\<close>

datatype sched_event = Backlog | Replicate | Sweep | Control IncomingEvent | Task IncomingEvent | Network

fun sched_step :: "Env \<Rightarrow> sched_event \<Rightarrow> Coordinator \<Rightarrow> Coordinator option" where
  "sched_step env Backlog s = process_backlog env s"
| "sched_step env Replicate s = replicate_log env s"
| "sched_step env Sweep s = sweep_workers env s"
| "sched_step env (Control ev) s = handle_control env ev s"
| "sched_step env (Task ev) s = handle_task env ev s"
| "sched_step env Network s = Some (s\<lparr>shared := network_turn env (shared s)\<rparr>)"

definition control_guard :: "IncomingEvent \<Rightarrow> Coordinator \<Rightarrow> bool" where
  "control_guard ev s = (case m_type (ie_msg ev) of
     HEARTBEAT \<Rightarrow> hb_worker_id (heartbeat (ie_msg ev)) \<in> set (active_workers s)
   | REGISTER \<Rightarrow> available_ids s = [] \<longrightarrow> Suc (length (workers_states s)) < 2 ^ 32
   | _ \<Rightarrow> True)"

definition task_guard :: "Env \<Rightarrow> IncomingEvent \<Rightarrow> Coordinator \<Rightarrow> bool" where
  "task_guard env ev s = (case m_type (ie_msg ev) of
     COMPLETE \<Rightarrow> workers_states s \<noteq> []
   | TOP_REQUEST \<Rightarrow> counts_ok s \<and> (\<exists>j\<ge>turns (shared s). 0 < drain_at env j)
   | ASSIGNED_REPLICATE \<Rightarrow> False
   | COMPLETED_REPLICATE \<Rightarrow> False
   | SNAPSHOT \<Rightarrow> False
   | _ \<Rightarrow> True)"

fun sched_guard :: "Env \<Rightarrow> sched_event \<Rightarrow> Coordinator \<Rightarrow> bool" where
  "sched_guard env (Control ev) s = control_guard ev s"
| "sched_guard env (Task ev) s = task_guard env ev s"
| "sched_guard env _ s = True"

definition primary_inv :: "Coordinator \<Rightarrow> bool" where
  "primary_inv s \<longleftrightarrow> sched_inv s \<and> prim_inv None s"

lemma primary_invD:
  assumes "primary_inv s"
  shows "sched_inv s" "prim_inv None s"
  using assms by (simp_all add: primary_inv_def)

lemma outgoing_bound_pos: "shared_inv sh \<Longrightarrow> 0 < bound (outgoing_queue sh)"
  using unat_cap_bound[of "capacity (outgoing_queue sh)"] by (simp add: shared_inv_def spsc_inv_def bound_def)

lemma network_turn_out: "shared_inv (shared s) \<Longrightarrow> out_stream (s\<lparr>shared := network_turn env (shared s)\<rparr>) = out_stream s"
  using network_turn_stream[of "shared s" env] by (simp add: out_stream_def)

lemma only_shared_primary:
  assumes "primary_inv s" and "only_shared s s'"
  shows "primary_inv s'"
  using assms only_shared_inv[of s s'] prim_inv_only_shared[of None s s'] by (simp add: primary_inv_def)

text \<open>Changes of fields the invariant does not look at.\<close>

lemma primary_inv_upd [simp]:
  "primary_inv (s\<lparr>is_primary := a\<rparr>) = primary_inv s" "primary_inv (s\<lparr>current_epoch := e\<rparr>) = primary_inv s"
  "primary_inv (s\<lparr>metrics := m\<rparr>) = primary_inv s" "primary_inv (s\<lparr>last_sweep := l\<rparr>) = primary_inv s"
  by (simp_all add: primary_inv_def sched_inv_def pool_safe_def tasks_inv_def log_inv_def prim_inv_def
      pool_inv_def accounted_but_def ids_ok_def accounted_task_def answered_def out_stream_def
      cong: TaskState.case_cong)

lemma out_grow_primary:
  assumes inv: "primary_inv s" and sh: "shared_inv sh" "out_stream (s\<lparr>shared := sh\<rparr>) = out_stream s @ evs"
  shows "primary_inv (s\<lparr>shared := sh\<rparr>)"
proof -
  have "accounted_task (s\<lparr>shared := sh\<rparr>) k t" if "accounted_task s k t" for k t
    using accounted_task_mono[OF that, of "s\<lparr>shared := sh\<rparr>"] sh(2) by simp
  then show ?thesis
    using inv sh(1)
    by (auto simp: primary_inv_def sched_inv_def prim_inv_def accounted_but_def ids_ok_def)
qed

lemma peer_reconnected_ok:
  assumes "primary_inv s"
  shows "primary_inv (process_peer_reconnected env s)"
proof (cases "is_primary s")
  case True
  define s1 where "s1 = s\<lparr>current_epoch := current_epoch s + 1\<rparr>"
  define ev where "ev = OutgoingEvent_default\<lparr>oe_msg := (Message_new SNAPSHOT)
    \<lparr>snapshot := \<lparr>snap_tasks = tasks s\<rparr>, epoch := current_epoch s + 1\<rparr>\<rparr>"
  obtain ok s2 where push: "try_push_outgoing env ev s1 = (ok, s2)" by fastforce
  have inv1: "primary_inv s1" using assms by (simp add: s1_def)
  obtain sh where "s2 = s1\<lparr>shared := sh\<rparr>" "shared_inv sh"
    "out_stream s2 = out_stream s1 @ (if ok then [ev] else [])"
    using try_push_outgoing_eq[OF sched_invD(3)[OF primary_invD(1)[OF inv1]] push] by blast
  then have "primary_inv s2" using out_grow_primary[OF inv1] by simp
  then show ?thesis
    using True push by (simp add: process_peer_reconnected_def Let_def s1_def ev_def)
qed (use assms in \<open>simp add: process_peer_reconnected_def\<close>)

lemma top_request_ok:
  assumes inv: "primary_inv s" and "counts_ok s" and "turns (shared s) \<le> j" and "0 < drain_at env j"
  shows "\<exists>s'. process_top_request env ev s = Some s' \<and> primary_inv s'"
proof -
  note sh = sched_invD(3)[OF primary_invD(1)[OF inv]]
  obtain msg cts where eq: "process_top_request env ev s = push_until env \<lparr>oe_fd = ie_fd ev, oe_msg = msg\<rparr>
      (s\<lparr>metrics := (metrics s)\<lparr>completion_times_ns := cts\<rparr>, shared := tick (tick (shared s))\<rparr>)"
    using top_request_eq[OF assms(2), of env ev] by blast
  define s1 where "s1 = s\<lparr>metrics := (metrics s)\<lparr>completion_times_ns := cts\<rparr>, shared := tick (tick (shared s))\<rparr>"
  have inv1: "primary_inv s1"
  proof -
    have "primary_inv ((s\<lparr>metrics := (metrics s)\<lparr>completion_times_ns := cts\<rparr>\<rparr>)\<lparr>shared := tick (tick (shared s))\<rparr>)"
      using inv sh by (intro out_grow_primary[where evs = "[]"]) (simp_all add: out_stream_def)
    then show ?thesis by (simp add: s1_def)
  qed
  have "turns (shared s1) \<le> j" using assms(3) by (simp add: s1_def tick_def)
  then obtain sh' where "push_until env \<lparr>oe_fd = ie_fd ev, oe_msg = msg\<rparr> s1 = Some (s1\<lparr>shared := sh'\<rparr>)"
    "shared_inv sh'" "out_stream (s1\<lparr>shared := sh'\<rparr>) = out_stream s1 @ [\<lparr>oe_fd = ie_fd ev, oe_msg = msg\<rparr>]"
    using push_until_returns[OF _ _ _ assms(4), of s1] sched_invD(3)[OF primary_invD(1)[OF inv1]]
      outgoing_bound_pos by blast
  then show ?thesis using eq out_grow_primary[OF inv1] by (simp flip: s1_def)
qed

lemma control_step_ok:
  assumes inv: "primary_inv s" and g: "control_guard ev s"
  shows "\<exists>s'. handle_control env ev s = Some s' \<and> primary_inv s'"
proof (cases "m_type (ie_msg ev)")
  case HEARTBEAT
  let ?i = "hb_worker_id (heartbeat (ie_msg ev))"
  note p = prim_invD(1)[OF primary_invD(2)[OF inv]]
  have i: "?i \<in> set (active_workers s)" using g HEARTBEAT by (simp add: control_guard_def)
  then have "unat ?i < length (workers_states s)" "alive (workers_states s ! unat ?i)"
    using pool_inv_active_iff[OF p] by blast+
  then show ?thesis
    using heartbeat_ok[OF primary_invD(1)[OF inv], of ev env] primary_invD(2)[OF inv] HEARTBEAT
    by (auto simp: handle_control_def primary_inv_def)
next
  case REGISTER
  then show ?thesis
    using register_ok[OF primary_invD(1)[OF inv], of env ev] primary_invD(2)[OF inv] g
    by (auto simp: handle_control_def primary_inv_def control_guard_def)
qed (use inv in \<open>simp_all add: handle_control_def\<close>)

lemma complete_step_ok:
  assumes inv: "primary_inv s" and ws: "workers_states s \<noteq> []"
  shows "\<exists>s'. process_complete_event env ev s = Some s' \<and> primary_inv s'"
proof (cases "umap_find (tasks s) (com_task_id (complete (ie_msg ev)))")
  case None
  then show ?thesis using process_complete_unknown[OF None] inv by simp
next
  case (Some u)
  have "unat (t_worker_id u) < max 1 (length (workers_states s))"
    using Some prim_invD(3)[OF primary_invD(2)[OF inv]] unfolding ids_ok_def by blast
  then have "unat (t_worker_id u) < length (workers_states s)" using ws by (simp add: max_def Suc_le_eq split: if_splits)
  then show ?thesis
    using process_complete_ok[OF primary_invD(1)[OF inv] Some refl, of env] primary_invD(2)[OF inv]
    by (auto simp: primary_inv_def)
qed

lemma task_step_ok:
  assumes inv: "primary_inv s" and g: "task_guard env ev s"
  shows "\<exists>s'. handle_task env ev s = Some s' \<and> primary_inv s'"
proof (cases "m_type (ie_msg ev)")
  case SUBMIT
  then show ?thesis
    using process_submit_ok[OF primary_invD(1)[OF inv], of env ev] primary_invD(2)[OF inv]
    by (auto simp: handle_task_def primary_inv_def)
next
  case COMPLETE
  then show ?thesis
    using complete_step_ok[OF inv, of env ev] g by (simp add: handle_task_def task_guard_def)
next
  case PEER_RECONNECTED
  then show ?thesis using peer_reconnected_ok[OF inv] by (simp add: handle_task_def)
next
  case TOP_REQUEST
  then show ?thesis
    using top_request_ok[OF inv, of _ env ev] g by (auto simp: handle_task_def task_guard_def)
qed (use inv g in \<open>simp_all add: handle_task_def task_guard_def\<close>)

lemma sched_step_ok:
  assumes inv: "primary_inv s" and g: "sched_guard env e s"
  shows "\<exists>s'. sched_step env e s = Some s' \<and> primary_inv s'"
proof (cases e)
  case Backlog
  then show ?thesis
    using process_backlog_ok[OF primary_invD(1)[OF inv], of env] primary_invD(2)[OF inv]
    by (auto simp: primary_inv_def)
next
  case Replicate
  obtain s' where "replicate_log env s = Some s'" "log_only s s'" "sched_inv s'"
    using replicate_log_only[OF primary_invD(1)[OF inv]] by blast
  then show ?thesis
    using Replicate prim_inv_log_only[OF primary_invD(2)[OF inv]] by (simp add: primary_inv_def)
next
  case Sweep
  then show ?thesis
    using sweep_workers_ok[OF primary_invD(1)[OF inv], of env] primary_invD(2)[OF inv]
    by (auto simp: primary_inv_def)
next
  case (Control ev)
  then show ?thesis using control_step_ok[OF inv] g by simp
next
  case (Task ev)
  then show ?thesis using task_step_ok[OF inv] g by simp
next
  case Network
  note sh = sched_invD(3)[OF primary_invD(1)[OF inv]]
  then have "primary_inv (s\<lparr>shared := network_turn env (shared s)\<rparr>)"
    using out_grow_primary[OF inv, of "network_turn env (shared s)" "[]"] network_turn_inv[OF sh]
    by (simp add: network_turn_out)
  then show ?thesis using Network by simp
qed

interpretation primary: guarded_machine "sched_step env" "sched_guard env" primary_inv
  by unfold_locales (rule sched_step_ok)

text \<open>\<open>primary_inv\<close> read as a statement about the tasks.\<close>

lemma primary_inv_accounts:
  assumes inv: "primary_inv s" and t: "umap_find (tasks s) k = Some t"
  shows "t_state t = QUEUED \<and> k \<in> set (queued_backlog s) \<or>
    t_state t = RUNNING \<and> t_worker_id t \<in> set (active_workers s) \<and>
      k \<in> set (running_tasks (workers_states s ! unat (t_worker_id t))) \<or>
    t_state t = COMPLETED \<and> (k \<in> set (completed_backlog s) \<or> answered s t)"
proof -
  note p = prim_invD[OF primary_invD(2)[OF inv]]
  have "accounted_task s k t" using p(2) t by (simp add: accounted_but_def)
  moreover have "t_worker_id t \<in> set (active_workers s)"
    if "unat (t_worker_id t) < length (workers_states s)"
      "k \<in> set (running_tasks (workers_states s ! unat (t_worker_id t)))"
  proof -
    have "alive (workers_states s ! unat (t_worker_id t))"
      using p(1) that unfolding pool_inv_def by (metis empty_iff list.set(1))
    then show ?thesis using pool_inv_active_iff[OF p(1)] that(1) by blast
  qed
  ultimately show ?thesis by (simp add: accounted_task_def split: TaskState.splits)
qed

lemma Coordinator_init_primary: "primary_inv Coordinator_init"
  using Coordinator_init_sched Coordinator_init_pool
  by (simp add: primary_inv_def prim_inv_def accounted_but_def ids_ok_def Coordinator_init_def)

text \<open>C1:
  No task is lost and no call faults, in any run of a primary: from the constructor's state,
  whatever sequence of handlers, backlog rounds, sweeps, replication rounds and turns of the
  network thread the scheduler goes through (with heartbeats from active workers,
  completions only after a worker has registered, and no replication messages), every call
  returns, and in the state reached every task of the table is queued and in the backlog, or
  running on an active worker whose set of running tasks has it, or completed, and then its
  result has been pushed for the client or waits in the backlog of results.
\<close>

theorem no_task_lost:
  assumes "guarded_run (sched_step env) (sched_guard env) es Coordinator_init"
  shows "\<exists>s. run_events (sched_step env) es Coordinator_init = Some s \<and> pool_inv s \<and>
    (\<forall>k t. umap_find (tasks s) k = Some t \<longrightarrow>
       t_state t = QUEUED \<and> k \<in> set (queued_backlog s) \<or>
       t_state t = RUNNING \<and> t_worker_id t \<in> set (active_workers s) \<and>
         k \<in> set (running_tasks (workers_states s ! unat (t_worker_id t))) \<or>
       t_state t = COMPLETED \<and> (k \<in> set (completed_backlog s) \<or>
         (\<exists>fd ep. \<lparr>oe_fd = fd, oe_msg = result_message ep t\<rparr> \<in> set (out_stream s))))"
proof -
  obtain s where s: "run_events (sched_step env) es Coordinator_init = Some s" "primary_inv s"
    using primary.run_ok[OF Coordinator_init_primary assms] by blast
  then show ?thesis
    using primary_inv_accounts[OF s(2)] prim_invD(1)[OF primary_invD(2)[OF s(2)]]
    unfolding answered_def by blast
qed

definition register_event :: IncomingEvent where
  "register_event = \<lparr>ie_fd = 9, ie_msg = Message_new REGISTER\<rparr>"

lemma first_register:
  assumes "process_register_event env register_event Coordinator_init = Some s"
  shows "workers_states s \<noteq> []"
proof -
  obtain ok s1 where push: "try_push_outgoing env (ack_event register_event (reg_id Coordinator_init)) Coordinator_init = (ok, s1)"
    by fastforce
  have "fst (try_push_outgoing env (ack_event register_event (reg_id Coordinator_init)) Coordinator_init)"
    using Coordinator_init_outgoing by (intro try_push_outgoing_room Coordinator_init_shared)
      (simp add: COORDINATOR_OUTGOING_QUEUE_CAPACITY_def COORDINATOR_TASK_QUEUE_CAPACITY_def del: length_contents)
  then have ok using push by simp
  moreover have "slots Coordinator_init \<noteq> []" by (simp add: slots_def Coordinator_init_def)
  moreover have "available_ids Coordinator_init = [] \<longrightarrow> Suc (length (workers_states Coordinator_init)) < 2 ^ 32"
    by (simp add: Coordinator_init_def)
  ultimately show ?thesis
    using register_eq(2)[OF Coordinator_init_shared sched_invD(1)[OF Coordinator_init_sched] _ push] assms
    by auto
qed

text \<open>A worker registers, a task is submitted and completed.\<close>

definition complete_3 :: IncomingEvent where
  "complete_3 = \<lparr>ie_fd = 9, ie_msg = (Message_new COMPLETE)\<lparr>complete :=
     \<lparr>com_task_id = 3, com_started_at = 10, com_completed_at = 20, com_result = 0, com_success = 1\<rparr>\<rparr>\<rparr>"

theorem no_task_lost_witness:
  "\<exists>s. run_events (sched_step clock_2s) [Control register_event, Task submit_event, Backlog,
      Task complete_3, Sweep, Replicate, Network] Coordinator_init = Some s \<and> pool_inv s"
proof -
  let ?es = "[Control register_event, Task submit_event, Backlog, Task complete_3, Sweep, Replicate, Network]"
  obtain s1 where s1: "process_register_event clock_2s register_event Coordinator_init = Some s1" "sched_inv s1"
    using register_ok[OF Coordinator_init_sched, of clock_2s register_event]
    by (auto simp: Coordinator_init_def)
  obtain s2 where s2: "process_submit_event clock_2s submit_event s1 = Some s2" "sched_inv s2"
    "length (workers_states s2) = length (workers_states s1)"
    using process_submit_ok[OF s1(2)] by blast
  obtain s3 where s3: "process_backlog clock_2s s2 = Some s3"
    "length (workers_states s3) = length (workers_states s2)"
    using process_backlog_ok[OF s2(2)] by blast
  have "workers_states s3 \<noteq> []" using first_register[OF s1(1)] s2(3) s3(2) by auto
  then have "guarded_run (sched_step clock_2s) (sched_guard clock_2s) ?es Coordinator_init"
    using s1(1) s2(1) s3(1)
    by (simp add: control_guard_def task_guard_def register_event_def submit_event_def complete_3_def
        handle_control_def handle_task_def Message_new_def Coordinator_init_def split: option.split)
  from no_task_lost[OF this] show ?thesis by blast
qed

end
