(* ===== verification/Task_Lifecycle.thy ===== *)
theory Task_Lifecycle
  imports Replica
begin

text \<open>
  The life of a task on the primary, one property per operation: round-robin assignment,
  submission, completion and the backlog round, on every branch; and the fault that a
  completion meets after a failover.
\<close>

subsection \<open>Assignment\<close>

lemma rr_place_surj:
  assumes "j < length (active_workers s)"
  shows "\<exists>i<length (active_workers s). rr_place s i = j"
proof -
  define n where "n = length (active_workers s)"
  define i where "i = (n - rr_index s mod n + j) mod n"
  have n: "0 < n" "j < n" using assms by (auto simp: n_def)
  have "(rr_index s + i) mod n = (rr_index s mod n + (n - rr_index s mod n + j)) mod n"
    by (simp add: i_def mod_simps)
  also have "rr_index s mod n + (n - rr_index s mod n + j) = n + j"
    using mod_less_divisor[OF n(1), of "rr_index s"] by linarith
  also have "(n + j) mod n = j" using n(2) by simp
  finally show ?thesis using n by (intro exI[of _ i]) (simp add: i_def rr_place_def n_def)
qed

lemma pool_inv_active_length:
  assumes "pool_inv s"
  shows "length (active_workers s) < 2 ^ 32"
proof -
  have d: "distinct (active_workers s)" using assms by (simp add: pool_inv_def index_ok_def)
  have "unat ` set (active_workers s) \<subseteq> {..<length (workers_states s)}"
    using pool_inv_safe[OF assms] by (auto simp: pool_safe_def)
  then have "card (unat ` set (active_workers s)) \<le> length (workers_states s)"
    using card_mono[of "{..<length (workers_states s)}"] by simp
  moreover have "card (unat ` set (active_workers s)) = length (active_workers s)"
    using d by (simp add: card_image distinct_card inj_on_def word_unat_eq_iff)
  ultimately show ?thesis using assms by (simp add: pool_inv_def)
qed

lemma assigned_worker:
  assumes inv: "pool_inv s" and idx: "idx < length (active_workers s)" and a: "assigned k t idx s s'"
  shows "length (workers_states s') = length (workers_states s) \<and>
    workers_states s' ! unat (active_workers s ! idx) =
      (workers_states s ! unat (active_workers s ! idx))\<lparr>running_tasks :=
        uset_insert (t_id t) (running_tasks (workers_states s ! unat (active_workers s ! idx)))\<rparr> \<and>
    (\<forall>j. j \<noteq> unat (active_workers s ! idx) \<longrightarrow> workers_states s' ! j = workers_states s ! j) \<and>
    rr_index s' = (idx + 1) mod length (active_workers s) \<and> active_workers s' = active_workers s"
proof -
  have "unat (active_workers s ! idx) < length (workers_states s)"
    using pool_inv_safe[OF inv] idx by (auto simp: pool_safe_def)
  then show ?thesis using a unfolding assigned_def Let_def by auto
qed

lemma assigned_task:
  assumes "assigned k t idx s s'"
  shows "\<exists>now. umap_find (tasks s') k =
    Some (t\<lparr>t_worker_id := active_workers s ! idx, t_state := RUNNING, started_at := now\<rparr>) \<and>
    (\<forall>j. j \<noteq> k \<longrightarrow> umap_find (tasks s') j = umap_find (tasks s) j)"
  using assms unfolding assigned_def Let_def by (auto simp: umap_find_assign)

text \<open>No worker in cyclic order has room: no active worker has.\<close>

lemma blocked_workers:
  assumes "pool_inv s" and "\<forall>j<length (active_workers s) mod 2 ^ 32. \<not> has_room s (rr_place s j)"
  shows "\<forall>w\<in>set (active_workers s). length (running_tasks (workers_states s ! unat w)) \<ge> 64"
proof
  fix w assume "w \<in> set (active_workers s)"
  then obtain j where j: "j < length (active_workers s)" "active_workers s ! j = w" by (auto simp: in_set_conv_nth)
  then show "length (running_tasks (workers_states s ! unat w)) \<ge> 64"
    using rr_place_surj[OF j(1)] assms(2) pool_inv_active_length[OF assms(1)]
    by (auto simp: has_room_def WORKER_MAX_QUEUE_DEPTH_def WORKER_QUEUE_CAPACITY_def)
qed

text \<open>C23:
  Assignment is round robin over the workers with room: starting at \<^verbatim>\<open>rr_index_\<close>, the task goes
  to the first active worker, in cyclic order, that has fewer than 64 running tasks; that
  worker alone gets it into its set and never exceeds 64, the task is marked running on it,
  the assignment is sent to it, and the next search starts right behind it. Otherwise nothing but the
  shared queues changes, and that happens only if every active worker is full or the outgoing queue was
  full.
\<close>

theorem assign_round_robin:
  assumes inv: "sched_inv s" "pool_inv s" and t: "umap_find (tasks s) k = Some t"
  shows "\<exists>ok s'. assign_task env k s = Some (ok, s') \<and> sched_inv s' \<and>
    (if ok then \<exists>i<length (active_workers s). let
          place = \<lambda>j. (rr_index s + j) mod length (active_workers s);
          wid = active_workers s ! place i;
          running = \<lambda>s i. length (running_tasks (workers_states s ! unat i))
        in (\<forall>j<i. running s (active_workers s ! place j) \<ge> 64) \<and>
           running s wid < 64 \<and> running s' wid \<le> 64 \<and>
           k \<in> set (running_tasks (workers_states s' ! unat wid)) \<and>
           (\<forall>j. j \<noteq> unat wid \<longrightarrow> workers_states s' ! j = workers_states s ! j) \<and>
           (\<exists>now. umap_find (tasks s') k = Some (t\<lparr>t_worker_id := wid, t_state := RUNNING, started_at := now\<rparr>)) \<and>
           out_stream s' = out_stream s @ [\<lparr>oe_fd = ws_fd (workers_states s ! unat wid),
             oe_msg = assign_message (current_epoch s) t\<rparr>] \<and>
           rr_index s' = (place i + 1) mod length (active_workers s)
     else s' = s\<lparr>shared := shared s'\<rparr> \<and> out_stream s' = out_stream s \<and>
       ((\<forall>w\<in>set (active_workers s). length (running_tasks (workers_states s ! unat w)) \<ge> 64) \<or> out_full s))"
proof -
  let ?n = "length (active_workers s)"
  have depth: "WORKER_MAX_QUEUE_DEPTH = 64" by (simp add: WORKER_MAX_QUEUE_DEPTH_def WORKER_QUEUE_CAPACITY_def)
  have tid: "t_id t = k" using sched_invD(2)[OF inv(1)] t by (simp add: tasks_inv_def)
  obtain ok s' where a: "assign_task env k s = Some (ok, s')" "sched_inv s'"
    "if ok then \<exists>i<?n. (\<forall>j<i. \<not> has_room s (rr_place s j)) \<and>
         has_room s (rr_place s i) \<and> assigned k t (rr_place s i) s s'
     else only_shared s s' \<and> ((\<forall>j<?n mod 2 ^ 32. \<not> has_room s (rr_place s j)) \<or> out_full s \<and> out_full s')"
    using assign_task_cases[OF inv(1) t] by blast
  show ?thesis
  proof (cases ok)
    case False
    then show ?thesis
      using a blocked_workers[OF inv(2)] by (auto simp: only_shared_def)
  next
    case True
    then obtain i where i: "i < ?n" "\<forall>j<i. \<not> has_room s (rr_place s j)" "has_room s (rr_place s i)"
      "assigned k t (rr_place s i) s s'" using a(3) by auto
    have pl: "rr_place s i < ?n" using i(1) by (simp add: rr_place_def mod_less_divisor[OF gr_zeroI])
    let ?r = "running_tasks (workers_states s ! unat (active_workers s ! rr_place s i))"
    have "length (uset_insert k ?r) \<le> 64" "k \<in> set (uset_insert k ?r)"
      using i(3) by (auto simp: has_room_def depth uset_insert_def)
    then have "let
          place = \<lambda>j. (rr_index s + j) mod length (active_workers s);
          wid = active_workers s ! place i;
          running = \<lambda>s i. length (running_tasks (workers_states s ! unat i))
        in (\<forall>j<i. running s (active_workers s ! place j) \<ge> 64) \<and>
           running s wid < 64 \<and> running s' wid \<le> 64 \<and>
           k \<in> set (running_tasks (workers_states s' ! unat wid)) \<and>
           (\<forall>j. j \<noteq> unat wid \<longrightarrow> workers_states s' ! j = workers_states s ! j) \<and>
           (\<exists>now. umap_find (tasks s') k = Some (t\<lparr>t_worker_id := wid, t_state := RUNNING, started_at := now\<rparr>)) \<and>
           out_stream s' = out_stream s @ [\<lparr>oe_fd = ws_fd (workers_states s ! unat wid),
             oe_msg = assign_message (current_epoch s) t\<rparr>] \<and>
           rr_index s' = (place i + 1) mod length (active_workers s)"
      using i(2,3) assigned_worker[OF inv(2) pl i(4)] assigned_task[OF i(4)] assigned_out[OF i(4)] tid
      by (auto simp: Let_def has_room_def depth simp flip: rr_place_def)
    then show ?thesis using a(1,2) True i(1) by auto
  qed
qed

lemma two_workers_7: "umap_find (tasks two_workers) 7 = Some ((Task_new 7 1 SYNTHETIC 5)\<lparr>t_state := RUNNING\<rparr>)"
  by (simp add: two_workers_def umap_find_def)

theorem assign_round_robin_witness:
  "\<exists>ok s'. assign_task clock_2s 7 two_workers = Some (ok, s') \<and> sched_inv s'"
  using assign_round_robin[OF two_workers_facts(1) conjunct1[OF two_workers_inv] two_workers_7] by blast

subsection \<open>Submission, completion, backlog\<close>

text \<open>C24:
  A submission is accepted on every branch: the handler returns, the coordinator is primary
  and the invariants hold; the submitted task, under its id and with the submitted payload,
  is running on an active worker that has been sent the assignment, or stands queued at the
  end of the backlog, and the latter only if all workers are full or the outgoing queue is.
\<close>

theorem submit_accepts:
  assumes "sched_inv s" and "prim_inv None s"
  shows "\<exists>s'. process_submit_event env ev s = Some s' \<and> sched_inv s' \<and> prim_inv None s' \<and> is_primary s' \<and>
    umap_keys (tasks s') = insert (sm_task_id (submit (ie_msg ev))) (umap_keys (tasks s)) \<and>
    (let m = submit (ie_msg ev); k = sm_task_id m; t = submitted_task m (now_at env (ticks (shared s)))
     in (\<exists>wid\<in>set (active_workers s). \<exists>started.
           umap_find (tasks s') k = Some (t\<lparr>t_worker_id := wid, t_state := RUNNING, started_at := started\<rparr>) \<and>
           k \<in> set (running_tasks (workers_states s' ! unat wid)) \<and>
           \<lparr>oe_fd = ws_fd (workers_states s ! unat wid), oe_msg = assign_message (current_epoch s) t\<rparr>
             \<in> set (out_stream s') \<and> queued_backlog s' = queued_backlog s) \<or>
        umap_find (tasks s') k = Some t \<and> queued_backlog s' = queued_backlog s @ [k] \<and> blocked s)"
proof -
  obtain s' where "process_submit_event env ev s = Some s'" "sched_inv s'" "prim_inv None s \<longrightarrow> prim_inv None s'"
    "is_primary s'" "umap_keys (tasks s') = insert (sm_task_id (submit (ie_msg ev))) (umap_keys (tasks s))"
    "submit_outcome ev s (now_at env (ticks (shared s))) s'"
    using process_submit_ok[OF assms(1)] by blast
  then show ?thesis using assms(2) unfolding submit_outcome_def by blast
qed

lemma Coordinator_init_prim: "prim_inv None Coordinator_init"
  using Coordinator_init_pool by (simp add: prim_inv_def accounted_but_def ids_ok_def Coordinator_init_def)

theorem submit_accepts_witness:
  "\<exists>s'. process_submit_event clock_2s submit_event Coordinator_init = Some s' \<and>
     umap_keys (tasks s') = {3} \<and> queued_backlog s' = [3]"
proof -
  have f: "active_workers Coordinator_init = []" "queued_backlog Coordinator_init = []"
    "sm_task_id (submit (ie_msg submit_event)) = 3" "tasks Coordinator_init = []"
    by (simp_all add: Coordinator_init_def submit_event_def)
  from submit_accepts[OF Coordinator_init_sched Coordinator_init_prim, of clock_2s submit_event]
  show ?thesis by (auto simp: Let_def f umap_keys_def)
qed

lemma role_inv:
  "sched_inv (s\<lparr>is_primary := b\<rparr>) = sched_inv s" "prim_inv x (s\<lparr>is_primary := b\<rparr>) = prim_inv x s"
  by (simp_all add: sched_inv_def pool_safe_def tasks_inv_def log_inv_def prim_inv_def pool_inv_def
      accounted_but_def ids_ok_def accounted_task_def answered_def out_stream_def cong: TaskState.case_cong)

text \<open>C25:
  A completion is processed on every branch. For an unknown task only the role changes.
  Otherwise the handler returns and keeps the invariants, the task carries what the worker
  reported and no other task changes, the worker recorded in it no longer has it in its set,
  the metrics count it, and its result is on the way to the client's descriptor or, if
  the outgoing queue was full, waits in the backlog of results.
\<close>

theorem complete_accepts:
  assumes "sched_inv s" and "prim_inv None s" and "complete_ok ev s"
  shows "\<exists>s'. process_complete_event env ev s = Some s' \<and> sched_inv s' \<and> prim_inv None s' \<and> is_primary s' \<and>
    (let m = complete (ie_msg ev); k = com_task_id m in case umap_find (tasks s) k of
       None \<Rightarrow> s' = s\<lparr>is_primary := True\<rparr>
     | Some u \<Rightarrow> let t = completed_task m u in umap_find (tasks s') k = Some t \<and>
         (\<forall>j. j \<noteq> k \<longrightarrow> umap_find (tasks s') j = umap_find (tasks s) j) \<and>
         k \<notin> set (running_tasks (workers_states s' ! unat (t_worker_id u))) \<and>
         metrics s' = record_completion_system (metrics s) t \<and>
         (\<lparr>oe_fd = client_fd s u, oe_msg = result_message (current_epoch s) t\<rparr> \<in> set (out_stream s') \<and>
            completed_backlog s' = completed_backlog s \<or>
          out_full s \<and> completed_backlog s' = completed_backlog s @ [k]))"
proof (cases "umap_find (tasks s) (com_task_id (complete (ie_msg ev)))")
  case None
  then show ?thesis using process_complete_unknown[OF None] assms(1,2) by (simp add: Let_def role_inv)
next
  case (Some u)
  have w: "unat (t_worker_id u) < length (workers_states s)"
    using assms(3) Some unfolding complete_ok_def by blast
  obtain s' where s': "process_complete_event env ev s = Some s'" "sched_inv s'"
    "prim_inv None s \<longrightarrow> prim_inv None s'" "is_primary s'" "complete_outcome ev s u s'"
    using process_complete_ok[OF assms(1) Some refl w] by blast
  show ?thesis
    using s'(5) assms(2) s'(2-4) unfolding Let_def Some option.case complete_outcome_def
    by (intro exI[of _ s'] conjI s'(1)) blast+
qed

lemma two_workers_prim: "prim_inv None two_workers" "complete_ok complete_event two_workers"
  using two_workers_inv
  by (auto simp: prim_inv_def accounted_but_def ids_ok_def complete_ok_def accounted_task_def two_workers_def
      umap_find_def Task_new_def Task_default_def WorkerState_new_def split: if_splits)

theorem complete_accepts_witness:
  "\<exists>s'. process_complete_event clock_2s complete_event two_workers = Some s' \<and>
     map_option t_state (umap_find (tasks s') 7) = Some COMPLETED \<and> completed_backlog s' = []"
proof -
  have k: "com_task_id (complete (ie_msg complete_event)) = 7" by (simp add: complete_event_def)
  have b: "completed_backlog two_workers = []" by (simp add: two_workers_def Coordinator_init_def)
  show ?thesis
    using complete_accepts[OF two_workers_facts(1) two_workers_prim, of clock_2s] two_workers_facts(4)
    by (auto simp: Let_def k two_workers_7 b)
qed

text \<open>
  A backlog round ends and goes as far as it can: it keeps the invariants and the set of
  tasks, takes queued tasks from the front only, and stops with an empty backlog or when
  every worker is full or the outgoing queue is.
\<close>

theorem backlog_round_progress:
  assumes "sched_inv s" and "prim_inv None s"
  shows "\<exists>s' n. process_backlog env s = Some s' \<and> sched_inv s' \<and> prim_inv None s' \<and>
    umap_keys (tasks s') = umap_keys (tasks s) \<and> active_workers s' = active_workers s \<and>
    queued_backlog s' = drop n (queued_backlog s) \<and>
    (queued_backlog s' = [] \<or> out_full s' \<or>
     (\<forall>w\<in>set (active_workers s'). length (running_tasks (workers_states s' ! unat w)) \<ge> 64))"
proof -
  obtain s' where s': "process_backlog env s = Some s'" "sched_inv s'" "prim_inv None s'"
    "umap_keys (tasks s') = umap_keys (tasks s)" "active_workers s' = active_workers s"
    "\<exists>n. queued_backlog s' = drop n (queued_backlog s)" "queued_backlog s' = [] \<or> blocked s'"
    using process_backlog_ok[OF assms(1), of env] assms(2) by blast
  moreover have "out_full s' \<or> (\<forall>w\<in>set (active_workers s'). length (running_tasks (workers_states s' ! unat w)) \<ge> 64)"
    if "blocked s'"
    using that blocked_workers[OF prim_invD(1)[OF s'(3)]] by (auto simp: blocked_def)
  ultimately show ?thesis by blast
qed

theorem backlog_round_progress_witness:
  "\<exists>s' n. process_backlog clock_2s two_workers = Some s' \<and> prim_inv None s' \<and> umap_keys (tasks s') = {7}"
  using backlog_round_progress[OF two_workers_facts(1) two_workers_prim(1), of clock_2s]
  by (auto simp: two_workers_def umap_keys_def)

subsection \<open>After a failover\<close>

lemma process_complete_fault:
  assumes "umap_find (tasks s) (com_task_id (complete (ie_msg c))) = Some u"
    and "length (workers_states s) \<le> unat (t_worker_id u)"
  shows "process_complete_event env c s = None"
  using assms by (simp add: process_complete_event_def Let_def worker_at_def vec_at_def set_task_def)

text \<open>C26:
  A completion can bring a new primary down. The backup stores a replicated assignment with
  the id the worker had at the old primary; when it has taken over and the worker, which has
  registered again, reports that task, the handler indexes \<^verbatim>\<open>workers_states_\<close> with the old id,
  which is out of range unless at least as many workers have registered here.
\<close>

theorem failover_completion_faults:
  assumes "com_task_id (complete (ie_msg c)) = ar_task_id (assigned_rep (ie_msg a))"
    and "current_epoch b \<le> epoch (ie_msg a)"
    and "umap_find (early_complete_reps b) (ar_task_id (assigned_rep (ie_msg a))) = None"
    and "length (workers_states b) \<le> unat (ar_worker_id (assigned_rep (ie_msg a)))"
  shows "process_complete_event env' c (process_assign_replicate_event env a b) = None"
proof -
  let ?m = "assigned_rep (ie_msg a)"
  have r: "t_id (replicated_task ?m now) = ar_task_id ?m" "t_worker_id (replicated_task ?m now) = ar_worker_id ?m" for now
    by (simp_all add: replicated_task_def Task_new_def Task_default_def Let_def split: TaskType.split)
  have young: "(epoch (ie_msg a) < current_epoch b) = False" using assms(2) by auto
  define s where "s = process_assign_replicate_event env a b"
  have s: "workers_states s = workers_states b" "umap_find (tasks s) (ar_task_id ?m) =
      Some (replicated_task ?m (now_at env (ticks (shared b))))"
    using assms(3) by (simp_all add: s_def process_assign_replicate_event_def Let_def now_ns_u64_def
        set_task_def umap_find_assign r young)
  show ?thesis unfolding s_def[symmetric]
    using s assms(4) by (intro process_complete_fault[OF s(2)[folded assms(1)]]) (simp add: r(2))
qed

definition rep_assign_7 :: IncomingEvent where
  "rep_assign_7 = \<lparr>ie_fd = 6, ie_msg = assign_rep_message 2 ((Task_new 7 1 SYNTHETIC 5)\<lparr>t_state := RUNNING\<rparr>)\<rparr>"

theorem failover_completion_faults_witness:
  "process_complete_event clock_2s complete_event
     (process_assign_replicate_event clock_2s rep_assign_7 Coordinator_init) = None"
  by (rule failover_completion_faults)
    (simp_all add: complete_event_def rep_assign_7_def assign_rep_message_def Message_new_def Message_default_def
      Coordinator_init_def Task_new_def Task_default_def)



end
