(* ===== verification/Scheduler_Thread.thy ===== *)
theory Scheduler_Thread
  imports Coordinator_Loop Task_Lifecycle
begin

text \<open>
  The scheduler thread against the network thread: what the network thread keeps true of the
  shared queues stays true through every handler (\<open>turn_closed\<close>, which knows nothing of the
  handlers but the three ways they touch the queues), the loops of one iteration end, and an
  iteration of a primary keeps the invariant, if every event it pops meets its guard when it is
  handled (\<open>iteration_checked\<close>). \<open>iteration_arrivals\<close> gives a condition on what the network thread
  delivers under which that is so.
\<close>

subsection \<open>What the network thread keeps\<close>

locale turn_closed =
  fixes env :: Env and Q :: "Shared \<Rightarrow> bool"
  assumes turn: "Q sh \<Longrightarrow> Q (network_turn env sh)"
    and clock: "Q sh \<Longrightarrow> Q (sh\<lparr>ticks := t\<rparr>)"
    and push: "Q sh \<Longrightarrow> push_outgoing ev sh = Some sh' \<Longrightarrow> Q sh'"
begin

lemma try_push:
  assumes "Q (shared s)" and "try_push_outgoing env ev s = (ok, s')"
  shows "Q (shared s')"
proof -
  obtain sh where r: "push_retry QUEUE_RETRY_COUNT (\<lambda>_. network_turn env) (push_outgoing ev) 0
      (network_turn env (shared s)) = (ok, sh)" and s': "s' = s\<lparr>shared := sh\<rparr>"
    using assms(2) by (auto simp: try_push_outgoing_def split: prod.splits)
  have "if ok then Q sh else Q sh"
    by (rule push_retry_rule[OF r]) (use assms(1) turn push in auto)
  then show ?thesis using s' by simp
qed

lemma now:
  assumes "Q (shared s)" and "now_ns_u64 env s = (t, s')"
  shows "Q (shared s')"
  using assms clock by (auto simp: now_ns_u64_def)

lemma add_to_log: "add_to_log msg s = Some s' \<Longrightarrow> shared s' = shared s"
  by (auto simp: add_to_log_def Let_def split: if_splits)

lemma replicate_log:
  assumes "replicate_log env s = Some s'" and "Q (shared s)"
  shows "Q (shared s')"
proof -
  have "env = env \<longrightarrow> Q (shared s) \<longrightarrow> Q (shared s')"
  proof (rule replicate_log.raw_induct[where P = "\<lambda>e s r. e = env \<longrightarrow> Q (shared s) \<longrightarrow> Q (shared r)",
        OF _ assms(1)], intro impI)
    fix rec e s r
    assume IH: "\<And>e s r. rec e s = Some r \<Longrightarrow> e = env \<longrightarrow> Q (shared s) \<longrightarrow> Q (shared r)"
      and body: "(if replication_read_ptr s \<noteq> replication_write_ptr s then do {
          msg \<leftarrow> vec_at (replication_log s) (replication_read_ptr s);
          case try_push_outgoing e (OutgoingEvent_default\<lparr>oe_msg := msg\<rparr>) s of (ok, s) \<Rightarrow>
            if \<not> ok then Some s
            else rec e (s\<lparr>replication_read_ptr := (replication_read_ptr s + 1) mod length (replication_log s)\<rparr>)
        } else Some s) = Some r" and e: "e = env" and s: "Q (shared s)"
    show "Q (shared r)"
      using body s try_push[OF s] IH e
      by (fastforce split: if_splits prod.splits bind_splits)
  qed
  then show ?thesis using assms(2) by blast
qed

lemmas replicate_log_upd = replicate_log[of "s\<lparr>completed_backlog := b\<rparr>" for s b, simplified]
  replicate_log[of "s\<lparr>queued_backlog := b\<rparr>" for s b, simplified]

lemma assign_loop:
  assumes "assign_loop env k is s = Some (ok, s')" and "Q (shared s)"
  shows "Q (shared s')"
  using assms
proof (induction "is" arbitrary: s)
  case (Cons i "is")
  obtain w wid t where w: "vec_at (active_workers s) ((rr_index s + i) mod length (active_workers s)) = Some wid"
    "worker_at s wid = Some w"
    using Cons.prems(1) by (auto simp: Let_def split: bind_splits)
  show ?case
  proof (cases "length (running_tasks w) \<ge> WORKER_MAX_QUEUE_DEPTH")
    case True
    then show ?thesis using Cons w by (simp add: Let_def)
  next
    case False
    then obtain t where t: "umap_find (tasks s) k = Some t"
      using Cons.prems(1) w by (auto simp: Let_def split: bind_splits)
    obtain ok1 s1 where p: "try_push_outgoing env \<lparr>oe_fd = ws_fd w, oe_msg = assign_message (current_epoch s) t\<rparr> s = (ok1, s1)"
      by fastforce
    have "Q (shared s1)" by (rule try_push[OF Cons.prems(2) p])
    then show ?thesis
      using Cons.prems(1) False w t p clock
      by (auto simp: Let_def now_ns_u64_def set_task_def set_worker_def dest!: add_to_log split: if_splits bind_splits)
  qed
qed simp

lemma send_result:
  assumes "send_result env t s = Some (ok, s')" and "Q (shared s)"
  shows "Q (shared s')"
  using assms try_push[OF assms(2)]
  by (fastforce simp: send_result_def Let_def dest: add_to_log split: prod.splits if_splits bind_splits)

lemma completed_loop:
  assumes "completed_loop env s = Some s'" and "Q (shared s)"
  shows "Q (shared s')"
proof -
  have "env = env \<longrightarrow> Q (shared s) \<longrightarrow> Q (shared s')"
  proof (rule completed_loop.raw_induct[where P = "\<lambda>e s r. e = env \<longrightarrow> Q (shared s) \<longrightarrow> Q (shared r)",
        OF _ assms(1)], intro impI)
    fix rec e s r
    assume IH: "\<And>e s r. rec e s = Some r \<Longrightarrow> e = env \<longrightarrow> Q (shared s) \<longrightarrow> Q (shared r)"
      and body: "(case completed_backlog s of
        [] \<Rightarrow> Some s
      | task_id # rest \<Rightarrow> (case umap_find (tasks s) task_id of
          None \<Rightarrow> rec e (s\<lparr>completed_backlog := rest\<rparr>)
        | Some task \<Rightarrow> do {
            (sent, s) \<leftarrow> Scheduling.send_result e task s;
            if sent then do {
              s \<leftarrow> Replication_Log.replicate_log e (s\<lparr>completed_backlog := rest\<rparr>);
              rec e s
            } else Some s
          })) = Some r" and e: "e = env" and s: "Q (shared s)"
    show "Q (shared r)"
      using body s e
      by (auto split: list.splits option.splits if_splits prod.splits bind_splits
          dest!: IH[rule_format] dest: send_result replicate_log_upd)
  qed
  then show ?thesis using assms(2) by blast
qed

lemma queued_loop:
  assumes "queued_loop env s = Some s'" and "Q (shared s)"
  shows "Q (shared s')"
proof -
  have "env = env \<longrightarrow> Q (shared s) \<longrightarrow> Q (shared s')"
  proof (rule queued_loop.raw_induct[where P = "\<lambda>e s r. e = env \<longrightarrow> Q (shared s) \<longrightarrow> Q (shared r)",
        OF _ assms(1)], intro impI)
    fix rec e s r
    assume IH: "\<And>e s r. rec e s = Some r \<Longrightarrow> e = env \<longrightarrow> Q (shared s) \<longrightarrow> Q (shared r)"
      and body: "(case queued_backlog s of
        [] \<Rightarrow> Some s
      | task_id # rest \<Rightarrow> do {
          _ \<leftarrow> umap_find (tasks s) task_id;
          (assigned, s) \<leftarrow> assign_task e task_id s;
          if assigned then do {
            s \<leftarrow> Replication_Log.replicate_log e (s\<lparr>queued_backlog := rest\<rparr>);
            rec e s
          } else Some s
        }) = Some r" and e: "e = env" and s: "Q (shared s)"
    show "Q (shared r)"
      using body s e
      by (auto simp: assign_task_def Let_def split: list.splits if_splits prod.splits bind_splits
          dest!: IH[rule_format] dest: assign_loop replicate_log_upd)
  qed
  then show ?thesis using assms(2) by blast
qed

lemma backlog:
  assumes "process_backlog env s = Some s'" and "Q (shared s)"
  shows "Q (shared s')"
  using assms completed_loop queued_loop by (auto simp: process_backlog_def split: bind_splits)

lemma submit:
  assumes "process_submit_event env ev s = Some s'" and "Q (shared s)"
  shows "Q (shared s')"
  using assms clock[OF assms(2)]
  by (auto simp: process_submit_event_def assign_task_def Let_def now_ns_u64_def set_task_def
      split: bind_splits prod.splits if_splits dest!: assign_loop dest: replicate_log)

lemma complete:
  assumes "process_complete_event env ev s = Some s'" and "Q (shared s)"
  shows "Q (shared s')"
  using assms
  by (auto simp: process_complete_event_def Let_def set_task_def set_worker_def
      split: bind_splits option.splits prod.splits if_splits dest!: send_result dest: replicate_log)

lemma peer_reconnected: "Q (shared s) \<Longrightarrow> Q (shared (process_peer_reconnected env s))"
  using try_push[of "s\<lparr>current_epoch := current_epoch s + 1\<rparr>"]
  by (auto simp: process_peer_reconnected_def Let_def split: prod.split intro: try_push[OF _ prod.collapse[symmetric]])

lemma heartbeat:
  assumes "process_heartbeat_event env ev s = Some s'" and "Q (shared s)"
  shows "Q (shared s')"
  using assms clock[OF assms(2)]
  by (auto simp: process_heartbeat_event_def Let_def now_ns_u64_def set_worker_def split: bind_splits)

lemma register:
  assumes "process_register_event env ev s = Some s'" and "Q (shared s)"
  shows "Q (shared s')"
proof -
  obtain ok s1 where p: "try_push_outgoing env \<lparr>oe_fd = ie_fd ev, oe_msg = (Message_new ACKNOWLEDGE)\<lparr>acknowledge :=
      \<lparr>ack_worker_id = (if available_ids s \<noteq> [] then last (available_ids s) else of_nat (length (workers_states s)))\<rparr>\<rparr>\<rparr> s = (ok, s1)"
    by fastforce
  have "Q (shared s1)" by (rule try_push[OF assms(2) p])
  then show ?thesis
    using assms(1) p clock
    by (auto simp: process_register_event_def register_slot_def Let_def now_ns_u64_def set_worker_def
        split: if_splits bind_splits)
qed

end

subsection \<open>Arrivals\<close>

text \<open>Every event that is queued or will still arrive satisfies \<open>C\<close> or \<open>T\<close>, by its queue.\<close>

definition arrivals :: "Env \<Rightarrow> (IncomingEvent \<Rightarrow> bool) \<Rightarrow> (IncomingEvent \<Rightarrow> bool) \<Rightarrow> Shared \<Rightarrow> bool" where
  "arrivals env C T sh \<longleftrightarrow> shared_inv sh \<and> (\<forall>ev\<in>set (contents (control_queue sh)). C ev) \<and>
     (\<forall>ev\<in>set (contents (task_queue sh)). T ev) \<and>
     (\<forall>i\<ge>turns sh. (\<forall>ev\<in>set (control_at env i). C ev) \<and> (\<forall>ev\<in>set (task_at env i). T ev))"

lemma push_all_sat:
  assumes "spsc_inv q" and "\<forall>v\<in>set (contents q). P v" and "\<forall>v\<in>set vs. P v"
  shows "\<forall>v\<in>set (contents (push_all vs q)). P v"
proof -
  obtain k where "contents (push_all vs q) = contents q @ take k vs" using push_all_inv[OF assms(1)] by blast
  then show ?thesis using assms(2,3) set_take_subset[of k vs] by auto
qed

lemma arrivals_turn:
  assumes "arrivals env C T sh"
  shows "arrivals env C T (network_turn env sh)"
proof -
  have inv: "spsc_inv (control_queue sh)" "spsc_inv (task_queue sh)"
    using assms by (simp_all add: arrivals_def shared_inv_def)
  have "\<forall>ev\<in>set (control_at env (turns sh)). C ev" "\<forall>ev\<in>set (task_at env (turns sh)). T ev"
    using assms by (auto simp: arrivals_def)
  moreover have "\<forall>i\<ge>Suc (turns sh). (\<forall>ev\<in>set (control_at env i). C ev) \<and> (\<forall>ev\<in>set (task_at env i). T ev)"
    using assms Suc_leD unfolding arrivals_def by blast
  ultimately show ?thesis
    using assms push_all_sat[OF inv(1), of C] push_all_sat[OF inv(2), of T] network_turn_inv[of sh env]
    by (simp add: arrivals_def)
qed

interpretation arriving: turn_closed env "arrivals env C T"
proof
  show "arrivals env C T (network_turn env sh)" if "arrivals env C T sh" for sh
    by (rule arrivals_turn[OF that])
  show "arrivals env C T (sh\<lparr>ticks := t\<rparr>)" if "arrivals env C T sh" for sh t
    using that by (simp add: arrivals_def shared_inv_def)
  show "arrivals env C T sh'" if "arrivals env C T sh" "push_outgoing ev sh = Some sh'" for sh ev sh'
    using that push_outgoing_Some[of sh ev sh'] by (auto simp: arrivals_def push_outgoing_def)
qed

lemma arrivals_mono:
  assumes "arrivals env C T sh" and "\<And>ev. C ev \<Longrightarrow> C' ev" and "\<And>ev. T ev \<Longrightarrow> T' ev"
  shows "arrivals env C' T' sh"
  using assms unfolding arrivals_def by blast

lemma pop_retry_arrivals:
  assumes pop: "\<And>sh ev sh'. arrivals env C T sh \<Longrightarrow> pop sh = Some (ev, sh') \<Longrightarrow>
      P ev \<and> arrivals env C T sh' \<and> out_stream (s\<lparr>shared := sh'\<rparr>) = out_stream (s\<lparr>shared := sh\<rparr>)"
    and "arrivals env C T (shared s)" and r: "try_pop_incoming env pop s = (r, s')"
  shows "\<exists>sh. s' = s\<lparr>shared := sh\<rparr> \<and> arrivals env C T sh \<and> out_stream s' = out_stream s \<and>
    (\<forall>ev. r = Some ev \<longrightarrow> P ev)"
proof -
  obtain sh where r: "pop_retry QUEUE_RETRY_COUNT (\<lambda>_. network_turn env) pop 0 (network_turn env (shared s)) = (r, sh)"
    and s': "s' = s\<lparr>shared := sh\<rparr>"
    using r by (auto simp: try_pop_incoming_def split: prod.splits)
  define I where "I q \<longleftrightarrow> arrivals env C T q \<and> out_stream (s\<lparr>shared := q\<rparr>) = out_stream s" for q
  have turn: "I (network_turn env q)" if "I q" for q
    using that arrivals_turn[of env C T q] network_turn_out[of "s\<lparr>shared := q\<rparr>" env]
    by (auto simp: I_def arrivals_def)
  have "case r of Some v \<Rightarrow> P v \<and> I sh | None \<Rightarrow> I sh"
  proof (rule pop_retry_rule[OF r])
    show "I (network_turn env (shared s))" by (rule turn) (simp add: I_def assms(2))
    show "P v \<and> I q'" if "I q" "pop q = Some (v, q')" for q v q'
      using pop[of q v q'] that by (simp add: I_def)
  qed (rule turn)
  then show ?thesis using s' by (auto simp: I_def split: option.splits)
qed

lemma pop_control_arrivals:
  assumes "arrivals env C T sh" and "pop_control sh = Some (ev, sh')"
  shows "C ev \<and> arrivals env C T sh' \<and> out_stream (s\<lparr>shared := sh'\<rparr>) = out_stream (s\<lparr>shared := sh\<rparr>)"
  using assms spsc.pop_Some[of "control_queue sh" ev]
  by (auto simp: pop_control_def arrivals_def shared_inv_def out_stream_def)

lemma pop_task_arrivals:
  assumes "arrivals env C T sh" and "pop_task sh = Some (ev, sh')"
  shows "T ev \<and> arrivals env C T sh' \<and> out_stream (s\<lparr>shared := sh'\<rparr>) = out_stream (s\<lparr>shared := sh\<rparr>)"
  using assms spsc.pop_Some[of "task_queue sh" ev]
  by (auto simp: pop_task_def arrivals_def shared_inv_def out_stream_def)

lemma try_pop_control_ok:
  assumes "arrivals env C T (shared s)" and "try_pop_incoming env pop_control s = (r, s')"
  shows "\<exists>sh. s' = s\<lparr>shared := sh\<rparr> \<and> arrivals env C T sh \<and> out_stream s' = out_stream s \<and> (\<forall>ev. r = Some ev \<longrightarrow> C ev)"
  by (rule pop_retry_arrivals[OF _ assms]) (rule pop_control_arrivals)

lemma try_pop_task_ok:
  assumes "arrivals env C T (shared s)" and "try_pop_incoming env pop_task s = (r, s')"
  shows "\<exists>sh. s' = s\<lparr>shared := sh\<rparr> \<and> arrivals env C T sh \<and> out_stream s' = out_stream s \<and> (\<forall>ev. r = Some ev \<longrightarrow> T ev)"
  by (rule pop_retry_arrivals[OF _ assms]) (rule pop_task_arrivals)

subsection \<open>Checked iterations\<close>

text \<open>
  The guards of \<open>Coordinator_Loop\<close> at every event the loops of an iteration really pop, in the
  state in which the event is handled.
\<close>

primrec control_checked :: "Env \<Rightarrow> nat \<Rightarrow> Coordinator \<Rightarrow> bool" where
  "control_checked env 0 s = True"
| "control_checked env (Suc n) s = (case try_pop_incoming env pop_control s of
     (None, s) \<Rightarrow> True
   | (Some ev, s) \<Rightarrow> m_type (ie_msg ev) \<in> {HEARTBEAT, REGISTER} \<and> control_guard ev s \<and>
       (case handle_control env ev s of None \<Rightarrow> True | Some s \<Rightarrow> control_checked env n s))"

primrec task_checked :: "Env \<Rightarrow> nat \<Rightarrow> Coordinator \<Rightarrow> bool" where
  "task_checked env 0 s = True"
| "task_checked env (Suc n) s = (case try_pop_incoming env pop_task s of
     (None, s) \<Rightarrow> True
   | (Some ev, s) \<Rightarrow> task_guard env ev s \<and>
       (case handle_task env ev s of None \<Rightarrow> True | Some s \<Rightarrow> task_checked env n s))"

definition task_limit :: "Coordinator \<Rightarrow> nat" where
  "task_limit s = (if active_workers s = [] then TASK_FALLBACK_BUDGET
     else length (active_workers s) * WORKER_MAX_QUEUE_DEPTH)"

definition first_phase :: "Env \<Rightarrow> Coordinator \<Rightarrow> Coordinator option" where
  "first_phase env s = (if is_primary s then Option.bind (process_backlog env s) (replicate_log env) else Some s)"

definition last_phase :: "Env \<Rightarrow> Coordinator \<Rightarrow> Coordinator option" where
  "last_phase env s = (case now_ns_u64 env s of (now, s) \<Rightarrow>
     if now - last_sweep s \<ge> SWEEP_INTERVAL_NS then do {
       s \<leftarrow> sweep_workers env s;
       case now_ns_u64 env s of (now, s) \<Rightarrow> Some (s\<lparr>last_sweep := now\<rparr>)
     } else Some s)"

definition iteration_checked :: "Env \<Rightarrow> Coordinator \<Rightarrow> bool" where
  "iteration_checked env s = (case first_phase env s of
     None \<Rightarrow> True
   | Some s \<Rightarrow> control_checked env CONTROL_BUDGET s \<and>
       (case process_control_queue env s of None \<Rightarrow> True | Some s \<Rightarrow> task_checked env (task_limit s) s))"

lemma scheduler_iteration_phases:
  assumes "first_phase env s = Some s1" and "process_control_queue env s1 = Some s2"
    and "process_task_queue env s2 = Some s3"
  shows "scheduler_iteration env s = last_phase env s3"
  using assms(1) unfolding scheduler_iteration_def first_phase_def last_phase_def by (simp add: assms(2,3))

lemma process_task_queue_limit: "process_task_queue env s = task_loop env (task_limit s) s"
  by (simp add: process_task_queue_def task_limit_def Let_def)

lemma arrivals_primary:
  assumes "primary_inv s" and "arrivals env C T sh" and "out_stream (s\<lparr>shared := sh\<rparr>) = out_stream s"
  shows "primary_inv (s\<lparr>shared := sh\<rparr>)"
  using out_grow_primary[OF assms(1), of sh "[]"] assms(2,3) by (simp add: arrivals_def)

lemma first_phase_ok:
  assumes inv: "primary_inv s" and arr: "arrivals env C T (shared s)"
  shows "\<exists>s'. first_phase env s = Some s' \<and>
    primary_inv s' \<and> arrivals env C T (shared s') \<and> active_workers s' = active_workers s \<and>
    length (workers_states s') = length (workers_states s)"
proof (cases "is_primary s")
  case True
  obtain s1 where s1: "process_backlog env s = Some s1" "sched_inv s1" "prim_inv None s1"
    "active_workers s1 = active_workers s" "length (workers_states s1) = length (workers_states s)"
    using process_backlog_ok[OF primary_invD(1)[OF inv], of env] primary_invD(2)[OF inv] by blast
  obtain s2 where s2: "replicate_log env s1 = Some s2" "log_only s1 s2" "sched_inv s2"
    using replicate_log_only[OF s1(2)] by blast
  have "arrivals env C T (shared s2)"
    by (rule arriving.replicate_log[OF s2(1) arriving.backlog[OF s1(1) arr]])
  then show ?thesis
    using True s1 s2 prim_inv_log_only[OF s1(3) s2(2)] log_only_fields[OF s2(2)] by (simp add: primary_inv_def first_phase_def)
qed (use assms in \<open>simp add: first_phase_def\<close>)

lemma last_phase_ok:
  assumes "primary_inv s" and "arrivals env C T (shared s)"
  shows "\<exists>s'. last_phase env s = Some s' \<and>
    primary_inv s' \<and> arrivals env C T (shared s') \<and> length (workers_states s') = length (workers_states s)"
proof -
  define s1 where "s1 = s\<lparr>shared := tick (shared s)\<rparr>"
  have tick: "primary_inv (s\<lparr>shared := tick (shared s)\<rparr>) \<and> arrivals env C T (tick (shared s))"
    if "primary_inv s" "arrivals env C T (shared s)" for s
  proof -
    have arr: "arrivals env C T (tick (shared s))"
      using arriving.clock[OF that(2)] by (simp add: tick_def)
    then show ?thesis
      using arrivals_primary[OF that(1) arr] by (simp add: out_stream_def tick_def)
  qed
  have s1: "primary_inv s1" "arrivals env C T (shared s1)" using tick[OF assms] by (simp_all add: s1_def)
  obtain s2 where s2: "sweep_workers env s1 = Some s2" "primary_inv s2" "same_rest s1 s2"
    "length (workers_states s2) = length (workers_states s1)"
    using sweep_workers_ok[OF primary_invD(1)[OF s1(1)], of env] primary_invD(2)[OF s1(1)]
    by (auto simp: primary_inv_def)
  have arr2: "arrivals env C T (shared s2)"
    using s2(3) arriving.clock[OF s1(2)] by (auto simp: same_rest_def)
  have "primary_inv (s2\<lparr>last_sweep := now, shared := tick (shared s2)\<rparr>)" for now
    using tick[of "s2\<lparr>last_sweep := now\<rparr>"] s2(2) arr2 by simp
  then show ?thesis
    using s1 s2(1,4) tick[OF s2(2) arr2]
    by (auto simp: last_phase_def now_ns_eq simp flip: s1_def) (simp_all add: s1_def)
qed

lemma pop_primary:
  assumes "primary_inv s"
  shows "try_pop_incoming env pop_control s = (r, s') \<Longrightarrow> primary_inv s'"
    and "try_pop_incoming env pop_task s = (r, s') \<Longrightarrow> primary_inv s'"
proof -
  have arr: "arrivals env (\<lambda>_. True) (\<lambda>_. True) (shared s)"
    using sched_invD(3)[OF primary_invD(1)[OF assms]] by (simp add: arrivals_def)
  show "primary_inv s'" if "try_pop_incoming env pop_control s = (r, s')"
    using try_pop_control_ok[OF arr that] arrivals_primary[OF assms] by auto
  show "primary_inv s'" if "try_pop_incoming env pop_task s = (r, s')"
    using try_pop_task_ok[OF arr that] arrivals_primary[OF assms] by auto
qed

lemma control_loop_checked:
  assumes "primary_inv s" and "control_checked env (CONTROL_BUDGET - processed) s"
  shows "\<exists>s'. control_loop env processed s = Some s' \<and> primary_inv s'"
  using assms
proof (induction "CONTROL_BUDGET - processed" arbitrary: processed s)
  case 0
  then show ?case by (subst control_loop.simps) simp
next
  case (Suc n)
  obtain r s1 where pop: "try_pop_incoming env pop_control s = (r, s1)" by fastforce
  have inv1: "primary_inv s1" by (rule pop_primary(1)[OF Suc.prems(1) pop])
  have lt: "processed < CONTROL_BUDGET" and n: "n = CONTROL_BUDGET - (processed + 1)" using Suc.hyps(2) by simp_all
  have ck: "control_checked env (Suc n) s" using Suc.prems(2) unfolding Suc.hyps(2)[symmetric] .
  show ?case
  proof (cases r)
    case None
    then show ?thesis using lt pop inv1 by (subst control_loop.simps) simp
  next
    case (Some ev)
    have g: "m_type (ie_msg ev) \<in> {HEARTBEAT, REGISTER}" "control_guard ev s1" using ck pop Some by simp_all
    obtain s2 where s2: "handle_control env ev s1 = Some s2" "primary_inv s2" using control_step_ok[OF inv1 g(2)] by blast
    then have "control_checked env (CONTROL_BUDGET - (processed + 1)) s2" using ck pop Some n by simp
    moreover have "control_loop env processed s = control_loop env (processed + 1) s2"
      using lt pop Some s2(1) g(1) by (subst control_loop.simps) auto
    ultimately show ?thesis using Suc.hyps(1)[OF n s2(2)] by simp
  qed
qed

lemma task_loop_checked:
  assumes "primary_inv s" and "task_checked env n s"
  shows "\<exists>s'. task_loop env n s = Some s' \<and> primary_inv s'"
  using assms
proof (induction n arbitrary: s)
  case (Suc n)
  obtain r s1 where pop: "try_pop_incoming env pop_task s = (r, s1)" by fastforce
  have inv1: "primary_inv s1" by (rule pop_primary(2)[OF Suc.prems(1) pop])
  show ?case
  proof (cases r)
    case (Some ev)
    obtain s2 where s2: "handle_task env ev s1 = Some s2" "primary_inv s2"
      using task_step_ok[OF inv1, of env ev] Suc.prems(2) pop Some by auto
    then show ?thesis using Suc.IH[OF s2(2)] Suc.prems(2) pop Some by simp
  qed (use pop inv1 in simp)
qed simp

lemma iteration_checked_ok:
  assumes inv: "primary_inv s" and ck: "iteration_checked env s"
  shows "\<exists>s'. scheduler_iteration env s = Some s' \<and> primary_inv s'"
proof -
  let ?arr = "\<lambda>s. arrivals env (\<lambda>_. True) (\<lambda>_. True) (shared s)"
  have arr: "?arr s" if "primary_inv s" for s
    using sched_invD(3)[OF primary_invD(1)[OF that]] by (simp add: arrivals_def)
  obtain s1 where s1: "first_phase env s = Some s1" "primary_inv s1"
    using first_phase_ok[OF inv arr[OF inv]] by blast
  obtain s2 where s2: "process_control_queue env s1 = Some s2" "primary_inv s2"
    using control_loop_checked[OF s1(2), of env 0] ck s1(1) by (auto simp: iteration_checked_def process_control_queue_def)
  obtain s3 where s3: "process_task_queue env s2 = Some s3" "primary_inv s3"
    using task_loop_checked[OF s2(2), of env "task_limit s2"] ck s1(1) s2(1)
    by (auto simp: iteration_checked_def process_task_queue_limit)
  show ?thesis
    using last_phase_ok[OF s3(2) arr[OF s3(2)]] scheduler_iteration_phases[OF s1(1) s2(1) s3(1)] by auto
qed

interpretation thread: guarded_machine "\<lambda>_ :: unit. scheduler_iteration env" "\<lambda>_. iteration_checked env" primary_inv
  by unfold_locales (rule iteration_checked_ok)

lemma scheduler_worker_run:
  "scheduler_worker env n s = run_events (\<lambda>_ :: unit. scheduler_iteration env) (replicate n ()) s"
  by (induction n arbitrary: s) (auto intro: bind_option_cong)

text \<open>C4:
  The scheduler thread of a primary never faults and never hangs: from the constructor's
  state, for any number of iterations, any clock and any interleaving of the network
  thread's turns with the pushes and pops, all the loops end and every iteration returns, and
  after it no task is lost. This holds as long as each event that is popped is, in the state
  in which it is handled, one the protocol allows: in the control queue a heartbeat of a
  worker that is then active, or a registration for which there is still an id; in the task
  queue no replication message (\<^verbatim>\<open>ASSIGNED_REPLICATE\<close>, \<^verbatim>\<open>COMPLETED_REPLICATE\<close>, \<^verbatim>\<open>SNAPSHOT\<close>), a
  completion only once a worker has registered, and a monitoring request only if the outgoing
  queue is drained at some later time and the counters are small enough for the rates.
  Submissions, reconnection notices and every other message of the task queue are free.
\<close>

theorem scheduler_thread_returns:
  assumes "guarded_run (\<lambda>_ :: unit. scheduler_iteration env) (\<lambda>_. iteration_checked env) (replicate n ()) Coordinator_init"
  shows "\<exists>s. scheduler_worker env n Coordinator_init = Some s \<and> pool_inv s \<and>
    (\<forall>k t. umap_find (tasks s) k = Some t \<longrightarrow>
       t_state t = QUEUED \<and> k \<in> set (queued_backlog s) \<or>
       t_state t = RUNNING \<and> t_worker_id t \<in> set (active_workers s) \<and>
         k \<in> set (running_tasks (workers_states s ! unat (t_worker_id t))) \<or>
       t_state t = COMPLETED \<and> (k \<in> set (completed_backlog s) \<or> answered s t))"
proof -
  obtain s where s: "scheduler_worker env n Coordinator_init = Some s" "primary_inv s"
    using thread.run_ok[OF Coordinator_init_primary assms] by (auto simp: scheduler_worker_run)
  then show ?thesis
    using primary_inv_accounts[OF s(2)] prim_invD(1)[OF primary_invD(2)[OF s(2)]] by blast
qed

subsection \<open>Arrivals under which every iteration is checked\<close>

text \<open>What the network thread puts into the control queue, with heartbeats of the workers \<open>A\<close>.\<close>

definition control_event_ok :: "u32 set \<Rightarrow> IncomingEvent \<Rightarrow> bool" where
  "control_event_ok A ev = (case m_type (ie_msg ev) of
     HEARTBEAT \<Rightarrow> hb_worker_id (heartbeat (ie_msg ev)) \<in> A
   | REGISTER \<Rightarrow> True
   | _ \<Rightarrow> False)"

text \<open>The task events of a primary; completions only when a worker has registered.\<close>

definition task_event_ok :: "bool \<Rightarrow> IncomingEvent \<Rightarrow> bool" where
  "task_event_ok registered ev = (case m_type (ie_msg ev) of
     COMPLETE \<Rightarrow> registered
   | TOP_REQUEST \<Rightarrow> False
   | ASSIGNED_REPLICATE \<Rightarrow> False
   | COMPLETED_REPLICATE \<Rightarrow> False
   | SNAPSHOT \<Rightarrow> False
   | _ \<Rightarrow> True)"

lemma register_frame:
  assumes "sched_inv s" and "available_ids s = [] \<longrightarrow> Suc (length (workers_states s)) < 2 ^ 32"
    and "process_register_event env ev s = Some s'"
  shows "set (active_workers s) \<subseteq> set (active_workers s') \<and>
    length (workers_states s) \<le> length (workers_states s') \<and>
    length (workers_states s') \<le> Suc (length (workers_states s))"
proof -
  note d = sched_invD[OF assms(1)]
  obtain ok s1 where push: "try_push_outgoing env (ack_event ev (reg_id s)) s = (ok, s1)" by fastforce
  obtain sh where "s1 = s\<lparr>shared := sh\<rparr>" using try_push_outgoing_eq[OF d(3) push] by blast
  then show ?thesis
    using register_eq[OF d(3,1) assms(2) push] assms(3) by (cases ok) (auto simp: slots_def)
qed

lemma control_frame:
  assumes inv: "primary_inv s" and A: "A \<subseteq> set (active_workers s)" and ok: "control_event_ok A ev"
    and arr: "arrivals env C T (shared s)" and room: "Suc (length (workers_states s)) < 2 ^ 32"
  shows "\<exists>s'. handle_control env ev s = Some s' \<and> primary_inv s' \<and> A \<subseteq> set (active_workers s') \<and>
    arrivals env C T (shared s') \<and> length (workers_states s) \<le> length (workers_states s') \<and>
    length (workers_states s') \<le> Suc (length (workers_states s)) \<and> m_type (ie_msg ev) \<in> {HEARTBEAT, REGISTER} \<and>
    control_guard ev s"
proof -
  have g: "control_guard ev s" using ok A room by (auto simp: control_event_ok_def control_guard_def split: MessageType.splits)
  obtain s' where s': "handle_control env ev s = Some s'" "primary_inv s'"
    using g control_step_ok[OF inv] by blast
  consider "m_type (ie_msg ev) = HEARTBEAT" | "m_type (ie_msg ev) = REGISTER"
    using ok by (auto simp: control_event_ok_def split: MessageType.splits)
  then show ?thesis
  proof cases
    case 1
    then have h: "process_heartbeat_event env ev s = Some s'" using s'(1) by (simp add: handle_control_def)
    then have "active_workers s' = active_workers s \<and> length (workers_states s') = length (workers_states s)"
      by (auto simp: process_heartbeat_event_def Let_def now_ns_u64_def set_worker_def split: bind_splits)
    then show ?thesis using s' 1 A g arriving.heartbeat[OF h arr] by auto
  next
    case 2
    then have r: "process_register_event env ev s = Some s'" using s'(1) by (simp add: handle_control_def)
    have "set (active_workers s) \<subseteq> set (active_workers s') \<and> length (workers_states s) \<le> length (workers_states s') \<and>
      length (workers_states s') \<le> Suc (length (workers_states s))"
      using register_frame[OF primary_invD(1)[OF inv] _ r] room by simp
    then show ?thesis using s' 2 A g arriving.register[OF r arr] by auto
  qed
qed

lemma control_loop_ok:
  assumes "primary_inv s" and "A \<subseteq> set (active_workers s)"
    and "arrivals env (control_event_ok A) T (shared s)"
    and "length (workers_states s) + (CONTROL_BUDGET - processed) < 2 ^ 32"
  shows "\<exists>s'. control_loop env processed s = Some s' \<and> primary_inv s' \<and> control_checked env (CONTROL_BUDGET - processed) s \<and>
    arrivals env (control_event_ok A) T (shared s') \<and> length (workers_states s) \<le> length (workers_states s') \<and>
    length (workers_states s') \<le> length (workers_states s) + (CONTROL_BUDGET - processed)"
  using assms
proof (induction "CONTROL_BUDGET - processed" arbitrary: processed s)
  case 0
  then show ?case by (subst control_loop.simps) simp
next
  case (Suc n)
  obtain r s1 where pop: "try_pop_incoming env pop_control s = (r, s1)" by fastforce
  obtain sh where s1: "s1 = s\<lparr>shared := sh\<rparr>" "arrivals env (control_event_ok A) T sh"
    "out_stream s1 = out_stream s" "\<forall>ev. r = Some ev \<longrightarrow> control_event_ok A ev"
    using try_pop_control_ok[OF Suc.prems(3) pop] by blast
  have inv1: "primary_inv s1" using arrivals_primary[OF Suc.prems(1) s1(2)] s1(1,3) by simp
  show ?case
  proof (cases r)
    case None
    have "processed < CONTROL_BUDGET" using Suc.hyps(2) by simp
    moreover have "control_checked env (CONTROL_BUDGET - processed) s"
      using None pop by (simp flip: Suc.hyps(2))
    ultimately show ?thesis
      using None pop inv1 s1(1,2) by (subst control_loop.simps) simp
  next
    case (Some ev)
    have room1: "Suc (length (workers_states s1)) < 2 ^ 32" using Suc.prems(4) Suc.hyps(2) s1(1) by simp
    have A1: "A \<subseteq> set (active_workers s1)" and arr1: "arrivals env (control_event_ok A) T (shared s1)"
      using Suc.prems(2) s1(1,2) by simp_all
    obtain s2 where s2: "handle_control env ev s1 = Some s2" "primary_inv s2" "A \<subseteq> set (active_workers s2)"
      "arrivals env (control_event_ok A) T (shared s2)" "length (workers_states s1) \<le> length (workers_states s2)"
      "length (workers_states s2) \<le> Suc (length (workers_states s1))" "m_type (ie_msg ev) \<in> {HEARTBEAT, REGISTER}"
      "control_guard ev s1"
      using control_frame[OF inv1 A1 _ arr1 room1, of ev] s1(4) Some by blast
    have step: "control_loop env processed s = control_loop env (processed + 1) s2"
      using Suc.hyps(2) pop Some s2(1,7) by (subst control_loop.simps) auto
    have n: "n = CONTROL_BUDGET - (processed + 1)" using Suc.hyps(2) by simp
    have "length (workers_states s2) + (CONTROL_BUDGET - (processed + 1)) < 2 ^ 32"
      using Suc.prems(4) Suc.hyps(2) s2(6) s1(1) by simp
    from Suc.hyps(1)[OF n s2(2,3,4) this] obtain s' where "control_loop env (processed + 1) s2 = Some s'"
      "primary_inv s'" "control_checked env (CONTROL_BUDGET - (processed + 1)) s2" "arrivals env (control_event_ok A) T (shared s')"
      "length (workers_states s2) \<le> length (workers_states s')"
      "length (workers_states s') \<le> length (workers_states s2) + (CONTROL_BUDGET - (processed + 1))" by blast
    moreover have "control_checked env (CONTROL_BUDGET - processed) s"
      using calculation(3) pop Some s2(1,7,8) unfolding n[symmetric] by (simp flip: Suc.hyps(2))
    ultimately show ?thesis using step s2(5,6) s1(1) Suc.hyps(2) by auto
  qed
qed

lemma task_frame:
  assumes inv: "primary_inv s" and ok: "task_event_ok registered ev"
    and reg: "registered \<longrightarrow> workers_states s \<noteq> []" and arr: "arrivals env C T (shared s)"
  shows "\<exists>s'. handle_task env ev s = Some s' \<and> primary_inv s' \<and> arrivals env C T (shared s') \<and>
    length (workers_states s') = length (workers_states s) \<and> task_guard env ev s"
proof -
  have g: "task_guard env ev s"
    using ok reg by (auto simp: task_event_ok_def task_guard_def split: MessageType.splits)
  obtain s' where s': "handle_task env ev s = Some s'" "primary_inv s'"
    using g task_step_ok[OF inv] by blast
  have len: "length (workers_states (process_peer_reconnected env s)) = length (workers_states s)"
    using try_push_outgoing_level by (auto simp: process_peer_reconnected_def Let_def try_push_outgoing_def split: prod.split)
  have "arrivals env C T (shared s') \<and> length (workers_states s') = length (workers_states s)"
  proof (cases "m_type (ie_msg ev)")
    case SUBMIT
    then have h: "process_submit_event env ev s = Some s'" using s'(1) by (simp add: handle_task_def)
    then show ?thesis
      using process_submit_ok[OF primary_invD(1)[OF inv], of env ev] arriving.submit[OF h arr] by auto
  next
    case COMPLETE
    then have h: "process_complete_event env ev s = Some s'" using s'(1) by (simp add: handle_task_def)
    have "length (workers_states s') = length (workers_states s)"
    proof (cases "umap_find (tasks s) (com_task_id (complete (ie_msg ev)))")
      case (Some u)
      then show ?thesis
        using process_complete_ok[OF primary_invD(1)[OF inv] Some refl, of env] h
          process_complete_fault[OF Some, of env] not_less by (metis option.inject option.simps(3))
    qed (use process_complete_unknown h in auto)
    then show ?thesis using arriving.complete[OF h arr] by simp
  next
    case PEER_RECONNECTED
    then show ?thesis using s'(1) arriving.peer_reconnected[OF arr] len by (auto simp: handle_task_def)
  qed (use s'(1) ok arr in \<open>auto simp: handle_task_def task_event_ok_def\<close>)
  then show ?thesis using s' g by blast
qed

lemma task_loop_ok:
  assumes "primary_inv s" and "registered \<longrightarrow> workers_states s \<noteq> []"
    and "arrivals env C (task_event_ok registered) (shared s)"
  shows "\<exists>s'. task_loop env n s = Some s' \<and> primary_inv s' \<and> task_checked env n s \<and>
    arrivals env C (task_event_ok registered) (shared s') \<and> length (workers_states s') = length (workers_states s)"
  using assms
proof (induction n arbitrary: s)
  case (Suc n)
  obtain r s1 where pop: "try_pop_incoming env pop_task s = (r, s1)" by fastforce
  obtain sh where s1: "s1 = s\<lparr>shared := sh\<rparr>" "arrivals env C (task_event_ok registered) sh"
    "out_stream s1 = out_stream s" "\<forall>ev. r = Some ev \<longrightarrow> task_event_ok registered ev"
    using try_pop_task_ok[OF Suc.prems(3) pop] by blast
  have inv1: "primary_inv s1" using arrivals_primary[OF Suc.prems(1) s1(2)] s1(1,3) by simp
  show ?case
  proof (cases r)
    case None
    then show ?thesis using pop inv1 s1(1,2) by simp
  next
    case (Some ev)
    obtain s2 where s2: "handle_task env ev s1 = Some s2" "primary_inv s2"
      "arrivals env C (task_event_ok registered) (shared s2)" "length (workers_states s2) = length (workers_states s1)"
      "task_guard env ev s1"
      using task_frame[OF inv1, of registered ev env C "task_event_ok registered"] s1 Suc.prems(2) Some by auto
    have "registered \<longrightarrow> workers_states s2 \<noteq> []" using Suc.prems(2) s2(4) s1(1) by auto
    from Suc.IH[OF s2(2) this s2(3)] show ?thesis using pop Some s2(1,4,5) s1(1) by auto
  qed
qed simp

text \<open>What is left of an iteration after the control queue.\<close>

lemma iteration_rest:
  assumes first: "first_phase env s = Some s1" and ctl: "control_checked env CONTROL_BUDGET s1" "process_control_queue env s1 = Some s2"
    and s2: "primary_inv s2" "arrivals env C (task_event_ok registered) (shared s2)" "registered \<longrightarrow> workers_states s2 \<noteq> []"
  shows "iteration_checked env s \<and> (\<exists>s'. scheduler_iteration env s = Some s' \<and> primary_inv s' \<and>
    arrivals env C (task_event_ok registered) (shared s') \<and> length (workers_states s') = length (workers_states s2))"
proof -
  obtain s3 where s3: "process_task_queue env s2 = Some s3" "primary_inv s3" "task_checked env (task_limit s2) s2"
    "arrivals env C (task_event_ok registered) (shared s3)" "length (workers_states s3) = length (workers_states s2)"
    using task_loop_ok[OF s2(1,3,2)] unfolding process_task_queue_limit by blast
  have "iteration_checked env s" using first ctl s3(3) by (simp add: iteration_checked_def)
  then show ?thesis
    using last_phase_ok[OF s3(2,4)] scheduler_iteration_phases[OF first ctl(2) s3(1)] s3(5) by auto
qed

lemma iteration_arrivals:
  assumes inv: "primary_inv s" and arr: "arrivals env (control_event_ok A) (task_event_ok registered) (shared s)"
    and A: "A \<subseteq> set (active_workers s)" and reg: "registered \<longrightarrow> workers_states s \<noteq> []"
    and room: "length (workers_states s) + CONTROL_BUDGET < 2 ^ 32"
  shows "iteration_checked env s \<and> (\<exists>s'. scheduler_iteration env s = Some s' \<and> primary_inv s' \<and>
    arrivals env (control_event_ok A) (task_event_ok registered) (shared s') \<and>
    length (workers_states s) \<le> length (workers_states s') \<and>
    length (workers_states s') \<le> length (workers_states s) + CONTROL_BUDGET)"
proof -
  let ?arr = "\<lambda>s. arrivals env (control_event_ok A) (task_event_ok registered) (shared s)"
  let ?n = "\<lambda>s. length (workers_states s)"
  obtain s1 where s1: "first_phase env s = Some s1" "primary_inv s1" "?arr s1" "active_workers s1 = active_workers s" "?n s1 = ?n s"
    using first_phase_ok[OF inv arr] by blast
  obtain s2 where s2: "process_control_queue env s1 = Some s2" "primary_inv s2" "control_checked env CONTROL_BUDGET s1" "?arr s2"
    "?n s1 \<le> ?n s2" "?n s2 \<le> ?n s1 + CONTROL_BUDGET"
    using control_loop_ok[OF s1(2) _ s1(3), of 0] A s1(4,5) room by (auto simp: process_control_queue_def)
  have "registered \<longrightarrow> workers_states s2 \<noteq> []" using reg s2(5) s1(5) by auto
  from iteration_rest[OF s1(1) s2(3,1,2,4) this] show ?thesis using s1(5) s2(5,6) by auto
qed

subsection \<open>A busy primary\<close>

text \<open>
  A worker registers and sends a heartbeat; from then on workers register, a client submits and
  completions arrive again and again.
\<close>

definition heartbeat_0 :: IncomingEvent where
  "heartbeat_0 = \<lparr>ie_fd = 9, ie_msg = (Message_new HEARTBEAT)\<lparr>heartbeat := \<lparr>hb_worker_id = 0\<rparr>\<rparr>\<rparr>"

definition busy :: Env where
  "busy = \<lparr>now_at = of_nat, drain_at = \<lambda>_. 1,
     control_at = \<lambda>i. if i = 0 then [register_event, heartbeat_0] else [register_event],
     task_at = \<lambda>_. [submit_event, complete_3]\<rparr>"

lemma busy_guarded:
  assumes "primary_inv s" and "arrivals busy (control_event_ok {}) (task_event_ok True) (shared s)"
    and "workers_states s \<noteq> []" and "length (workers_states s) + n * CONTROL_BUDGET < 2 ^ 32"
  shows "guarded_run (\<lambda>_ :: unit. scheduler_iteration busy) (\<lambda>_. iteration_checked busy) (replicate n ()) s"
  using assms
proof (induction n arbitrary: s)
  case (Suc n)
  obtain s' where s': "iteration_checked busy s" "scheduler_iteration busy s = Some s'" "primary_inv s'"
    "arrivals busy (control_event_ok {}) (task_event_ok True) (shared s')"
    "length (workers_states s) \<le> length (workers_states s')" "length (workers_states s') \<le> length (workers_states s) + CONTROL_BUDGET"
    using iteration_arrivals[OF Suc.prems(1,2)] Suc.prems(3,4) by auto
  have "workers_states s' \<noteq> []" using s'(5) Suc.prems(3) by auto
  then show ?case using Suc.IH[OF s'(3,4)] s'(1,2,6) Suc.prems(4) by simp
qed simp

text \<open>The control queue starts with the events \<open>evs\<close>; all others are as in \<open>arrivals\<close>.\<close>

definition fronted :: "Env \<Rightarrow> IncomingEvent list \<Rightarrow> (IncomingEvent \<Rightarrow> bool) \<Rightarrow> (IncomingEvent \<Rightarrow> bool) \<Rightarrow> Shared \<Rightarrow> bool" where
  "fronted env evs C T sh \<longleftrightarrow> shared_inv sh \<and> (\<exists>rest. contents (control_queue sh) = evs @ rest \<and> (\<forall>ev\<in>set rest. C ev)) \<and>
     (\<forall>ev\<in>set (contents (task_queue sh)). T ev) \<and>
     (\<forall>i\<ge>turns sh. (\<forall>ev\<in>set (control_at env i). C ev) \<and> (\<forall>ev\<in>set (task_at env i). T ev))"

lemma fronted_Nil: "fronted env [] C T = arrivals env C T"
  by (auto simp: fronted_def arrivals_def)

lemma fronted_turn:
  assumes "fronted env evs C T sh"
  shows "fronted env evs C T (network_turn env sh)"
proof -
  have inv: "spsc_inv (control_queue sh)" "spsc_inv (task_queue sh)"
    using assms by (simp_all add: fronted_def shared_inv_def)
  have now: "\<forall>ev\<in>set (control_at env (turns sh)). C ev" "\<forall>ev\<in>set (task_at env (turns sh)). T ev"
    using assms by (auto simp: fronted_def)
  have later: "\<forall>i\<ge>Suc (turns sh). (\<forall>ev\<in>set (control_at env i). C ev) \<and> (\<forall>ev\<in>set (task_at env i). T ev)"
    using assms Suc_leD unfolding fronted_def by blast
  obtain rest where rest: "contents (control_queue sh) = evs @ rest" "\<forall>ev\<in>set rest. C ev"
    using assms by (auto simp: fronted_def)
  obtain k where k: "contents (push_all (control_at env (turns sh)) (control_queue sh)) =
      contents (control_queue sh) @ take k (control_at env (turns sh))"
    using push_all_inv[OF inv(1)] by blast
  have "\<forall>ev\<in>set (rest @ take k (control_at env (turns sh))). C ev"
    using rest(2) now(1) set_take_subset[of k] by fastforce
  moreover have "contents (control_queue (network_turn env sh)) = evs @ rest @ take k (control_at env (turns sh))"
    using rest(1) k by simp
  moreover have "\<forall>ev\<in>set (contents (task_queue (network_turn env sh))). T ev"
    using push_all_sat[OF inv(2), of T] now(2) assms by (simp add: fronted_def)
  ultimately show ?thesis
    using later assms network_turn_inv[of sh env] unfolding fronted_def by (simp del: network_turn_simps(1,2))
qed

interpretation waiting: turn_closed env "fronted env evs C T"
proof
  show "fronted env evs C T (network_turn env sh)" if "fronted env evs C T sh" for sh
    by (rule fronted_turn[OF that])
  show "fronted env evs C T (sh\<lparr>ticks := t\<rparr>)" if "fronted env evs C T sh" for sh t
    using that by (simp add: fronted_def shared_inv_def)
  show "fronted env evs C T sh'" if "fronted env evs C T sh" "push_outgoing ev sh = Some sh'" for sh ev sh'
    using that push_outgoing_Some[of sh ev sh'] by (auto simp: fronted_def push_outgoing_def)
qed

lemma pop_front:
  assumes "fronted env (ev # evs) C T (network_turn env (shared s))"
  shows "\<exists>sh. try_pop_incoming env pop_control s = (Some ev, s\<lparr>shared := sh\<rparr>) \<and> fronted env evs C T sh \<and>
    outgoing_queue sh = outgoing_queue (network_turn env (shared s))"
proof -
  define sh where "sh = network_turn env (shared s)"
  obtain rest where rest: "contents (control_queue sh) = ev # evs @ rest" "\<forall>ev\<in>set rest. C ev"
    and inv: "shared_inv sh" "spsc_inv (control_queue sh)"
    using assms by (auto simp: fronted_def sh_def shared_inv_def)
  obtain v q where pop: "try_pop (control_queue sh) = Some (v, q)"
    using spsc.pop_None[OF inv(2)] rest(1) by (cases "try_pop (control_queue sh)") auto
  have q: "spsc_inv q" "v = ev" "contents q = evs @ rest"
    using spsc.pop_Some[OF inv(2) pop] rest(1) by auto
  have "fronted env evs C T (sh\<lparr>control_queue := q\<rparr>)"
    using assms q(1,3) rest(2) unfolding fronted_def shared_inv_def sh_def[symmetric] by simp
  moreover have "try_pop_incoming env pop_control s = (Some ev, s\<lparr>shared := sh\<lparr>control_queue := q\<rparr>\<rparr>)"
    using pop q(2) by (simp add: try_pop_incoming_def pop_retry.simps pop_control_def flip: sh_def)
  ultimately show ?thesis by (auto simp: sh_def)
qed

lemma first_worker:
  assumes s: "s = Coordinator_init\<lparr>shared := sh\<rparr>" "primary_inv s"
    and room: "length (contents (outgoing_queue sh)) < bound (outgoing_queue sh)"
  shows "\<exists>s'. process_register_event env register_event s = Some s' \<and> primary_inv s' \<and>
    active_workers s' = [0] \<and> length (workers_states s') = 1"
proof -
  have init: "active_workers s = []" "workers_states s = []" "available_ids s = []" using s(1) by (simp_all add: Coordinator_init_def)
  note d = sched_invD[OF primary_invD(1)[OF s(2)]]
  obtain ok s1 where push: "try_push_outgoing env (ack_event register_event (reg_id s)) s = (ok, s1)" by fastforce
  have "fst (try_push_outgoing env (ack_event register_event (reg_id s)) s)"
    using room s(1) by (intro try_push_outgoing_room d(3)) (simp del: length_contents)
  then have ok using push by simp
  obtain s' where s': "handle_control env register_event s = Some s'" "primary_inv s'"
    using control_step_ok[OF s(2), of register_event env] init by (auto simp: control_guard_def register_event_def Message_new_def)
  then have reg: "process_register_event env register_event s = Some s'"
    by (simp add: handle_control_def register_event_def Message_new_def)
  then have "active_workers s' = [0] \<and> length (workers_states s') = 1"
    using register_eq(2)[OF d(3,1) _ push \<open>ok\<close>] init by (auto simp: reg_id_def slots_def)
  then show ?thesis using reg s'(2) by blast
qed

lemma busy_start: "fronted busy [register_event, heartbeat_0] (control_event_ok {}) (task_event_ok True)
    (network_turn busy (shared Coordinator_init))"
proof -
  have q: "spsc_inv (control_queue (shared Coordinator_init))" "contents (control_queue (shared Coordinator_init)) = []"
    "bound (control_queue (shared Coordinator_init)) = COORDINATOR_CONTROL_QUEUE_CAPACITY" "spsc_inv (task_queue (shared Coordinator_init))"
    "contents (task_queue (shared Coordinator_init)) = []"
    by (simp_all add: power_of_2_capacities SPSCQueue_init_inv Coordinator_init_def Shared_init_def del: length_contents)
  note q = q(1,2) q(3)[unfolded COORDINATOR_CONTROL_QUEUE_CAPACITY_def] q(4,5)
  obtain q1 where q1: "try_push register_event (control_queue (shared Coordinator_init)) = Some q1"
    using spsc.push_None[OF q(1), of register_event] q(2,3) by (cases "try_push register_event (control_queue (shared Coordinator_init))") auto
  note p1 = spsc.push_Some[OF q(1) q1]
  obtain q2 where q2: "try_push heartbeat_0 q1 = Some q2"
    using spsc.push_None[of q1 heartbeat_0] p1 q(2,3) by (cases "try_push heartbeat_0 q1") (auto simp del: length_contents)
  have c: "contents (push_all [register_event, heartbeat_0] (control_queue (shared Coordinator_init))) = [register_event, heartbeat_0]"
    using q1 q2 p1 spsc.push_Some[of q1, OF _ q2] q(2) by (simp del: length_contents)
  have ok: "control_event_ok {} register_event" "task_event_ok True submit_event" "task_event_ok True complete_3"
    by (simp_all add: control_event_ok_def task_event_ok_def register_event_def submit_event_def complete_3_def Message_new_def)
  have t: "\<forall>ev\<in>set (contents (push_all [submit_event, complete_3] (task_queue (shared Coordinator_init)))). task_event_ok True ev"
    using ok q(5) by (intro push_all_sat[OF q(4)]) auto
  have z: "turns (shared Coordinator_init) = 0" by (simp add: Coordinator_init_def Shared_init_def)
  show ?thesis
    using network_turn_inv[OF Coordinator_init_shared] c t ok z by (auto simp: fronted_def busy_def)
qed

text \<open>The first iteration: the registration, the heartbeat, then what keeps arriving.\<close>

lemma busy_first:
  "iteration_checked busy Coordinator_init \<and> (\<exists>s. scheduler_iteration busy Coordinator_init = Some s \<and> primary_inv s \<and>
     arrivals busy (control_event_ok {}) (task_event_ok True) (shared s) \<and>
     workers_states s \<noteq> [] \<and> length (workers_states s) \<le> 2 * CONTROL_BUDGET)"
proof -
  let ?s0 = "Coordinator_init" let ?C = "control_event_ok {}" let ?T = "task_event_ok True"
  define k where "k = CONTROL_BUDGET - 2"
  have budget: "CONTROL_BUDGET = Suc (Suc k)" "CONTROL_BUDGET - 2 = k" "k = 30"
    by (simp_all add: k_def CONTROL_BUDGET_def COORDINATOR_CONTROL_QUEUE_CAPACITY_def)
  obtain sh where pop1: "try_pop_incoming busy pop_control ?s0 = (Some register_event, ?s0\<lparr>shared := sh\<rparr>)"
      "fronted busy [heartbeat_0] ?C ?T sh" "outgoing_queue sh = outgoing_queue (network_turn busy (shared ?s0))"
    using pop_front[OF busy_start] by blast
  define s1 where "s1 = ?s0\<lparr>shared := sh\<rparr>"
  have inv1: "primary_inv s1" using pop_primary(1)[OF Coordinator_init_primary pop1(1)] by (simp add: s1_def)
  have "length (contents (outgoing_queue sh)) < bound (outgoing_queue sh)"
    using network_turn_outgoing(3,4)[of "shared ?s0" busy] Coordinator_init_shared Coordinator_init_outgoing pop1(3)
    by (simp add: shared_inv_def COORDINATOR_OUTGOING_QUEUE_CAPACITY_def COORDINATOR_TASK_QUEUE_CAPACITY_def del: length_contents)
  then obtain s2 where s2: "process_register_event busy register_event s1 = Some s2" "primary_inv s2"
      "active_workers s2 = [0]" "length (workers_states s2) = 1"
    using first_worker[OF s1_def inv1] by blast
  have f2: "fronted busy [heartbeat_0] ?C ?T (shared s2)"
    using waiting.register[OF s2(1)] pop1(2) by (simp add: s1_def)
  obtain sh3 where pop2: "try_pop_incoming busy pop_control s2 = (Some heartbeat_0, s2\<lparr>shared := sh3\<rparr>)"
      "arrivals busy ?C ?T sh3"
    using pop_front[OF waiting.turn[OF f2]] unfolding fronted_Nil by blast
  define s3 where "s3 = s2\<lparr>shared := sh3\<rparr>"
  have inv3: "primary_inv s3" using pop_primary(1)[OF s2(2) pop2(1)] by (simp add: s3_def)
  obtain s4 where s4: "handle_control busy heartbeat_0 s3 = Some s4" "primary_inv s4" "arrivals busy ?C ?T (shared s4)"
      "length (workers_states s3) \<le> length (workers_states s4)" "length (workers_states s4) \<le> Suc (length (workers_states s3))"
      "control_guard heartbeat_0 s3"
    using control_frame[OF inv3, of "{0}" heartbeat_0 busy ?C ?T] s2(3,4) pop2(2)
    by (auto simp: s3_def control_event_ok_def heartbeat_0_def Message_new_def)
  obtain s5 where s5: "control_loop busy 2 s4 = Some s5" "primary_inv s5" "control_checked busy k s4"
      "arrivals busy ?C ?T (shared s5)" "length (workers_states s4) \<le> length (workers_states s5)"
      "length (workers_states s5) \<le> length (workers_states s4) + k"
    using control_loop_ok[OF s4(2) _ s4(3), of 2] s4(5) s2(4) budget(3) by (auto simp: s3_def budget(2))
  have types: "m_type (ie_msg register_event) = REGISTER" "m_type (ie_msg heartbeat_0) = HEARTBEAT"
    by (simp_all add: register_event_def heartbeat_0_def Message_new_def)
  have hc: "handle_control busy register_event s1 = Some s2" using s2(1) types(1) by (simp add: handle_control_def)
  have g1: "control_guard register_event s1" by (simp add: control_guard_def types(1) s1_def Coordinator_init_def)
  have ck: "control_checked busy CONTROL_BUDGET ?s0"
    using pop1(1) pop2(1) hc g1 s4(1,6) s5(3) types unfolding budget(1) by (simp flip: s1_def s3_def)
  have l1: "control_loop busy 0 ?s0 = control_loop busy 1 s2"
    using pop1(1) hc types(1) by (subst control_loop.simps) (simp add: budget(1) flip: s1_def)
  have l2: "control_loop busy 1 s2 = control_loop busy 2 s4"
    using pop2(1) s4(1) types(2) by (subst control_loop.simps) (simp add: budget(1) numeral_2_eq_2 flip: s3_def)
  have pq: "process_control_queue busy ?s0 = Some s5" using l1 l2 s5(1) by (simp add: process_control_queue_def)
  have fp: "first_phase busy ?s0 = Some ?s0" by (simp add: first_phase_def Coordinator_init_def)
  have ws: "workers_states s5 \<noteq> []" "length (workers_states s5) \<le> 2 * CONTROL_BUDGET"
    using s5(5,6) s4(4,5) s2(4) by (auto simp: s3_def budget(1))
  show ?thesis
    using iteration_rest[OF fp ck pq s5(2,4)] ws by (metis length_0_conv)
qed

theorem scheduler_thread_returns_witness:
  "\<exists>s. scheduler_worker busy 1000 Coordinator_init = Some s \<and> pool_inv s"
proof -
  obtain s where s: "iteration_checked busy Coordinator_init" "scheduler_iteration busy Coordinator_init = Some s" "primary_inv s"
      "arrivals busy (control_event_ok {}) (task_event_ok True) (shared s)" "workers_states s \<noteq> []"
      "length (workers_states s) \<le> 2 * CONTROL_BUDGET"
    using busy_first by blast
  have "length (workers_states s) + 999 * CONTROL_BUDGET < 2 ^ 32"
    using s(6) by (simp add: CONTROL_BUDGET_def COORDINATOR_CONTROL_QUEUE_CAPACITY_def)
  from busy_guarded[OF s(3-5) this]
  have "guarded_run (\<lambda>_ :: unit. scheduler_iteration busy) (\<lambda>_. iteration_checked busy) (() # replicate 999 ()) Coordinator_init"
    using s(1,2) by (simp only: guarded_run.simps option.case)
  moreover have "() # replicate 999 () = replicate 1000 ()" using replicate_Suc[of 999 "()"] by (simp only: Suc_numeral semiring_norm)
  ultimately show ?thesis using scheduler_thread_returns[of busy 1000] by metis
qed

end
