(* ===== verification/Coordinator_Network.thy ===== *)
theory Coordinator_Network
  imports Coordinator_State "HOL-Library.Multiset"
begin

text \<open>
  The network thread of the coordinator (\<^verbatim>\<open>network_worker\<close> and what it calls in
  \<^verbatim>\<open>src/coordinator/coordinator.cpp\<close>).

  The operating system and the scheduler thread are parameters, a \<open>World\<close>: the results of
  the calls to come, by the number of calls made so far, and what the scheduler does to the
  queues before each access of the network thread. \<open>NetThread\<close> has the thread's state and
  records its effects: the sends it has made, the descriptors it has closed, the events it
  has received, the outgoing events it has taken, and the incoming events the scheduler has
  taken.
\<close>

subsection \<open>State\<close>

record World =
  connect_at :: "nat \<Rightarrow> int"
  accept_at :: "nat \<Rightarrow> int"
  recv_at :: "nat \<Rightarrow> int \<times> Message"
  send_at :: "nat \<Rightarrow> int"
  poll_at :: "nat \<Rightarrow> (bool \<times> bool) list"
  sched_at :: "nat \<Rightarrow> nat \<times> nat \<times> OutgoingEvent list"

record PeerNode =
  peer_alive :: bool
  connection :: "int option"

record NetThread =
  nt_backlog :: "IncomingEvent list"
  conns :: "int list"
  peer :: PeerNode
  nt_control :: "IncomingEvent SPSCQueue"
  nt_task :: "IncomingEvent SPSCQueue"
  nt_outgoing :: "OutgoingEvent SPSCQueue"
  handled_control :: "IncomingEvent list"
  handled_task :: "IncomingEvent list"
  taken :: "OutgoingEvent list"
  received :: "IncomingEvent list"
  sent :: "(int \<times> Message \<times> int) list"
  closed :: "int list"
  io :: nat

definition PeerNode_new :: PeerNode where
  "PeerNode_new = \<lparr>peer_alive = False, connection = None\<rparr>"

definition NetThread_init :: NetThread where
  "NetThread_init = \<lparr>nt_backlog = [], conns = [], peer = PeerNode_new,
     nt_control = SPSCQueue_init IncomingEvent_default COORDINATOR_CONTROL_QUEUE_CAPACITY,
     nt_task = SPSCQueue_init IncomingEvent_default COORDINATOR_TASK_QUEUE_CAPACITY,
     nt_outgoing = SPSCQueue_init OutgoingEvent_default COORDINATOR_OUTGOING_QUEUE_CAPACITY,
     handled_control = [], handled_task = [], taken = [], received = [], sent = [], closed = [], io = 0\<rparr>"

text \<open>The scheduler takes incoming events and pushes outgoing ones.\<close>

definition sched_turn :: "World \<Rightarrow> NetThread \<Rightarrow> NetThread" where
  "sched_turn w nt = (case sched_at w (io nt) of (c, t, evs) \<Rightarrow> let
     (cs, cq) = pop_many try_pop c (nt_control nt);
     (ts, tq) = pop_many try_pop t (nt_task nt)
   in nt\<lparr>nt_control := cq, nt_task := tq, nt_outgoing := push_all evs (nt_outgoing nt),
        handled_control := handled_control nt @ cs, handled_task := handled_task nt @ ts,
        io := Suc (io nt)\<rparr>)"

subsection \<open>Incoming events\<close>

definition push_control_event :: "IncomingEvent \<Rightarrow> NetThread \<Rightarrow> NetThread option" where
  "push_control_event event nt = map_option (\<lambda>q. nt\<lparr>nt_control := q\<rparr>) (try_push event (nt_control nt))"

definition push_task_event :: "IncomingEvent \<Rightarrow> NetThread \<Rightarrow> NetThread option" where
  "push_task_event event nt = map_option (\<lambda>q. nt\<lparr>nt_task := q\<rparr>) (try_push event (nt_task nt))"

definition try_push_incoming ::
  "World \<Rightarrow> (NetThread \<Rightarrow> NetThread option) \<Rightarrow> NetThread \<Rightarrow> bool \<times> NetThread" where
  "try_push_incoming w push nt = push_retry QUEUE_RETRY_COUNT (\<lambda>_. sched_turn w) push 0 (sched_turn w nt)"

definition communicate_incoming_event :: "World \<Rightarrow> IncomingEvent \<Rightarrow> NetThread \<Rightarrow> bool \<times> NetThread" where
  "communicate_incoming_event w event nt = (case m_type (ie_msg event) of
     HEARTBEAT \<Rightarrow> try_push_incoming w (push_control_event event) nt
   | REGISTER \<Rightarrow> try_push_incoming w (push_control_event event) nt
   | _ \<Rightarrow> try_push_incoming w (push_task_event event) nt)"

primrec backlog_loop :: "World \<Rightarrow> nat \<Rightarrow> NetThread \<Rightarrow> NetThread" where
  "backlog_loop w 0 nt = nt"
| "backlog_loop w (Suc budget) nt = (case nt_backlog nt of
     [] \<Rightarrow> nt
   | event # rest \<Rightarrow> (case communicate_incoming_event w event nt of (ok, nt) \<Rightarrow>
       if \<not> ok then nt else backlog_loop w budget (nt\<lparr>nt_backlog := rest\<rparr>)))"

subsection \<open>The peer\<close>

definition close_fd :: "int \<Rightarrow> NetThread \<Rightarrow> NetThread" where
  "close_fd fd nt = nt\<lparr>closed := closed nt @ [fd]\<rparr>"

text \<open>\<^verbatim>\<open>connection_.reset()\<close>: the destructor of the client closes its descriptor.\<close>

definition reset_connection :: "NetThread \<Rightarrow> NetThread" where
  "reset_connection nt = (let nt' = nt\<lparr>peer := (peer nt)\<lparr>connection := None\<rparr>\<rparr>
   in case connection (peer nt) of None \<Rightarrow> nt' | Some fd \<Rightarrow> if fd \<ge> 0 then close_fd fd nt' else nt')"

definition connect_to_peer :: "World \<Rightarrow> NetThread \<Rightarrow> bool \<times> NetThread" where
  "connect_to_peer w nt = (let
     nt = reset_connection nt;
     fd = connect_at w (io nt);
     nt = nt\<lparr>io := Suc (io nt), peer := (peer nt)\<lparr>connection := Some fd\<rparr>\<rparr>
   in if fd < 0 then (False, reset_connection (nt\<lparr>peer := (peer nt)\<lparr>peer_alive := False\<rparr>\<rparr>))
      else (True, nt))"

definition reconnect_event :: IncomingEvent where
  "reconnect_event = IncomingEvent_default\<lparr>ie_msg := Message_new PEER_RECONNECTED\<rparr>"

definition reconnect_to_peer :: "World \<Rightarrow> NetThread \<Rightarrow> NetThread" where
  "reconnect_to_peer w nt = (case connect_to_peer w nt of (ok, nt) \<Rightarrow>
     if ok then (case try_push_incoming w (push_task_event reconnect_event) nt of (pushed, nt) \<Rightarrow>
       if \<not> pushed then nt else nt\<lparr>peer := (peer nt)\<lparr>peer_alive := True\<rparr>\<rparr>)
     else nt)"

text \<open>\<^verbatim>\<open>net::send_message_with_retry\<close>, with its return code.\<close>

definition net_send :: "World \<Rightarrow> int \<Rightarrow> Message \<Rightarrow> NetThread \<Rightarrow> int \<times> NetThread" where
  "net_send w fd msg nt = (let n = send_at w (io nt) in
     (n, nt\<lparr>io := Suc (io nt), sent := sent nt @ [(fd, msg, n)]\<rparr>))"

definition send_replication_message :: "World \<Rightarrow> OutgoingEvent \<Rightarrow> NetThread \<Rightarrow> NetThread" where
  "send_replication_message w event nt = (case connection (peer nt) of
     None \<Rightarrow> reconnect_to_peer w nt
   | Some fd \<Rightarrow>
       if \<not> peer_alive (peer nt) \<or> fd < 0 then reconnect_to_peer w nt
       else (case net_send w fd (oe_msg event) nt of (n, nt) \<Rightarrow>
         if n \<le> 0 then reconnect_to_peer w (reset_connection (nt\<lparr>peer := (peer nt)\<lparr>peer_alive := False\<rparr>\<rparr>))
         else nt))"

subsection \<open>One round of the thread\<close>

definition poll_set :: "int \<Rightarrow> NetThread \<Rightarrow> int list" where
  "poll_set listen_fd nt = [listen_fd] @
     (case connection (peer nt) of Some fd \<Rightarrow> if peer_alive (peer nt) then [fd] else [] | None \<Rightarrow> []) @ conns nt"

definition drop_conn :: "int \<Rightarrow> NetThread \<Rightarrow> NetThread" where
  "drop_conn fd nt = (close_fd fd nt)\<lparr>conns := removeAll fd (conns nt)\<rparr>"

definition handle_pfd :: "World \<Rightarrow> int \<Rightarrow> int \<Rightarrow> bool \<times> bool \<Rightarrow> NetThread \<Rightarrow> NetThread" where
  "handle_pfd w listen_fd fd revents nt = (case revents of (err, pollin) \<Rightarrow>
     if err then
       (if connection (peer nt) = Some fd
        then reset_connection (nt\<lparr>peer := (peer nt)\<lparr>peer_alive := False\<rparr>\<rparr>)
        else drop_conn fd nt)
     else if \<not> pollin then nt
     else if fd = listen_fd then (let
         new_fd = accept_at w (io nt);
         nt = nt\<lparr>io := Suc (io nt)\<rparr>
       in if new_fd \<ge> 0 then nt\<lparr>conns := conns nt @ [new_fd]\<rparr> else nt)
     else (case recv_at w (io nt) of (n, msg) \<Rightarrow> let
         nt = nt\<lparr>io := Suc (io nt)\<rparr>
       in if n = -1 then drop_conn fd nt
          else if n = -3 then nt
          else let
            event = \<lparr>ie_fd = fd, ie_msg = msg\<rparr>;
            nt = nt\<lparr>received := received nt @ [event]\<rparr>
          in case communicate_incoming_event w event nt of (ok, nt) \<Rightarrow>
            if ok then nt else nt\<lparr>nt_backlog := nt_backlog nt @ [event]\<rparr>))"

primrec poll_loop :: "World \<Rightarrow> int \<Rightarrow> (int \<times> bool \<times> bool) list \<Rightarrow> NetThread \<Rightarrow> NetThread" where
  "poll_loop w listen_fd [] nt = nt"
| "poll_loop w listen_fd (p # ps) nt = (case p of (fd, revents) \<Rightarrow>
     poll_loop w listen_fd ps (handle_pfd w listen_fd fd revents nt))"

primrec outgoing_loop :: "World \<Rightarrow> nat \<Rightarrow> NetThread \<Rightarrow> NetThread" where
  "outgoing_loop w 0 nt = nt"
| "outgoing_loop w (Suc budget) nt = (let nt = sched_turn w nt in case try_pop (nt_outgoing nt) of
     None \<Rightarrow> nt
   | Some (out, q) \<Rightarrow> let
       nt = nt\<lparr>nt_outgoing := q, taken := taken nt @ [out]\<rparr>;
       nt = (if is_replication (oe_msg out) then send_replication_message w out nt
             else if oe_fd out \<ge> 0 then snd (net_send w (oe_fd out) (oe_msg out) nt)
             else nt)
     in outgoing_loop w budget nt)"

definition network_iteration :: "World \<Rightarrow> int \<Rightarrow> NetThread \<Rightarrow> NetThread" where
  "network_iteration w listen_fd nt = (let
     nt = backlog_loop w 64 nt;
     pfds = poll_set listen_fd nt;
     flags = poll_at w (io nt);
     nt = nt\<lparr>io := Suc (io nt)\<rparr>;
     nt = poll_loop w listen_fd (zip pfds flags) nt
   in outgoing_loop w COORDINATOR_OUT_BUDGET nt)"

text \<open>\<^verbatim>\<open>running_\<close> is seen true \<open>n\<close> times.\<close>

definition network_start :: "World \<Rightarrow> NetThread \<Rightarrow> NetThread" where
  "network_start w nt = (case connect_to_peer w nt of (ok, nt) \<Rightarrow>
     if ok then nt\<lparr>peer := (peer nt)\<lparr>peer_alive := True\<rparr>\<rparr> else nt)"

definition network_worker :: "World \<Rightarrow> int \<Rightarrow> nat \<Rightarrow> NetThread \<Rightarrow> NetThread" where
  "network_worker w listen_fd n nt =
     (if listen_fd < 0 then nt
      else close_fd listen_fd ((network_iteration w listen_fd ^^ n) (network_start w nt)))"

subsection \<open>Streams\<close>

definition is_control :: "IncomingEvent \<Rightarrow> bool" where
  "is_control ev \<longleftrightarrow> m_type (ie_msg ev) \<in> {HEARTBEAT, REGISTER}"

text \<open>Everything pushed into a queue so far, in order.\<close>

definition control_stream :: "NetThread \<Rightarrow> IncomingEvent list" where
  "control_stream nt = handled_control nt @ contents (nt_control nt)"

definition task_stream :: "NetThread \<Rightarrow> IncomingEvent list" where
  "task_stream nt = handled_task nt @ contents (nt_task nt)"

definition net_inv :: "NetThread \<Rightarrow> bool" where
  "net_inv nt \<longleftrightarrow> spsc_inv (nt_control nt) \<and> spsc_inv (nt_task nt) \<and> spsc_inv (nt_outgoing nt)"

text \<open>The fields that belong to the network thread alone.\<close>

definition same_thread :: "NetThread \<Rightarrow> NetThread \<Rightarrow> bool" where
  "same_thread nt nt' \<longleftrightarrow> nt_backlog nt' = nt_backlog nt \<and> conns nt' = conns nt \<and> peer nt' = peer nt \<and>
     taken nt' = taken nt \<and> received nt' = received nt \<and> sent nt' = sent nt \<and> closed nt' = closed nt"

definition grown :: "IncomingEvent list \<Rightarrow> IncomingEvent list \<Rightarrow> NetThread \<Rightarrow> NetThread \<Rightarrow> bool" where
  "grown cs ts nt nt' \<longleftrightarrow> net_inv nt' \<and> same_thread nt nt' \<and> control_stream nt' = control_stream nt @ cs \<and>
     task_stream nt' = task_stream nt @ ts"

lemma grown_refl: "net_inv nt \<Longrightarrow> grown [] [] nt nt"
  by (simp add: grown_def same_thread_def)

lemma grown_trans: "grown cs ts nt nt' \<Longrightarrow> grown cs' ts' nt' nt'' \<Longrightarrow> grown (cs @ cs') (ts @ ts') nt nt''"
  by (simp add: grown_def same_thread_def)

lemma sched_turn_grown:
  assumes "net_inv nt"
  shows "grown [] [] nt (sched_turn w nt)"
proof -
  obtain c t evs where w: "sched_at w (io nt) = (c, t, evs)" by (cases "sched_at w (io nt)")
  obtain cs cq where c: "pop_many try_pop c (nt_control nt) = (cs, cq)" by fastforce
  obtain ts tq where t: "pop_many try_pop t (nt_task nt) = (ts, tq)" by fastforce
  have inv: "spsc_inv (nt_control nt)" "spsc_inv (nt_task nt)" "spsc_inv (nt_outgoing nt)"
    using assms by (simp_all add: net_inv_def)
  show ?thesis
    using spsc.pop_many[OF inv(1) c] spsc.pop_many[OF inv(2) t] push_all_inv[OF inv(3), of evs]
    by (simp add: sched_turn_def w c t Let_def grown_def net_inv_def same_thread_def control_stream_def task_stream_def)
qed

lemma push_control_grown:
  "net_inv nt \<Longrightarrow> push_control_event ev nt = Some nt' \<Longrightarrow> grown [ev] [] nt nt'"
  using spsc.push_Some[of "nt_control nt" ev]
  by (auto simp: push_control_event_def grown_def net_inv_def same_thread_def control_stream_def task_stream_def)

lemma push_task_grown:
  "net_inv nt \<Longrightarrow> push_task_event ev nt = Some nt' \<Longrightarrow> grown [] [ev] nt nt'"
  using spsc.push_Some[of "nt_task nt" ev]
  by (auto simp: push_task_event_def grown_def net_inv_def same_thread_def control_stream_def task_stream_def)

lemma try_push_incoming_grown:
  assumes "net_inv nt" and "try_push_incoming w push nt = (ok, nt')"
    and push: "\<And>nt nt'. net_inv nt \<Longrightarrow> push nt = Some nt' \<Longrightarrow> grown cs ts nt nt'"
  shows "grown (if ok then cs else []) (if ok then ts else []) nt nt'"
proof -
  have turn: "grown [] [] nt (sched_turn w q)" if "grown [] [] nt q" for q
    using grown_trans[OF that sched_turn_grown] that by (simp add: grown_def)
  have "if ok then grown cs ts nt nt' else grown [] [] nt nt'"
  proof (rule push_retry_rule[OF assms(2)[unfolded try_push_incoming_def]])
    show "grown [] [] nt (sched_turn w nt)" by (rule turn[OF grown_refl[OF assms(1)]])
    show "grown cs ts nt q'" if "grown [] [] nt q" "push q = Some q'" for q q'
      using grown_trans[OF that(1) push[OF _ that(2)]] that(1) by (simp add: grown_def)
  qed (rule turn)
  then show ?thesis by simp
qed

lemma communicate_grown:
  assumes "net_inv nt" and "communicate_incoming_event w ev nt = (ok, nt')"
  shows "grown (if ok \<and> is_control ev then [ev] else []) (if ok \<and> \<not> is_control ev then [ev] else []) nt nt'"
proof (cases "is_control ev")
  case True
  then have "try_push_incoming w (push_control_event ev) nt = (ok, nt')"
    using assms(2) by (auto simp: communicate_incoming_event_def is_control_def)
  from try_push_incoming_grown[OF assms(1) this, of "[ev]" "[]"] push_control_grown show ?thesis
    using True by simp
next
  case False
  then have "try_push_incoming w (push_task_event ev) nt = (ok, nt')"
    using assms(2) by (auto simp: communicate_incoming_event_def is_control_def split: MessageType.splits)
  from try_push_incoming_grown[OF assms(1) this, of "[]" "[ev]"] push_task_grown show ?thesis
    using False by simp
qed

subsection \<open>The invariant of the thread\<close>

definition routed :: "NetThread \<Rightarrow> bool" where
  "routed nt \<longleftrightarrow> (\<forall>ev\<in>set (control_stream nt). is_control ev) \<and> (\<forall>ev\<in>set (task_stream nt). \<not> is_control ev)"

definition balance :: "NetThread \<Rightarrow> bool" where
  "balance nt \<longleftrightarrow> (\<exists>n. mset (control_stream nt) + mset (task_stream nt) + mset (nt_backlog nt) =
     mset (received nt) + replicate_mset n reconnect_event)"

definition direct :: "OutgoingEvent \<Rightarrow> bool" where
  "direct e \<longleftrightarrow> \<not> is_replication (oe_msg e) \<and> oe_fd e \<ge> 0"

definition direct_sends :: "NetThread \<Rightarrow> (int \<times> Message) list" where
  "direct_sends nt = map (\<lambda>(fd, m, n). (fd, m)) (filter (\<lambda>(fd, m, n). \<not> is_replication m) (sent nt))"

definition net_ok :: "NetThread \<Rightarrow> bool" where
  "net_ok nt \<longleftrightarrow> net_inv nt \<and> routed nt \<and> balance nt \<and>
     direct_sends nt = map (\<lambda>e. (oe_fd e, oe_msg e)) (filter direct (taken nt))"

lemma net_ok_upd [simp]:
  "net_ok (nt\<lparr>peer := a\<rparr>) = net_ok nt" "net_ok (nt\<lparr>conns := b\<rparr>) = net_ok nt"
  "net_ok (nt\<lparr>closed := c\<rparr>) = net_ok nt" "net_ok (nt\<lparr>io := i\<rparr>) = net_ok nt"
  by (simp_all add: net_ok_def net_inv_def routed_def balance_def direct_sends_def control_stream_def task_stream_def)

lemma stream_upd [simp]:
  "control_stream (nt\<lparr>received := r\<rparr>) = control_stream nt" "task_stream (nt\<lparr>received := r\<rparr>) = task_stream nt"
  "control_stream (nt\<lparr>nt_backlog := b\<rparr>) = control_stream nt" "task_stream (nt\<lparr>nt_backlog := b\<rparr>) = task_stream nt"
  "control_stream (nt\<lparr>io := i\<rparr>) = control_stream nt" "task_stream (nt\<lparr>io := i\<rparr>) = task_stream nt"
  by (simp_all add: control_stream_def task_stream_def)

lemma not_control_reconnect: "\<not> is_control reconnect_event"
  by (simp add: is_control_def reconnect_event_def Message_new_def)

lemma replicate_mset_add: "replicate_mset (m + n) x = replicate_mset m x + replicate_mset n x"
  by (rule multiset_eqI) simp

lemma grown_ok:
  assumes "net_ok nt" and "grown cs ts nt nt'" and "\<forall>ev\<in>set cs. is_control ev" and "\<forall>ev\<in>set ts. \<not> is_control ev"
    and "mset cs + mset ts = replicate_mset n reconnect_event"
  shows "net_ok nt'"
proof -
  obtain k where k: "mset (control_stream nt) + mset (task_stream nt) + mset (nt_backlog nt) =
      mset (received nt) + replicate_mset k reconnect_event"
    using assms(1) by (auto simp: net_ok_def balance_def)
  have "mset (control_stream nt') + mset (task_stream nt') + mset (nt_backlog nt') =
      (mset (control_stream nt) + mset (task_stream nt) + mset (nt_backlog nt)) + (mset cs + mset ts)"
    using assms(2) by (simp add: grown_def same_thread_def ac_simps)
  then have "balance nt'"
    using assms(2) unfolding balance_def k assms(5)
    by (intro exI[of _ "k + n"]) (simp add: grown_def same_thread_def replicate_mset_add ac_simps)
  then show ?thesis
    using assms(1-4) by (auto simp: net_ok_def grown_def same_thread_def routed_def direct_sends_def)
qed

lemma net_ok_inv: "net_ok nt \<Longrightarrow> net_inv nt"
  by (simp add: net_ok_def)

lemma sched_turn_ok: "net_ok nt \<Longrightarrow> net_ok (sched_turn w nt)"
  using grown_ok[OF _ sched_turn_grown, of nt 0 w] net_ok_inv by simp

lemma backlog_loop_ok: "net_ok nt \<Longrightarrow> net_ok (backlog_loop w n nt)"
proof (induction n arbitrary: nt)
  case (Suc n)
  show ?case
  proof (cases "nt_backlog nt")
    case (Cons ev rest)
    obtain ok nt' where c: "communicate_incoming_event w ev nt = (ok, nt')" by fastforce
    note g = communicate_grown[OF net_ok_inv[OF Suc.prems] c]
    show ?thesis
    proof (cases ok)
      case False
      then show ?thesis using grown_ok[OF Suc.prems g, of 0] Cons c by simp
    next
      case True
      have "net_ok (nt'\<lparr>nt_backlog := rest\<rparr>)"
        using g True Suc.prems Cons
        by (auto simp: net_ok_def grown_def same_thread_def routed_def balance_def direct_sends_def net_inv_def
            split: if_splits)
      then show ?thesis using Suc.IH True Cons c by simp
    qed
  qed (use Suc.prems in simp)
qed simp

lemma reset_connection_ok [simp]: "net_ok (reset_connection nt) = net_ok nt"
  by (simp add: reset_connection_def close_fd_def Let_def split: option.split)

lemma connect_to_peer_ok: "net_ok nt \<Longrightarrow> connect_to_peer w nt = (ok, nt') \<Longrightarrow> net_ok nt'"
  by (auto simp: connect_to_peer_def Let_def split: if_splits)

lemma reconnect_to_peer_ok:
  assumes "net_ok nt"
  shows "net_ok (reconnect_to_peer w nt)"
proof -
  obtain ok nt1 where c: "connect_to_peer w nt = (ok, nt1)" by fastforce
  obtain pushed nt2 where p: "try_push_incoming w (push_task_event reconnect_event) nt1 = (pushed, nt2)" by fastforce
  have ok1: "net_ok nt1" by (rule connect_to_peer_ok[OF assms c])
  have "grown (if pushed then [] else []) (if pushed then [reconnect_event] else []) nt1 nt2"
    by (rule try_push_incoming_grown[OF net_ok_inv[OF ok1] p push_task_grown])
  from grown_ok[OF ok1 this, of "if pushed then 1 else 0"] not_control_reconnect have "net_ok nt2" by simp
  then show ?thesis using c p ok1 by (simp add: reconnect_to_peer_def)
qed

lemma handle_pfd_ok:
  assumes "net_ok nt"
  shows "net_ok (handle_pfd w listen_fd fd revents nt)"
proof (cases "\<exists>n msg. revents = (False, True) \<and> fd \<noteq> listen_fd \<and> recv_at w (io nt) = (n, msg) \<and> n \<noteq> -1 \<and> n \<noteq> -3")
  case False
  then show ?thesis
    using assms by (auto simp: handle_pfd_def drop_conn_def close_fd_def Let_def split: prod.split if_splits)
next
  case True
  then obtain n msg where r: "revents = (False, True)" "fd \<noteq> listen_fd" "recv_at w (io nt) = (n, msg)" "n \<noteq> -1" "n \<noteq> -3"
    by blast
  define ev where "ev = \<lparr>ie_fd = fd, ie_msg = msg\<rparr>"
  define nt1 where "nt1 = nt\<lparr>io := Suc (io nt), received := received nt @ [ev]\<rparr>"
  obtain ok nt2 where c: "communicate_incoming_event w ev nt1 = (ok, nt2)" by fastforce
  have "net_inv nt1" using net_ok_inv[OF assms] by (simp add: nt1_def net_inv_def)
  note g = communicate_grown[OF this c]
  have "net_ok (if ok then nt2 else nt2\<lparr>nt_backlog := nt_backlog nt2 @ [ev]\<rparr>)"
    using g assms
    by (auto simp: net_ok_def grown_def same_thread_def routed_def balance_def direct_sends_def net_inv_def nt1_def
        split: if_splits)
  then show ?thesis using r c by (auto simp: handle_pfd_def Let_def ev_def nt1_def split: if_splits)
qed

lemma poll_loop_ok: "net_ok nt \<Longrightarrow> net_ok (poll_loop w listen_fd ps nt)"
  by (induction ps arbitrary: nt) (auto simp: handle_pfd_ok split: prod.split)

text \<open>A replication message changes nothing of what has been sent directly.\<close>

lemma net_send_replication_ok:
  "net_ok nt \<Longrightarrow> is_replication msg \<Longrightarrow> net_ok (snd (net_send w fd msg nt))"
  by (simp add: net_send_def Let_def net_ok_def net_inv_def routed_def balance_def direct_sends_def
      control_stream_def task_stream_def)

lemma send_replication_ok:
  assumes "net_ok nt" and "is_replication (oe_msg ev)"
  shows "net_ok (send_replication_message w ev nt)"
proof (cases "connection (peer nt)")
  case None
  then show ?thesis using reconnect_to_peer_ok[OF assms(1)] by (simp add: send_replication_message_def)
next
  case (Some fd)
  obtain n nt1 where s: "net_send w fd (oe_msg ev) nt = (n, nt1)" by fastforce
  have "net_ok nt1" using net_send_replication_ok[OF assms, of w fd] s by simp
  then have "net_ok (reconnect_to_peer w (reset_connection (nt1\<lparr>peer := (peer nt1)\<lparr>peer_alive := False\<rparr>\<rparr>)))" "net_ok nt1"
    by (simp_all add: reconnect_to_peer_ok)
  then show ?thesis
    using Some s reconnect_to_peer_ok[OF assms(1), of w] by (simp add: send_replication_message_def)
qed

lemma outgoing_loop_ok: "net_ok nt \<Longrightarrow> net_ok (outgoing_loop w n nt)"
proof (induction n arbitrary: nt)
  case (Suc n)
  define nt1 where "nt1 = sched_turn w nt"
  have ok1: "net_ok nt1" using sched_turn_ok[OF Suc.prems] by (simp add: nt1_def)
  show ?case
  proof (cases "try_pop (nt_outgoing nt1)")
    case None
    then show ?thesis using ok1 by (simp add: nt1_def Let_def)
  next
    case (Some p)
    obtain out q where p: "try_pop (nt_outgoing nt1) = Some (out, q)" using Some by (cases p) simp
    define nt2 where "nt2 = nt1\<lparr>nt_outgoing := q, taken := taken nt1 @ [out]\<rparr>"
    define nt3 where "nt3 = (if is_replication (oe_msg out) then send_replication_message w out nt2
      else if oe_fd out \<ge> 0 then snd (net_send w (oe_fd out) (oe_msg out) nt2) else nt2)"
    have q: "spsc_inv q" using spsc.pop_Some[OF _ p] net_ok_inv[OF ok1] by (simp add: net_inv_def)
    have ok2: "net_ok nt2" if "\<not> direct out"
      using ok1 q that by (simp add: nt2_def net_ok_def net_inv_def routed_def balance_def direct_sends_def
          control_stream_def task_stream_def)
    have "net_ok nt3"
    proof (cases "direct out")
      case True
      then show ?thesis
        using ok1 q by (auto simp: nt3_def nt2_def direct_def net_send_def Let_def net_ok_def net_inv_def routed_def
            balance_def direct_sends_def control_stream_def task_stream_def)
    next
      case False
      then show ?thesis using ok2[OF False] send_replication_ok[OF ok2[OF False]] by (auto simp: nt3_def direct_def)
    qed
    moreover have "outgoing_loop w (Suc n) nt = outgoing_loop w n nt3"
      unfolding nt3_def nt2_def using p by (simp add: Let_def flip: nt1_def)
    ultimately show ?thesis using Suc.IH by simp
  qed
qed simp

lemma network_iteration_ok: "net_ok nt \<Longrightarrow> net_ok (network_iteration w listen_fd nt)"
  by (simp add: network_iteration_def Let_def outgoing_loop_ok poll_loop_ok backlog_loop_ok)

lemma network_worker_ok:
  assumes "net_ok nt"
  shows "net_ok (network_worker w listen_fd n nt)"
proof -
  have start: "net_ok (network_start w nt)"
    using connect_to_peer_ok[OF assms] by (auto simp: network_start_def split: prod.split)
  have "net_ok ((network_iteration w listen_fd ^^ n) (network_start w nt))"
    by (induction n) (simp_all add: start network_iteration_ok)
  then show ?thesis using assms by (simp add: network_worker_def close_fd_def)
qed

lemma NetThread_init_ok: "net_ok NetThread_init"
  by (simp add: net_ok_def net_inv_def routed_def balance_def direct_sends_def control_stream_def task_stream_def
      NetThread_init_def SPSCQueue_init_inv power_of_2_capacities del: length_contents)

subsection \<open>Properties\<close>

text \<open>C9:
  The network thread neither loses nor invents nor misroutes an event: after any number of
  rounds, whatever the kernel and the scheduler do, the events pushed into the two queues
  together with those in its backlog are exactly the events received, plus notices that the
  peer has been reconnected; heartbeats and registrations alone are in the control queue and
  everything else in the task queue; and the messages sent directly are exactly the outgoing
  events taken from the queue that are not replication and have a descriptor, in order and
  once each.
\<close>

theorem network_loses_nothing:
  "let nt = network_worker w listen_fd n NetThread_init in
    (\<exists>k. mset (control_stream nt) + mset (task_stream nt) + mset (nt_backlog nt) =
      mset (received nt) + replicate_mset k reconnect_event) \<and>
    (\<forall>ev\<in>set (control_stream nt). m_type (ie_msg ev) \<in> {HEARTBEAT, REGISTER}) \<and>
    (\<forall>ev\<in>set (task_stream nt). m_type (ie_msg ev) \<notin> {HEARTBEAT, REGISTER}) \<and>
    map (\<lambda>(fd, m, n). (fd, m)) (filter (\<lambda>(fd, m, n). \<not> is_replication m) (sent nt)) =
      map (\<lambda>e. (oe_fd e, oe_msg e)) (filter (\<lambda>e. \<not> is_replication (oe_msg e) \<and> oe_fd e \<ge> 0) (taken nt))"
proof -
  define nt where "nt = network_worker w listen_fd n NetThread_init"
  have "net_ok nt" unfolding nt_def by (rule network_worker_ok[OF NetThread_init_ok])
  moreover have "(\<lambda>e. \<not> is_replication (oe_msg e) \<and> oe_fd e \<ge> 0) = direct" by (simp add: fun_eq_iff direct_def)
  ultimately show ?thesis
    unfolding Let_def nt_def[symmetric] net_ok_def balance_def routed_def direct_sends_def is_control_def by simp
qed

definition quiet_world :: World where
  "quiet_world = \<lparr>connect_at = \<lambda>_. 7, accept_at = \<lambda>_. 8, recv_at = \<lambda>_. (20, Message_new HEARTBEAT), send_at = \<lambda>_. 20,
     poll_at = \<lambda>_. [(False, True), (False, True), (False, True)], sched_at = \<lambda>_. (0, 0, [])\<rparr>"

theorem network_loses_nothing_witness:
  "filter (\<lambda>ev. m_type (ie_msg ev) \<notin> {HEARTBEAT, REGISTER})
     (control_stream (network_worker quiet_world 3 5 NetThread_init)) = []"
  using network_loses_nothing[of quiet_world 3 5] unfolding Let_def filter_empty_conv by blast

text \<open>What \<^verbatim>\<open>reconnect_to_peer\<close> leaves.\<close>

lemma connect_to_peer_cases:
  assumes "connect_to_peer w nt = (ok, nt')"
  shows "nt_control nt' = nt_control nt \<and> nt_task nt' = nt_task nt \<and> nt_outgoing nt' = nt_outgoing nt \<and>
    handled_control nt' = handled_control nt \<and> handled_task nt' = handled_task nt \<and> sent nt' = sent nt \<and>
    (if ok then peer_alive (peer nt') = peer_alive (peer nt) \<and> (\<exists>fd\<ge>0. connection (peer nt') = Some fd)
     else \<not> peer_alive (peer nt') \<and> connection (peer nt') = None)"
  using assms by (auto simp: connect_to_peer_def reset_connection_def close_fd_def Let_def split: if_splits option.splits)

lemma reconnect_to_peer_cases:
  assumes inv: "net_inv nt" and dead: "\<not> peer_alive (peer nt)"
  shows "let nt' = reconnect_to_peer w nt in net_inv nt' \<and> control_stream nt' = control_stream nt \<and>
    sent nt' = sent nt \<and>
    (if peer_alive (peer nt') then task_stream nt' = task_stream nt @ [reconnect_event] \<and> (\<exists>fd\<ge>0. connection (peer nt') = Some fd)
     else task_stream nt' = task_stream nt)"
proof -
  obtain ok nt1 where c: "connect_to_peer w nt = (ok, nt1)" by fastforce
  note nt1 = connect_to_peer_cases[OF c]
  obtain pushed nt2 where t: "try_push_incoming w (push_task_event reconnect_event) nt1 = (pushed, nt2)" by fastforce
  have inv1: "net_inv nt1" using inv nt1 by (simp add: net_inv_def)
  have g: "grown (if pushed then [] else []) (if pushed then [reconnect_event] else []) nt1 nt2"
    by (rule try_push_incoming_grown[OF inv1 t push_task_grown])
  show ?thesis
  proof (cases ok)
    case False
    then show ?thesis using c inv1 nt1 by (simp add: reconnect_to_peer_def control_stream_def task_stream_def)
  next
    case True
    then show ?thesis
      using c t g nt1 dead
      by (cases pushed) (auto simp: reconnect_to_peer_def grown_def same_thread_def control_stream_def task_stream_def net_inv_def)
  qed
qed

text \<open>C21:
  What the network thread does with a replication message. It calls send at most once, with that
  message and on the descriptor stored for the peer. If the peer counts as alive afterwards, then either
  that call reported success, or a new connection was made and the notice that asks the
  scheduler for a snapshot was pushed right then; if it does not, no notice was pushed and the
  next replication message tries to connect again. (A successful send is no delivery: the stored
  descriptor may be stale, see the theorem below. And the scheduler answers the notice with a snapshot only
  when it is the primary and the snapshot can be pushed.)
\<close>

theorem replication_sent_or_notified:
  assumes "net_inv nt" and "peer_alive (peer nt) \<longrightarrow> (\<exists>fd\<ge>0. connection (peer nt) = Some fd)"
  shows "let nt' = send_replication_message w ev nt in
    (sent nt' = sent nt \<or> (\<exists>fd n. connection (peer nt) = Some fd \<and> sent nt' = sent nt @ [(fd, oe_msg ev, n)])) \<and>
    (if peer_alive (peer nt') then (\<exists>fd\<ge>0. connection (peer nt') = Some fd) \<and>
       ((\<exists>fd n. connection (peer nt) = Some fd \<and> 0 < n \<and> sent nt' = sent nt @ [(fd, oe_msg ev, n)] \<and>
           peer nt' = peer nt \<and> task_stream nt' = task_stream nt) \<or>
        task_stream nt' = task_stream nt @ [reconnect_event])
     else task_stream nt' = task_stream nt)"
proof (cases "peer_alive (peer nt)")
  case False
  then have "send_replication_message w ev nt = reconnect_to_peer w nt"
    by (simp add: send_replication_message_def split: option.split)
  then show ?thesis using reconnect_to_peer_cases[OF assms(1) False, of w] by (auto simp: Let_def)
next
  case True
  then obtain fd where fd: "fd \<ge> 0" "connection (peer nt) = Some fd" using assms(2) by blast
  obtain n nt1 where s: "net_send w fd (oe_msg ev) nt = (n, nt1)" by fastforce
  define nt2 where "nt2 = reset_connection (nt1\<lparr>peer := (peer nt1)\<lparr>peer_alive := False\<rparr>\<rparr>)"
  have nt1: "net_inv nt1" "peer nt1 = peer nt" "task_stream nt1 = task_stream nt" "sent nt1 = sent nt @ [(fd, oe_msg ev, n)]"
    using s assms(1) by (auto simp: net_send_def Let_def net_inv_def task_stream_def)
  have nt2: "net_inv nt2" "\<not> peer_alive (peer nt2)" "task_stream nt2 = task_stream nt" "sent nt2 = sent nt @ [(fd, oe_msg ev, n)]"
    using nt1 by (auto simp: nt2_def reset_connection_def close_fd_def Let_def net_inv_def task_stream_def split: option.split)
  have "send_replication_message w ev nt = (if n \<le> 0 then reconnect_to_peer w nt2 else nt1)"
    using True fd s by (simp add: send_replication_message_def nt2_def)
  then show ?thesis
    using reconnect_to_peer_cases[OF nt2(1,2), of w] nt1 nt2(3,4) fd by (auto simp: Let_def)
qed

theorem replication_sent_or_notified_witness:
  "let nt' = send_replication_message quiet_world (OutgoingEvent_default\<lparr>oe_msg := Message_new SNAPSHOT\<rparr>) NetThread_init
   in peer_alive (peer nt') \<and> task_stream nt' = [reconnect_event]"
proof -
  let ?ev = "OutgoingEvent_default\<lparr>oe_msg := Message_new SNAPSHOT\<rparr>"
  define nt' where "nt' = send_replication_message quiet_world ?ev NetThread_init"
  have init: "peer_alive (peer NetThread_init) \<longrightarrow> (\<exists>fd\<ge>0. connection (peer NetThread_init) = Some fd)"
    "connection (peer NetThread_init) = None" "task_stream NetThread_init = []"
    by (simp_all add: NetThread_init_def PeerNode_new_def task_stream_def SPSCQueue_init_inv power_of_2_capacities del: length_contents)
  obtain nt1 where c: "connect_to_peer quiet_world NetThread_init = (True, nt1)"
    by (auto simp: connect_to_peer_def Let_def quiet_world_def)
  have inv1: "net_inv (sched_turn quiet_world nt1)"
    using sched_turn_grown connect_to_peer_ok[OF NetThread_init_ok c] net_ok_inv by (auto simp: grown_def)
  have "nt_task (sched_turn quiet_world nt1) = nt_task NetThread_init"
    using connect_to_peer_cases[OF c] by (simp add: sched_turn_def quiet_world_def Let_def)
  moreover have "contents (nt_task NetThread_init) = []" "bound (nt_task NetThread_init) = COORDINATOR_TASK_QUEUE_CAPACITY"
    by (simp_all add: NetThread_init_def SPSCQueue_init_inv power_of_2_capacities del: length_contents)
  ultimately obtain q where q: "try_push reconnect_event (nt_task (sched_turn quiet_world nt1)) = Some q"
    using spsc.push_None[of "nt_task (sched_turn quiet_world nt1)" reconnect_event] inv1
    by (auto simp: net_inv_def COORDINATOR_TASK_QUEUE_CAPACITY_def simp del: length_contents)
  have alive: "peer_alive (peer nt')"
    using c q init(2) by (simp add: nt'_def send_replication_message_def reconnect_to_peer_def try_push_incoming_def
        push_retry.simps push_task_event_def)
  show ?thesis
    using replication_sent_or_notified[OF net_ok_inv[OF NetThread_init_ok] init(1), of quiet_world ?ev] alive init(2,3)
    unfolding nt'_def Let_def by auto
qed

text \<open>C22:
  Losing the peer's connection on the reading side closes a descriptor twice: when the
  receive on the connection to the peer reports the end of the stream, the thread closes the
  descriptor but the peer still counts as alive and still owns it, so that the next
  replication message is sent to a closed descriptor, or to whichever connection has been
  given its number since, and resetting the connection later closes that number once more.
\<close>

theorem peer_eof_closes_twice:
  assumes "connection (peer nt) = Some fd" and "fd \<ge> 0" and "peer_alive (peer nt)" and "fd \<noteq> listen_fd"
    and "recv_at w (io nt) = (-1, msg)" and "net_inv nt"
  shows "let nt1 = handle_pfd w listen_fd fd (False, True) nt in
    closed nt1 = closed nt @ [fd] \<and> peer nt1 = peer nt \<and>
    closed (reset_connection nt1) = closed nt @ [fd, fd] \<and>
    (\<exists>n. (fd, oe_msg ev, n) \<in> set (sent (send_replication_message w ev nt1)))"
proof -
  define nt1 where "nt1 = handle_pfd w listen_fd fd (False, True) nt"
  have nt1: "closed nt1 = closed nt @ [fd]" "peer nt1 = peer nt"
    using assms by (simp_all add: nt1_def handle_pfd_def drop_conn_def close_fd_def Let_def)
  obtain n nt2 where s: "net_send w fd (oe_msg ev) nt1 = (n, nt2)" by fastforce
  then have sent2: "(fd, oe_msg ev, n) \<in> set (sent nt2)" by (auto simp: net_send_def Let_def)
  define nt3 where "nt3 = reset_connection (nt2\<lparr>peer := (peer nt2)\<lparr>peer_alive := False\<rparr>\<rparr>)"
  have inv1: "net_inv nt1" using assms(4-6) by (simp add: nt1_def handle_pfd_def drop_conn_def close_fd_def Let_def net_inv_def)
  have nt3: "net_inv nt3" "\<not> peer_alive (peer nt3)" "sent nt3 = sent nt2"
    using s inv1 by (auto simp: nt3_def net_send_def reset_connection_def close_fd_def Let_def net_inv_def split: option.split)
  have "send_replication_message w ev nt1 = (if n \<le> 0 then reconnect_to_peer w nt3 else nt2)"
    using assms(1-3) nt1(2) s by (simp add: send_replication_message_def nt3_def)
  then have "(fd, oe_msg ev, n) \<in> set (sent (send_replication_message w ev nt1))"
    using sent2 nt3(3) reconnect_to_peer_cases[OF nt3(1,2), of w] by (simp add: Let_def)
  then show ?thesis
    using nt1 assms(1,2) by (auto simp: reset_connection_def close_fd_def Let_def simp flip: nt1_def)
qed

theorem peer_eof_closes_twice_witness:
  "closed (reset_connection (handle_pfd (quiet_world\<lparr>recv_at := \<lambda>_. (-1, Message_default)\<rparr>) 3 7 (False, True)
     (NetThread_init\<lparr>peer := \<lparr>peer_alive = True, connection = Some 7\<rparr>\<rparr>))) = [7, 7]"
proof -
  let ?nt = "NetThread_init\<lparr>peer := \<lparr>peer_alive = True, connection = Some 7\<rparr>\<rparr>"
  let ?w = "quiet_world\<lparr>recv_at := \<lambda>_. (-1, Message_default)\<rparr>"
  have "net_inv ?nt" using net_ok_inv[OF NetThread_init_ok] by (simp add: net_inv_def)
  moreover have "closed ?nt = []" by (simp add: NetThread_init_def)
  ultimately show ?thesis
    using peer_eof_closes_twice[of ?nt 7 3 ?w Message_default] unfolding Let_def by (simp add: quiet_world_def)
qed

end
