(* ===== verification/Recovery.thy ===== *)
theory Recovery
  imports Coordinator_Loop Coordinator_Network Message_Codec Task_Lifecycle
begin

text \<open>
  How a backup that comes back catches up, across the components: the notice of the network
  thread makes the primary's scheduler push a snapshot, the snapshot crosses the wire, and
  the backup's scheduler replaces its task table.
\<close>

lemma length_umap_emplace: "length (umap_emplace k v m) \<le> Suc (length m)"
  by (simp add: umap_emplace_def split: option.split)

lemma length_fold_emplace:
  "length (fold (\<lambda>t. umap_emplace (f t) (g t)) ts m) \<le> length m + length ts"
proof (induction ts arbitrary: m)
  case (Cons t ts)
  have "length (fold (\<lambda>t. umap_emplace (f t) (g t)) (t # ts) m) \<le> length (umap_emplace (f t) (g t) m) + length ts"
    using Cons.IH by simp
  then show ?case using length_umap_emplace[of "f t" "g t" m] by simp
qed simp

lemma length_snapshot_recv: "length (snapshot_recv_tasks ts) \<le> length ts"
  using length_fold_emplace[of _ _ "map snd ts" "[]"] by (simp add: snapshot_recv_tasks_def)

text \<open>The snapshot message of a primary.\<close>

definition snapshot_message :: "Coordinator \<Rightarrow> Message" where
  "snapshot_message p = (Message_new SNAPSHOT)\<lparr>snapshot := \<lparr>snap_tasks = tasks p\<rparr>, epoch := current_epoch p + 1\<rparr>"

lemma peer_reconnected_snapshot:
  assumes "sched_inv p" and "is_primary p" and "\<not> out_full p"
  shows "\<exists>p'. handle_task env reconnect_event p = Some p' \<and> tasks p' = tasks p \<and>
    out_stream p' = out_stream p @ [rep_event (snapshot_message p)] \<and> current_epoch p' = current_epoch p + 1"
proof -
  define p1 where "p1 = p\<lparr>current_epoch := current_epoch p + 1\<rparr>"
  obtain ok p' where push: "try_push_outgoing env (rep_event (snapshot_message p)) p1 = (ok, p')" by fastforce
  have sh: "shared_inv (shared p1)" using sched_invD(3)[OF assms(1)] by (simp add: p1_def)
  have "\<not> out_full p1" using assms(3) by (simp add: p1_def out_full_def del: length_contents)
  then have ok: ok using try_push_outgoing_fails[OF sh] push by (cases ok) auto
  obtain sh' where "p' = p1\<lparr>shared := sh'\<rparr>" "out_stream p' = out_stream p1 @ [rep_event (snapshot_message p)]"
    using try_push_outgoing_eq[OF sh push] ok by auto
  moreover have "handle_task env reconnect_event p = Some p'"
    using push assms(2)
    by (simp add: handle_task_def reconnect_event_def process_peer_reconnected_def Let_def p1_def rep_event_def
        snapshot_message_def Message_new_def)
  ultimately show ?thesis by (auto simp: p1_def out_stream_def)
qed



end
