(* ===== verification/Rpc.thy ===== *)
theory Rpc
  imports Message Config
begin

text \<open>
  The connections of \<^verbatim>\<open>src/rpc\<close>: a client that connects to an address, and the server's end of
  an accepted connection. Both guard the functions of \<^verbatim>\<open>net_utils\<close> by the descriptor.

  The network is a parameter: \<open>Remote\<close> gives the result of the \<open>n\<close>-th call (a descriptor for
  a connect, a return code for a send, a return code and a message for a receive, with the
  codes \<open>Net\<close> derives: positive for success). Every operation returns its result, the
  connection and the list of calls made so far, from which a theorem can read what has
  happened on the wire and in which order. That a frame too short for its message fails an
  assertion and ends the process is a result of \<open>Net\<close> only; it is not among those of \<open>Remote\<close>.
\<close>

type_synonym address = "string \<times> u16"

datatype rpc_call =
    Connect address int
  | Send int Message int
  | Receive int Message int
  | Close int

record Remote =
  connect_result :: "nat \<Rightarrow> int"
  send_result_at :: "nat \<Rightarrow> int"
  receive_result :: "nat \<Rightarrow> int \<times> Message"

record Client =
  sock_fd :: int

definition Client_new :: Client where
  "Client_new = \<lparr>sock_fd = -1\<rparr>"

definition close_connection :: "Client \<Rightarrow> rpc_call list \<Rightarrow> Client \<times> rpc_call list" where
  "close_connection c calls =
     (if sock_fd c \<ge> 0 then (c\<lparr>sock_fd := -1\<rparr>, calls @ [Close (sock_fd c)]) else (c, calls))"

definition Client_connect :: "Remote \<Rightarrow> address \<Rightarrow> Client \<Rightarrow> rpc_call list \<Rightarrow> bool \<times> Client \<times> rpc_call list" where
  "Client_connect w addr c calls = (case close_connection c calls of (c, calls) \<Rightarrow> let
     fd = connect_result w (length calls)
   in (fd \<ge> 0, c\<lparr>sock_fd := fd\<rparr>, calls @ [Connect addr fd]))"

definition send_with_retry :: "Remote \<Rightarrow> Message \<Rightarrow> Client \<Rightarrow> rpc_call list \<Rightarrow> int \<times> rpc_call list" where
  "send_with_retry w msg c calls =
     (if sock_fd c < 0 then (-1, calls)
      else let n = send_result_at w (length calls) in (n, calls @ [Send (sock_fd c) msg n]))"

text \<open>The message object is overwritten only when something was received.\<close>

definition receive_with_retry ::
  "Remote \<Rightarrow> Message \<Rightarrow> Client \<Rightarrow> rpc_call list \<Rightarrow> int \<times> Message \<times> rpc_call list" where
  "receive_with_retry w old c calls =
     (if sock_fd c < 0 then (-1, old, calls)
      else case receive_result w (length calls) of (n, m) \<Rightarrow> let
        m = (if n > 0 then m else old)
      in (n, m, calls @ [Receive (sock_fd c) m n]))"

text \<open>The operations without retries; the program itself always uses the retrying ones.\<close>

definition Client_send :: "Remote \<Rightarrow> Message \<Rightarrow> Client \<Rightarrow> rpc_call list \<Rightarrow> int \<times> rpc_call list" where
  "Client_send w msg c calls =
     (if sock_fd c < 0 then (-1, calls)
      else let n = send_result_at w (length calls) in (n, calls @ [Send (sock_fd c) msg n]))"

definition Client_receive ::
  "Remote \<Rightarrow> Message \<Rightarrow> Client \<Rightarrow> rpc_call list \<Rightarrow> int \<times> Message \<times> rpc_call list" where
  "Client_receive w old c calls =
     (if sock_fd c < 0 then (-1, old, calls)
      else case receive_result w (length calls) of (n, m) \<Rightarrow> let
        m = (if n > 0 then m else old)
      in (n, m, calls @ [Receive (sock_fd c) m n]))"

text \<open>\<^verbatim>\<open>rpc::ServerConnection\<close> has the same operations on the descriptor it was given.\<close>

record ServerConnection =
  server_fd :: int

definition server_close :: "ServerConnection \<Rightarrow> rpc_call list \<Rightarrow> ServerConnection \<times> rpc_call list" where
  "server_close s calls =
     (if server_fd s \<ge> 0 then (s\<lparr>server_fd := -1\<rparr>, calls @ [Close (server_fd s)]) else (s, calls))"

definition server_send :: "Remote \<Rightarrow> Message \<Rightarrow> ServerConnection \<Rightarrow> rpc_call list \<Rightarrow> int \<times> rpc_call list" where
  "server_send w msg s calls =
     (if server_fd s < 0 then (-1, calls)
      else let n = send_result_at w (length calls) in (n, calls @ [Send (server_fd s) msg n]))"

definition server_receive ::
  "Remote \<Rightarrow> Message \<Rightarrow> ServerConnection \<Rightarrow> rpc_call list \<Rightarrow> int \<times> Message \<times> rpc_call list" where
  "server_receive w old s calls =
     (if server_fd s < 0 then (-1, old, calls)
      else case receive_result w (length calls) of (n, m) \<Rightarrow> let
        m = (if n > 0 then m else old)
      in (n, m, calls @ [Receive (server_fd s) m n]))"

subsection \<open>The contract of a connection\<close>

text \<open>
  What the program relies on, at either end: a closed connection makes no call and fails; an
  open one makes exactly one call per operation, on its own descriptor, and reports its
  result; closing closes the descriptor once.
\<close>

locale rpc_endpoint =
  fixes fd :: "'c \<Rightarrow> int"
    and send_op :: "Remote \<Rightarrow> Message \<Rightarrow> 'c \<Rightarrow> rpc_call list \<Rightarrow> int \<times> rpc_call list"
    and receive_op :: "Remote \<Rightarrow> Message \<Rightarrow> 'c \<Rightarrow> rpc_call list \<Rightarrow> int \<times> Message \<times> rpc_call list"
    and close_op :: "'c \<Rightarrow> rpc_call list \<Rightarrow> 'c \<times> rpc_call list"
  assumes send_closed: "fd c < 0 \<Longrightarrow> send_op w m c cs = (-1, cs)"
    and send_open: "0 \<le> fd c \<Longrightarrow> send_op w m c cs =
      (send_result_at w (length cs), cs @ [Send (fd c) m (send_result_at w (length cs))])"
    and receive_closed: "fd c < 0 \<Longrightarrow> receive_op w old c cs = (-1, old, cs)"
    and receive_open: "0 \<le> fd c \<Longrightarrow> receive_result w (length cs) = (n, m) \<Longrightarrow> receive_op w old c cs =
      (n, if 0 < n then m else old, cs @ [Receive (fd c) (if 0 < n then m else old) n])"
    and close_fd: "fd (fst (close_op c cs)) < 0"
    and close_once: "snd (close_op c cs) = cs @ (if 0 \<le> fd c then [Close (fd c)] else [])"
begin

lemma send_trace:
  assumes "send_op w m c cs = (n, cs')"
  shows "\<exists>ds. cs' = cs @ ds \<and> (ds = [] \<or> ds = [Send (fd c) m n]) \<and> (0 < n \<longrightarrow> ds = [Send (fd c) m n])"
  using assms send_closed[of c w m cs] send_open[of c w m cs] by (cases "fd c < 0") auto

lemma receive_trace:
  assumes "receive_op w old c cs = (n, m, cs')"
  shows "\<exists>ds. cs' = cs @ ds \<and> (ds = [] \<or> ds = [Receive (fd c) m n]) \<and> (n \<le> 0 \<longrightarrow> m = old) \<and>
    (0 < n \<longrightarrow> ds = [Receive (fd c) m n] \<and> receive_result w (length cs) = (n, m))"
proof (cases "fd c < 0")
  case True
  then show ?thesis using assms receive_closed[of c w old cs] by simp
next
  case False
  obtain k x where "receive_result w (length cs) = (k, x)" by fastforce
  then show ?thesis using assms receive_open[of c w cs k x old] False by (auto split: if_splits)
qed

lemma close_trace:
  assumes "close_op c cs = (c', cs')"
  shows "\<exists>ds. cs' = cs @ ds \<and> (ds = [] \<or> ds = [Close (fd c)]) \<and> fd c' < 0"
  using assms close_fd[of c cs] close_once[of c cs] by auto

text \<open>A closed connection stays silent: closing twice closes the descriptor once.\<close>

lemma close_idem:
  assumes "close_op c cs = (c', cs')" and "close_op c' cs' = (c'', cs'')"
  shows "cs'' = cs'"
  using assms close_fd[of c cs] close_once[of c' cs'] by simp

end

interpretation rpc: rpc_endpoint sock_fd send_with_retry receive_with_retry close_connection
  by unfold_locales
    (simp_all add: send_with_retry_def receive_with_retry_def close_connection_def Let_def)

interpretation rpc_once: rpc_endpoint sock_fd Client_send Client_receive close_connection
  by unfold_locales (simp_all add: Client_send_def Client_receive_def close_connection_def Let_def)

interpretation rpc_server: rpc_endpoint server_fd server_send server_receive server_close
  by unfold_locales (simp_all add: server_send_def server_receive_def server_close_def Let_def)

lemma connect_calls_trace:
  assumes "Client_connect w a c cs = (ok, c', cs')"
  shows "\<exists>ds. cs' = cs @ ds @ [Connect a (sock_fd c')] \<and> (ds = [] \<or> ds = [Close (sock_fd c)]) \<and> (ok \<longleftrightarrow> 0 \<le> sock_fd c')"
proof -
  obtain c1 cs1 where c: "close_connection c cs = (c1, cs1)" by fastforce
  then show ?thesis using rpc.close_trace[OF c] assms by (auto simp: Client_connect_def Let_def)
qed

end
