(* ===== verification/Router.thy ===== *)
theory Router
  imports Rpc
begin

text \<open>
  The router (\<^verbatim>\<open>src/router/router.cpp\<close>): one thread per client, which forwards each request to
  the active coordinator of a shard, fails over to the other one, and tries all shards in
  cyclic order up to three times.

  The \<^verbatim>\<open>active_target_\<close> of a shard is shared by all threads: \<open>Others\<close> gives what the other
  threads have stored there before the \<open>n\<close>-th call of this one.
\<close>

subsection \<open>Data\<close>

datatype ActiveTarget = PRIMARY | BACKUP

record Endpoint =
  ep_port :: u16
  ep_ip :: string

record RouterShardGroup =
  primary_ep :: Endpoint
  backup_ep :: Endpoint
  active_target :: ActiveTarget

definition RouterShardGroup_new :: "Endpoint \<Rightarrow> Endpoint \<Rightarrow> RouterShardGroup" where
  "RouterShardGroup_new p b = \<lparr>primary_ep = p, backup_ep = b, active_target = PRIMARY\<rparr>"

record ThreadShard =
  primary_conn :: Client
  backup_conn :: Client

definition ThreadShard_new :: ThreadShard where
  "ThreadShard_new = \<lparr>primary_conn = Client_new, backup_conn = Client_new\<rparr>"

definition close_connections :: "ThreadShard \<Rightarrow> rpc_call list \<Rightarrow> ThreadShard \<times> rpc_call list" where
  "close_connections ts calls =
     (case close_connection (primary_conn ts) calls of (p, calls) \<Rightarrow>
      case close_connection (backup_conn ts) calls of (b, calls) \<Rightarrow>
        (ts\<lparr>primary_conn := p, backup_conn := b\<rparr>, calls))"

type_synonym Others = "nat \<Rightarrow> nat \<Rightarrow> ActiveTarget option"

record RouterThread =
  shards :: "RouterShardGroup list"
  shard_connections :: "ThreadShard list"
  calls :: "rpc_call list"

definition ep_address :: "Endpoint \<Rightarrow> address" where
  "ep_address e = (ep_ip e, ep_port e)"

subsection \<open>One coordinator\<close>

definition try_connection ::
  "Remote \<Rightarrow> Client \<Rightarrow> Endpoint \<Rightarrow> Message \<Rightarrow> Message \<Rightarrow> rpc_call list \<Rightarrow> bool \<times> Client \<times> Message \<times> rpc_call list" where
  "try_connection w c endpoint request response cs = (let
     (up, c, cs) = (if sock_fd c < 0 then Client_connect w (ep_address endpoint) c cs else (True, c, cs))
   in if \<not> up then (False, c, response, cs)
   else let
     (n, cs) = send_with_retry w request c cs;
     (delivered, c, cs) =
       (if n \<le> 0 then (case Client_connect w (ep_address endpoint) c cs of (ok, c, cs) \<Rightarrow>
          if \<not> ok then (False, c, cs)
          else case send_with_retry w request c cs of (n, cs) \<Rightarrow> (n > 0, c, cs))
        else (True, c, cs))
   in if \<not> delivered then (case close_connection c cs of (c, cs) \<Rightarrow> (False, c, response, cs))
   else case receive_with_retry w response c cs of (n, response, cs) \<Rightarrow>
     if n \<le> 0 then (case close_connection c cs of (c, cs) \<Rightarrow> (False, c, response, cs))
     else (True, c, response, cs))"

subsection \<open>One shard\<close>

text \<open>The other threads' stores become visible.\<close>

definition interfere :: "Others \<Rightarrow> nat \<Rightarrow> RouterThread \<Rightarrow> RouterThread" where
  "interfere others idx rt = (case others (length (calls rt)) idx of
     None \<Rightarrow> rt
   | Some t \<Rightarrow> rt\<lparr>shards := (shards rt)[idx := (shards rt ! idx)\<lparr>active_target := t\<rparr>]\<rparr>)"

definition load_target :: "Others \<Rightarrow> nat \<Rightarrow> RouterThread \<Rightarrow> ActiveTarget \<times> RouterThread" where
  "load_target others idx rt = (let rt = interfere others idx rt in (active_target (shards rt ! idx), rt))"

definition compare_exchange :: "Others \<Rightarrow> nat \<Rightarrow> ActiveTarget \<Rightarrow> ActiveTarget \<Rightarrow> RouterThread \<Rightarrow> RouterThread" where
  "compare_exchange others idx expected desired rt = (let rt = interfere others idx rt
   in if active_target (shards rt ! idx) = expected
      then rt\<lparr>shards := (shards rt)[idx := (shards rt ! idx)\<lparr>active_target := desired\<rparr>]\<rparr> else rt)"

definition try_primary :: "Remote \<Rightarrow> nat \<Rightarrow> Message \<Rightarrow> Message \<Rightarrow> RouterThread \<Rightarrow> bool \<times> Message \<times> RouterThread" where
  "try_primary w idx request response rt =
     (case try_connection w (primary_conn (shard_connections rt ! idx)) (primary_ep (shards rt ! idx)) request response (calls rt) of
        (ok, c, response, cs) \<Rightarrow> (ok, response, rt\<lparr>shard_connections := (shard_connections rt)
          [idx := (shard_connections rt ! idx)\<lparr>primary_conn := c\<rparr>], calls := cs\<rparr>))"

definition try_backup :: "Remote \<Rightarrow> nat \<Rightarrow> Message \<Rightarrow> Message \<Rightarrow> RouterThread \<Rightarrow> bool \<times> Message \<times> RouterThread" where
  "try_backup w idx request response rt =
     (case try_connection w (backup_conn (shard_connections rt ! idx)) (backup_ep (shards rt ! idx)) request response (calls rt) of
        (ok, c, response, cs) \<Rightarrow> (ok, response, rt\<lparr>shard_connections := (shard_connections rt)
          [idx := (shard_connections rt ! idx)\<lparr>backup_conn := c\<rparr>], calls := cs\<rparr>))"

definition try_shard ::
  "Remote \<Rightarrow> Others \<Rightarrow> nat \<Rightarrow> Message \<Rightarrow> Message \<Rightarrow> RouterThread \<Rightarrow> bool \<times> Message \<times> RouterThread" where
  "try_shard w others idx request response rt = (case load_target others idx rt of
     (PRIMARY, rt) \<Rightarrow> (case try_primary w idx request response rt of (ok, response, rt) \<Rightarrow>
        if ok then (True, response, rt)
        else case try_backup w idx request response rt of (ok, response, rt) \<Rightarrow>
          if ok then (True, response, compare_exchange others idx PRIMARY BACKUP rt) else (False, response, rt))
   | (BACKUP, rt) \<Rightarrow> (case try_backup w idx request response rt of (ok, response, rt) \<Rightarrow>
        if ok then (True, response, rt)
        else case try_primary w idx request response rt of (ok, response, rt) \<Rightarrow>
          if ok then (True, response, compare_exchange others idx BACKUP PRIMARY rt) else (False, response, rt)))"

subsection \<open>All shards\<close>

primrec attempt_loop ::
  "Remote \<Rightarrow> Others \<Rightarrow> nat list \<Rightarrow> nat \<Rightarrow> Message \<Rightarrow> Message \<Rightarrow> RouterThread \<Rightarrow> bool \<times> Message \<times> RouterThread" where
  "attempt_loop w others [] routing_index request response rt = (False, response, rt)"
| "attempt_loop w others (attempt # rest) routing_index request response rt = (let
     idx = (routing_index + attempt) mod length (shards rt)
   in case try_shard w others idx request response rt of (sent, response, rt) \<Rightarrow>
     if sent then (True, response, rt) else attempt_loop w others rest routing_index request response rt)"

primrec retry_loop ::
  "Remote \<Rightarrow> Others \<Rightarrow> nat \<Rightarrow> nat \<Rightarrow> Message \<Rightarrow> Message \<Rightarrow> RouterThread \<Rightarrow> bool \<times> Message \<times> RouterThread" where
  "retry_loop w others 0 routing_index request response rt = (False, response, rt)"
| "retry_loop w others (Suc n) routing_index request response rt =
     (case attempt_loop w others [0..<length (shards rt)] routing_index request response rt of (sent, response, rt) \<Rightarrow>
        if sent then (True, response, rt) else retry_loop w others n routing_index request response rt)"

definition route_request ::
  "Remote \<Rightarrow> Others \<Rightarrow> nat \<Rightarrow> Message \<Rightarrow> RouterThread \<Rightarrow> bool \<times> Message \<times> RouterThread" where
  "route_request w others routing_index request rt =
     retry_loop w others (RETRY_SHARDS + 1) routing_index request Message_default rt"

definition fail_message :: "Message \<Rightarrow> Message" where
  "fail_message request = (let msg = Message_new RESULT
   in msg\<lparr>result := (result msg)\<lparr>rm_task_id := sm_task_id (submit request), rm_success := 0, rm_result := 0\<rparr>\<rparr>)"

text \<open>One round of the loop; \<open>None\<close> when the thread leaves it.\<close>

definition worker_round ::
  "Remote \<Rightarrow> Others \<Rightarrow> ServerConnection \<Rightarrow> nat \<Rightarrow> RouterThread \<Rightarrow> nat option \<times> RouterThread" where
  "worker_round w others server routing_index rt =
     (case server_receive w Message_default server (calls rt) of (n, request, cs) \<Rightarrow> let
        rt = rt\<lparr>calls := cs\<rparr>
      in if n \<le> 0 then (None, rt)
      else case route_request w others routing_index request rt of (sent, response, rt) \<Rightarrow>
        if \<not> sent then
          (case server_send w (fail_message request) server (calls rt) of (n, cs) \<Rightarrow>
             (if n \<le> 0 then None else Some routing_index, rt\<lparr>calls := cs\<rparr>))
        else let
          routing_index = (routing_index + 1) mod length (shards rt)
        in case server_send w response server (calls rt) of (n, cs) \<Rightarrow>
             (if n \<le> 0 then None else Some routing_index, rt\<lparr>calls := cs\<rparr>))"

primrec close_all :: "ThreadShard list \<Rightarrow> rpc_call list \<Rightarrow> rpc_call list" where
  "close_all [] cs = cs"
| "close_all (ts # tss) cs = close_all tss (snd (close_connections ts cs))"

text \<open>\<^verbatim>\<open>running_\<close> is seen true at most \<open>n\<close> times; \<open>start\<close> is the hash of the thread's id.\<close>

primrec worker_loop :: "Remote \<Rightarrow> Others \<Rightarrow> ServerConnection \<Rightarrow> nat \<Rightarrow> nat \<Rightarrow> RouterThread \<Rightarrow> RouterThread" where
  "worker_loop w others server 0 routing_index rt = rt"
| "worker_loop w others server (Suc n) routing_index rt =
     (case worker_round w others server routing_index rt of
        (None, rt) \<Rightarrow> rt
      | (Some routing_index, rt) \<Rightarrow> worker_loop w others server n routing_index rt)"

definition router_worker ::
  "Remote \<Rightarrow> Others \<Rightarrow> int \<Rightarrow> nat \<Rightarrow> nat \<Rightarrow> RouterShardGroup list \<Rightarrow> RouterThread option" where
  "router_worker w others fd start n groups = (if groups = [] then None else let
     server = \<lparr>server_fd = fd\<rparr>;
     rt = \<lparr>shards = groups, shard_connections = replicate (length groups) ThreadShard_new, calls = []\<rparr>;
     rt = worker_loop w others server n (start mod length groups) rt;
     cs = snd (server_close server (calls rt))
   in Some (rt\<lparr>calls := close_all (shard_connections rt) cs\<rparr>))"

subsection \<open>What a try leaves\<close>

fun got_answer :: "rpc_call \<Rightarrow> bool" where
  "got_answer (Receive fd m n) = (n > 0)"
| "got_answer _ = False"

text \<open>More calls were made, none of which brought an answer.\<close>

definition quiet :: "rpc_call list \<Rightarrow> rpc_call list \<Rightarrow> bool" where
  "quiet cs cs' \<longleftrightarrow> (\<exists>pre. cs' = cs @ pre \<and> (\<forall>c\<in>set pre. \<not> got_answer c))"

lemma quiet_refl [simp]: "quiet cs cs"
  by (simp add: quiet_def)

lemma quiet_trans [trans]: "quiet cs cs' \<Longrightarrow> quiet cs' cs'' \<Longrightarrow> quiet cs cs''"
  unfolding quiet_def by (metis Un_iff append_assoc set_append)

lemma quiet_snoc [simp]: "quiet cs (cs @ [c]) = (\<not> got_answer c)"
  by (simp add: quiet_def)

text \<open>The calls of a try: on success the last two are the delivery and the answer.\<close>

definition tried :: "Message \<Rightarrow> bool \<Rightarrow> int \<Rightarrow> Message \<Rightarrow> Message \<Rightarrow> rpc_call list \<Rightarrow> rpc_call list \<Rightarrow> bool" where
  "tried request ok fd old response cs cs' \<longleftrightarrow> (\<exists>mid. quiet cs mid \<and>
     (if ok then \<exists>k n. 0 < k \<and> 0 < n \<and> cs' = mid @ [Send fd request k, Receive fd response n]
      else cs' = mid \<and> response = old))"

lemma tried_fail: "tried request False fd old m cs cs' \<longleftrightarrow> quiet cs cs' \<and> m = old"
  by (auto simp: tried_def)

lemma tried_fail_trans:
  assumes "quiet cs cs1" and "tried request ok fd m m' cs1 cs2"
  shows "tried request ok fd m m' cs cs2"
  using assms quiet_trans unfolding tried_def by blast

lemma connect_calls:
  assumes "Client_connect w addr c cs = (ok, c', cs')"
  shows "ok = (sock_fd c' \<ge> 0)" "quiet cs cs'"
  using connect_calls_trace[OF assms] by (auto simp: quiet_def)

lemma close_calls:
  assumes "close_connection c cs = (c', cs')"
  shows "sock_fd c' < 0" "quiet cs cs'"
  using rpc.close_trace[OF assms] by auto

lemma send_calls:
  assumes "send_with_retry w m c cs = (n, cs')"
  shows "quiet cs cs'" "0 < n \<Longrightarrow> sock_fd c \<ge> 0 \<and> cs' = cs @ [Send (sock_fd c) m n]"
  using assms by (auto simp: send_with_retry_def Let_def split: if_splits)

lemma receive_calls:
  assumes "receive_with_retry w old c cs = (n, m, cs')" and "sock_fd c \<ge> 0"
  shows "cs' = cs @ [Receive (sock_fd c) m n]" "n \<le> 0 \<Longrightarrow> m = old"
  using assms by (auto simp: receive_with_retry_def Let_def split: if_splits prod.splits)

text \<open>The two halves of \<open>try_connection\<close>: get the request delivered, then wait for the answer.\<close>

definition deliver :: "Remote \<Rightarrow> Client \<Rightarrow> Endpoint \<Rightarrow> Message \<Rightarrow> rpc_call list \<Rightarrow> bool \<times> Client \<times> rpc_call list" where
  "deliver w c endpoint request cs = (case send_with_retry w request c cs of (n, cs) \<Rightarrow>
     if n \<le> 0 then (case Client_connect w (ep_address endpoint) c cs of (ok, c, cs) \<Rightarrow>
       if \<not> ok then (False, c, cs)
       else case send_with_retry w request c cs of (n, cs) \<Rightarrow> (n > 0, c, cs))
     else (True, c, cs))"

lemma deliver_calls:
  assumes "deliver w c endpoint request cs = (ok, c', cs')"
  shows "\<exists>mid. quiet cs mid \<and> (if ok then sock_fd c' \<ge> 0 \<and> (\<exists>k>0. cs' = mid @ [Send (sock_fd c') request k]) else cs' = mid)"
proof -
  obtain n cs1 where s1: "send_with_retry w request c cs = (n, cs1)" by fastforce
  show ?thesis
  proof (cases "n \<le> 0")
    case False
    then show ?thesis using assms s1 send_calls[OF s1] by (intro exI[of _ cs]) (auto simp: deliver_def)
  next
    case True
    obtain up c2 cs2 where s2: "Client_connect w (ep_address endpoint) c cs1 = (up, c2, cs2)" by (metis prod_cases3)
    obtain n3 cs3 where s3: "send_with_retry w request c2 cs2 = (n3, cs3)" by fastforce
    have q: "quiet cs cs2" "quiet cs cs3"
      using quiet_trans[OF send_calls(1)[OF s1] connect_calls(2)[OF s2]] quiet_trans[OF _ send_calls(1)[OF s3]] by blast+
    show ?thesis
    proof (cases "up \<and> n3 > 0")
      case True
      then show ?thesis
        using assms s1 s2 s3 \<open>n \<le> 0\<close> q(1) send_calls(2)[OF s3] by (intro exI[of _ cs2]) (auto simp: deliver_def)
    next
      case False
      then show ?thesis using assms s1 s2 s3 \<open>n \<le> 0\<close> q by (auto simp: deliver_def split: if_splits)
    qed
  qed
qed

lemma try_connection_eq:
  assumes "(if sock_fd c < 0 then Client_connect w (ep_address endpoint) c cs else (True, c, cs)) = (up, c1, cs1)"
    and "deliver w c1 endpoint request cs1 = (d, c2, cs2)" and "receive_with_retry w old c2 cs2 = (n, m, cs3)"
  shows "try_connection w c endpoint request old cs = (if \<not> up then (False, c1, old, cs1)
    else if \<not> d then (case close_connection c2 cs2 of (c, cs) \<Rightarrow> (False, c, old, cs))
    else if n \<le> 0 then (case close_connection c2 cs3 of (c, cs) \<Rightarrow> (False, c, m, cs)) else (True, c2, m, cs3))"
  using assms by (auto simp: try_connection_def deliver_def Let_def split: prod.splits if_splits)

lemma try_connection_calls:
  assumes "try_connection w c endpoint request old cs = (ok, c', m, cs')"
  shows "tried request ok (sock_fd c') old m cs cs' \<and> (ok \<longleftrightarrow> sock_fd c' \<ge> 0)"
proof -
  obtain up c1 cs1 where s1: "(if sock_fd c < 0 then Client_connect w (ep_address endpoint) c cs else (True, c, cs)) = (up, c1, cs1)"
    by (metis prod_cases3)
  have up: "quiet cs cs1" "up = (sock_fd c1 \<ge> 0)"
    using s1 connect_calls[of w "ep_address endpoint" c cs up c1 cs1] by (auto split: if_splits)
  obtain d c2 cs2 where s2: "deliver w c1 endpoint request cs1 = (d, c2, cs2)" by (metis prod_cases3)
  obtain n m3 cs3 where s3: "receive_with_retry w old c2 cs2 = (n, m3, cs3)" by (metis prod_cases3)
  note step = try_connection_eq[OF s1 s2 s3]
  obtain mid where mid: "quiet cs1 mid"
    "if d then sock_fd c2 \<ge> 0 \<and> (\<exists>k>0. cs2 = mid @ [Send (sock_fd c2) request k]) else cs2 = mid"
    using deliver_calls[OF s2] by blast
  have q: "quiet cs mid" by (rule quiet_trans[OF up(1) mid(1)])
  obtain c4 cs4 where s4: "close_connection c2 cs2 = (c4, cs4)" by fastforce
  obtain c5 cs5 where s5: "close_connection c2 cs3 = (c5, cs5)" by fastforce
  consider "\<not> up" | "up" "\<not> d" | "up" "d" "n \<le> 0" | "up" "d" "0 < n" by linarith
  then show ?thesis
  proof cases
    case 1
    then show ?thesis using assms step up by (auto simp: tried_fail)
  next
    case 2
    then have "quiet cs cs4" using mid(2) q quiet_trans[OF _ close_calls(2)[OF s4]] by simp
    then show ?thesis using assms step 2 s4 close_calls(1)[OF s4] by (auto simp: tried_fail)
  next
    case 3
    obtain k where k: "sock_fd c2 \<ge> 0" "cs2 = mid @ [Send (sock_fd c2) request k]" using mid(2) 3 by auto
    have "quiet mid cs2" using k by simp
    moreover have "quiet cs2 cs3" "m3 = old" using receive_calls[OF s3 k(1)] 3(3) by auto
    ultimately have "quiet cs cs5" using q close_calls(2)[OF s5] quiet_trans by blast
    then show ?thesis using assms step 3 s5 close_calls(1)[OF s5] \<open>m3 = old\<close> by (auto simp: tried_fail)
  next
    case 4
    obtain k where k: "sock_fd c2 \<ge> 0" "0 < k" "cs2 = mid @ [Send (sock_fd c2) request k]" using mid(2) 4 by auto
    have "cs3 = mid @ [Send (sock_fd c2) request k, Receive (sock_fd c2) m3 n]" using receive_calls[OF s3 k(1)] k(3) by simp
    then have "tried request True (sock_fd c2) old m3 cs cs3" using q k(2) 4(3) unfolding tried_def by auto
    then show ?thesis using assms step 4 k(1) by auto
  qed
qed

subsection \<open>Which calls are made\<close>

text \<open>
  Between a request and its answer the client's descriptor \<open>s\<close> is left alone: every call goes
  to a coordinator, and nothing but the request is sent.
\<close>

fun to_coordinator :: "int \<Rightarrow> Message \<Rightarrow> rpc_call \<Rightarrow> bool" where
  "to_coordinator s request (Send fd m n) = (fd \<noteq> s \<and> m = request)"
| "to_coordinator s request (Receive fd m n) = (fd \<noteq> s)"
| "to_coordinator s request (Close fd) = (fd \<noteq> s)"
| "to_coordinator s request (Connect a fd) = (fd \<noteq> s)"

definition kept_off :: "int \<Rightarrow> Message \<Rightarrow> rpc_call list \<Rightarrow> rpc_call list \<Rightarrow> bool" where
  "kept_off s request cs cs' \<longleftrightarrow> (\<exists>new. cs' = cs @ new \<and> (\<forall>c\<in>set new. to_coordinator s request c))"

lemma kept_off_refl [simp]: "kept_off s request cs cs"
  by (simp add: kept_off_def)

lemma kept_off_trans [trans]: "kept_off s request cs cs' \<Longrightarrow> kept_off s request cs' cs'' \<Longrightarrow> kept_off s request cs cs''"
  unfolding kept_off_def by (metis Un_iff append_assoc set_append)

lemma kept_off_snoc: "kept_off s request cs (cs @ [c]) = to_coordinator s request c"
  by (simp add: kept_off_def)

text \<open>A connection that was tried in vain: it could not be made, or the request was sent over it.\<close>

definition attempted :: "Message \<Rightarrow> Client \<Rightarrow> Endpoint \<Rightarrow> rpc_call list \<Rightarrow> bool" where
  "attempted request c endpoint new \<longleftrightarrow> (\<exists>fd<0. Connect (ep_address endpoint) fd \<in> set new) \<or>
     (\<exists>fd k. Send fd request k \<in> set new \<and> (fd = sock_fd c \<or> Connect (ep_address endpoint) fd \<in> set new))"

lemma attempted_mono: "attempted request c endpoint new \<Longrightarrow> set new \<subseteq> set new' \<Longrightarrow> attempted request c endpoint new'"
  unfolding attempted_def by blast

lemma connect_off:
  assumes "Client_connect w addr c cs = (ok, c', cs')" and "\<forall>n. connect_result w n \<noteq> s" and "sock_fd c \<noteq> s"
  shows "kept_off s request cs cs' \<and> sock_fd c' \<noteq> s"
  using assms by (auto simp: Client_connect_def close_connection_def kept_off_def Let_def split: if_splits)

lemma close_off:
  assumes "close_connection c cs = (c', cs')" and "0 \<le> s" and "sock_fd c \<noteq> s"
  shows "kept_off s request cs cs' \<and> sock_fd c' \<noteq> s"
  using assms by (auto simp: close_connection_def kept_off_def split: if_splits)

lemma send_off:
  assumes "send_with_retry w request c cs = (n, cs')" and "sock_fd c \<noteq> s"
  shows "kept_off s request cs cs'"
  using assms by (auto simp: send_with_retry_def kept_off_def Let_def split: if_splits)

lemma receive_off:
  assumes "receive_with_retry w old c cs = (n, m, cs')" and "sock_fd c \<noteq> s"
  shows "kept_off s request cs cs'"
  using assms by (auto simp: receive_with_retry_def kept_off_def Let_def split: if_splits prod.splits)

lemma deliver_off:
  assumes "deliver w c endpoint request cs = (ok, c', cs')" and "\<forall>n. connect_result w n \<noteq> s" and "sock_fd c \<noteq> s"
  shows "kept_off s request cs cs' \<and> sock_fd c' \<noteq> s"
proof -
  obtain n cs1 where s1: "send_with_retry w request c cs = (n, cs1)" by fastforce
  obtain up c2 cs2 where s2: "Client_connect w (ep_address endpoint) c cs1 = (up, c2, cs2)" by (metis prod_cases3)
  obtain n3 cs3 where s3: "send_with_retry w request c2 cs2 = (n3, cs3)" by fastforce
  have c2: "kept_off s request cs1 cs2" "sock_fd c2 \<noteq> s" using connect_off[OF s2 assms(2,3)] by blast+
  have "kept_off s request cs cs1" "kept_off s request cs cs2" "kept_off s request cs cs3"
    using send_off[OF s1 assms(3)] c2(1) send_off[OF s3 c2(2)] kept_off_trans by blast+
  then show ?thesis using assms(1,3) c2(2) s1 s2 s3 by (auto simp: deliver_def split: if_splits)
qed

lemma deliver_attempted:
  assumes "deliver w c endpoint request cs = (ok, c', cs')" and "0 \<le> sock_fd c"
  shows "\<exists>new k. cs' = cs @ Send (sock_fd c) request k # new"
  using assms by (auto simp: deliver_def send_with_retry_def Client_connect_def close_connection_def Let_def split: if_splits)

lemma try_connection_off:
  assumes "try_connection w c endpoint request old cs = (ok, c', m, cs')" and "\<forall>n. connect_result w n \<noteq> s"
    and "0 \<le> s" and "sock_fd c \<noteq> s"
  shows "kept_off s request cs cs' \<and> sock_fd c' \<noteq> s"
proof -
  obtain up c1 cs1 where s1: "(if sock_fd c < 0 then Client_connect w (ep_address endpoint) c cs else (True, c, cs)) = (up, c1, cs1)"
    by (metis prod_cases3)
  obtain d c2 cs2 where s2: "deliver w c1 endpoint request cs1 = (d, c2, cs2)" by (metis prod_cases3)
  obtain n m3 cs3 where s3: "receive_with_retry w old c2 cs2 = (n, m3, cs3)" by (metis prod_cases3)
  obtain c4 cs4 where s4: "close_connection c2 cs2 = (c4, cs4)" by fastforce
  obtain c5 cs5 where s5: "close_connection c2 cs3 = (c5, cs5)" by fastforce
  have 1: "kept_off s request cs cs1" "sock_fd c1 \<noteq> s"
    using s1 assms(4) connect_off[OF _ assms(2,4), of "ep_address endpoint" cs up c1 cs1] by (auto split: if_splits)
  have 2: "kept_off s request cs cs2" "sock_fd c2 \<noteq> s"
    using deliver_off[OF s2 assms(2) 1(2)] kept_off_trans[OF 1(1)] by blast+
  have 3: "kept_off s request cs cs3" by (rule kept_off_trans[OF 2(1) receive_off[OF s3 2(2)]])
  have "kept_off s request cs cs4 \<and> sock_fd c4 \<noteq> s" "kept_off s request cs cs5 \<and> sock_fd c5 \<noteq> s"
    using close_off[OF s4 assms(3) 2(2)] close_off[OF s5 assms(3) 2(2)] kept_off_trans 2(1) 3 by blast+
  then show ?thesis using assms(1) try_connection_eq[OF s1 s2 s3] s4 s5 1 2 3 by (auto split: if_splits)
qed

lemma try_connection_attempted:
  assumes "try_connection w c endpoint request old cs = (False, c', m, cs')"
  shows "\<exists>new. cs' = cs @ new \<and> attempted request c endpoint new"
proof -
  obtain up c1 cs1 where s1: "(if sock_fd c < 0 then Client_connect w (ep_address endpoint) c cs else (True, c, cs)) = (up, c1, cs1)"
    by (metis prod_cases3)
  obtain d c2 cs2 where s2: "deliver w c1 endpoint request cs1 = (d, c2, cs2)" by (metis prod_cases3)
  obtain n m3 cs3 where s3: "receive_with_retry w old c2 cs2 = (n, m3, cs3)" by (metis prod_cases3)
  note eq = try_connection_eq[OF s1 s2 s3]
  have c1: "cs1 = cs \<and> c1 = c \<and> up \<or> cs1 = cs @ [Connect (ep_address endpoint) (sock_fd c1)] \<and> up = (0 \<le> sock_fd c1)" "up \<longrightarrow> 0 \<le> sock_fd c1"
    using s1 by (auto simp: Client_connect_def close_connection_def Let_def split: if_splits)
  show ?thesis
  proof (cases up)
    case False
    then show ?thesis using c1 eq assms by (auto simp: attempted_def)
  next
    case True
    then obtain new k where new: "cs2 = cs1 @ Send (sock_fd c1) request k # new" using deliver_attempted[OF s2] c1(2) by blast
    obtain es where es: "cs' = cs2 @ es"
      using assms eq True s3 by (auto simp: close_connection_def receive_with_retry_def Let_def split: if_splits prod.splits)
    obtain pre where pre: "cs1 = cs @ pre" "sock_fd c1 = sock_fd c \<or> Connect (ep_address endpoint) (sock_fd c1) \<in> set pre"
      using c1(1) by auto
    have "attempted request c endpoint (pre @ Send (sock_fd c1) request k # new @ es)"
      unfolding attempted_def using pre(2) by (intro disjI2 exI[of _ "sock_fd c1"] exI[of _ k]) auto
    then show ?thesis using new es pre(1) by (intro exI[of _ "pre @ Send (sock_fd c1) request k # new @ es"]) simp
  qed
qed

subsection \<open>What routing leaves\<close>

definition conn_of :: "ActiveTarget \<Rightarrow> ThreadShard \<Rightarrow> Client" where
  "conn_of t ts = (case t of PRIMARY \<Rightarrow> primary_conn ts | BACKUP \<Rightarrow> backup_conn ts)"

definition router_ok :: "RouterThread \<Rightarrow> bool" where
  "router_ok rt \<longleftrightarrow> shards rt \<noteq> [] \<and> length (shard_connections rt) = length (shards rt)"

lemma interfere_simps [simp]:
  "calls (interfere others idx rt) = calls rt" "shard_connections (interfere others idx rt) = shard_connections rt"
  "length (shards (interfere others idx rt)) = length (shards rt)"
  "shards (interfere others idx rt) = [] \<longleftrightarrow> shards rt = []"
  by (simp_all add: interfere_def split: option.split)

lemma interfere_none: "others (length (calls rt)) idx = None \<Longrightarrow> interfere others idx rt = rt"
  by (simp add: interfere_def)

lemma try_primary_calls:
  assumes "try_primary w idx request old rt = (ok, m, rt')" and "idx < length (shard_connections rt)"
  shows "tried request ok (sock_fd (primary_conn (shard_connections rt' ! idx))) old m (calls rt) (calls rt') \<and>
    shards rt' = shards rt \<and> length (shard_connections rt') = length (shard_connections rt) \<and>
    (if ok then 0 \<le> sock_fd (primary_conn (shard_connections rt' ! idx)) else sock_fd (primary_conn (shard_connections rt' ! idx)) < 0) \<and>
    backup_conn (shard_connections rt' ! idx) = backup_conn (shard_connections rt ! idx)"
proof -
  obtain ok1 c m1 cs where t: "try_connection w (primary_conn (shard_connections rt ! idx)) (primary_ep (shards rt ! idx))
      request old (calls rt) = (ok1, c, m1, cs)" by (metis prod_cases4)
  show ?thesis using assms t try_connection_calls[OF t] by (auto simp: try_primary_def)
qed

lemma try_backup_calls:
  assumes "try_backup w idx request old rt = (ok, m, rt')" and "idx < length (shard_connections rt)"
  shows "tried request ok (sock_fd (backup_conn (shard_connections rt' ! idx))) old m (calls rt) (calls rt') \<and>
    shards rt' = shards rt \<and> length (shard_connections rt') = length (shard_connections rt) \<and>
    (if ok then 0 \<le> sock_fd (backup_conn (shard_connections rt' ! idx)) else sock_fd (backup_conn (shard_connections rt' ! idx)) < 0) \<and>
    primary_conn (shard_connections rt' ! idx) = primary_conn (shard_connections rt ! idx)"
proof -
  obtain ok1 c m1 cs where t: "try_connection w (backup_conn (shard_connections rt ! idx)) (backup_ep (shards rt ! idx))
      request old (calls rt) = (ok1, c, m1, cs)" by (metis prod_cases4)
  show ?thesis using assms t try_connection_calls[OF t] by (auto simp: try_backup_def)
qed

lemma compare_exchange_simps [simp]:
  "calls (compare_exchange others idx a b rt) = calls rt"
  "shard_connections (compare_exchange others idx a b rt) = shard_connections rt"
  "length (shards (compare_exchange others idx a b rt)) = length (shards rt)"
  "shards (compare_exchange others idx a b rt) = [] \<longleftrightarrow> shards rt = []"
  by (simp_all add: compare_exchange_def Let_def)

lemma compare_exchange_sets:
  assumes "\<forall>n. others n idx = None" and "active_target (shards rt ! idx) = a" and "idx < length (shards rt)"
  shows "active_target (shards (compare_exchange others idx a b rt) ! idx) = b"
  using assms by (simp add: compare_exchange_def interfere_none Let_def)

text \<open>
  A try of a shard: the answer came over the connection to one of its coordinators, and that
  one is the active target afterwards when no other thread interferes.
\<close>

definition shard_tried :: "Others \<Rightarrow> nat \<Rightarrow> Message \<Rightarrow> bool \<Rightarrow> Message \<Rightarrow> Message \<Rightarrow> RouterThread \<Rightarrow> RouterThread \<Rightarrow> bool" where
  "shard_tried others idx request ok old m rt rt' \<longleftrightarrow> router_ok rt' \<and> length (shards rt') = length (shards rt) \<and>
     (\<exists>t. tried request ok (sock_fd (conn_of t (shard_connections rt' ! idx))) old m (calls rt) (calls rt') \<and>
        (ok \<longrightarrow> 0 \<le> sock_fd (conn_of t (shard_connections rt' ! idx))) \<and>
        (ok \<and> (\<forall>n. others n idx = None) \<longrightarrow> active_target (shards rt' ! idx) = t)) \<and>
     (\<not> ok \<longrightarrow> sock_fd (primary_conn (shard_connections rt' ! idx)) < 0 \<and>
        sock_fd (backup_conn (shard_connections rt' ! idx)) < 0 \<and>
        ((\<forall>n. others n idx = None) \<longrightarrow> active_target (shards rt' ! idx) = active_target (shards rt ! idx)))"

lemma try_shard_calls:
  assumes ok: "router_ok rt" and idx: "idx < length (shards rt)"
    and t: "try_shard w others idx request old rt = (sent, m, rt')"
  shows "shard_tried others idx request sent old m rt rt'"
proof -
  define rt0 where "rt0 = interfere others idx rt"
  have rt0: "router_ok rt0" "idx < length (shard_connections rt0)" "calls rt0 = calls rt" "length (shards rt0) = length (shards rt)"
    using ok idx by (auto simp: rt0_def router_ok_def)
  have same: "active_target (shards rt0 ! idx) = active_target (shards rt ! idx)" if "\<forall>n. others n idx = None"
    using that by (simp add: rt0_def interfere_none)
  show ?thesis
  proof (cases "active_target (shards rt0 ! idx)")
    case PRIMARY
    obtain ok1 m1 rt1 where t1: "try_primary w idx request old rt0 = (ok1, m1, rt1)" by (metis prod_cases3)
    note c1 = try_primary_calls[OF t1 rt0(2)]
    obtain ok2 m2 rt2 where t2: "try_backup w idx request m1 rt1 = (ok2, m2, rt2)" by (metis prod_cases3)
    have c2: "tried request ok2 (sock_fd (backup_conn (shard_connections rt2 ! idx))) m1 m2 (calls rt1) (calls rt2) \<and>
      shards rt2 = shards rt1 \<and> length (shard_connections rt2) = length (shard_connections rt1) \<and>
      (if ok2 then 0 \<le> sock_fd (backup_conn (shard_connections rt2 ! idx)) else sock_fd (backup_conn (shard_connections rt2 ! idx)) < 0) \<and>
      primary_conn (shard_connections rt2 ! idx) = primary_conn (shard_connections rt1 ! idx)"
      using try_backup_calls[OF t2] c1 rt0(2) by simp
    have eq: "try_shard w others idx request old rt = (if ok1 then (True, m1, rt1)
        else if ok2 then (True, m2, compare_exchange others idx PRIMARY BACKUP rt2) else (False, m2, rt2))"
      using PRIMARY t1 t2 by (simp add: try_shard_def load_target_def Let_def flip: rt0_def)
    show ?thesis
    proof (cases ok1)
      case True
      then show ?thesis
        using eq t c1 rt0 PRIMARY unfolding shard_tried_def
        by (auto simp: router_ok_def conn_of_def intro!: exI[of _ PRIMARY])
    next
      case False
      then have tr: "tried request ok2 (sock_fd (backup_conn (shard_connections rt2 ! idx))) old m2 (calls rt) (calls rt2)"
        using c1 c2 rt0(3) tried_fail_trans by (auto simp: tried_fail)
      have "active_target (shards (compare_exchange others idx PRIMARY BACKUP rt2) ! idx) = BACKUP" if "\<forall>n. others n idx = None"
        using compare_exchange_sets[of others idx rt2 PRIMARY BACKUP, OF that] PRIMARY c1 c2 idx rt0(4) by simp
      then show ?thesis
        using eq t False tr c1 c2 rt0 same unfolding shard_tried_def
        by (cases ok2) (auto simp: router_ok_def conn_of_def intro!: exI[of _ BACKUP])
    qed
  next
    case BACKUP
    obtain ok1 m1 rt1 where t1: "try_backup w idx request old rt0 = (ok1, m1, rt1)" by (metis prod_cases3)
    note c1 = try_backup_calls[OF t1 rt0(2)]
    obtain ok2 m2 rt2 where t2: "try_primary w idx request m1 rt1 = (ok2, m2, rt2)" by (metis prod_cases3)
    have c2: "tried request ok2 (sock_fd (primary_conn (shard_connections rt2 ! idx))) m1 m2 (calls rt1) (calls rt2) \<and>
      shards rt2 = shards rt1 \<and> length (shard_connections rt2) = length (shard_connections rt1) \<and>
      (if ok2 then 0 \<le> sock_fd (primary_conn (shard_connections rt2 ! idx)) else sock_fd (primary_conn (shard_connections rt2 ! idx)) < 0) \<and>
      backup_conn (shard_connections rt2 ! idx) = backup_conn (shard_connections rt1 ! idx)"
      using try_primary_calls[OF t2] c1 rt0(2) by simp
    have eq: "try_shard w others idx request old rt = (if ok1 then (True, m1, rt1)
        else if ok2 then (True, m2, compare_exchange others idx BACKUP PRIMARY rt2) else (False, m2, rt2))"
      using BACKUP t1 t2 by (simp add: try_shard_def load_target_def Let_def flip: rt0_def)
    show ?thesis
    proof (cases ok1)
      case True
      then show ?thesis
        using eq t c1 rt0 BACKUP unfolding shard_tried_def
        by (auto simp: router_ok_def conn_of_def intro!: exI[of _ BACKUP])
    next
      case False
      then have tr: "tried request ok2 (sock_fd (primary_conn (shard_connections rt2 ! idx))) old m2 (calls rt) (calls rt2)"
        using c1 c2 rt0(3) tried_fail_trans by (auto simp: tried_fail)
      have "active_target (shards (compare_exchange others idx BACKUP PRIMARY rt2) ! idx) = PRIMARY" if "\<forall>n. others n idx = None"
        using compare_exchange_sets[of others idx rt2 BACKUP PRIMARY, OF that] BACKUP c1 c2 idx rt0(4) by simp
      then show ?thesis
        using eq t False tr c1 c2 rt0 same unfolding shard_tried_def
        by (cases ok2) (auto simp: router_ok_def conn_of_def intro!: exI[of _ PRIMARY])
    qed
  qed
qed

lemma shard_tried_fail:
  "shard_tried others idx request False old m rt rt' \<Longrightarrow> router_ok rt' \<and> length (shards rt') = length (shards rt) \<and>
     quiet (calls rt) (calls rt') \<and> m = old"
  by (auto simp: shard_tried_def tried_fail)

text \<open>The outcome of trying several shards: none, or one of them, answered.\<close>

definition routed_to :: "Message \<Rightarrow> bool \<Rightarrow> Message \<Rightarrow> Message \<Rightarrow> RouterThread \<Rightarrow> RouterThread \<Rightarrow> bool" where
  "routed_to request ok old m rt rt' \<longleftrightarrow> router_ok rt' \<and> length (shards rt') = length (shards rt) \<and>
     (\<exists>idx<length (shards rt). \<exists>t. tried request ok (sock_fd (conn_of t (shard_connections rt' ! idx))) old m (calls rt) (calls rt'))"

lemma shard_tried_routed:
  assumes "shard_tried others idx request ok old m rt rt'" and "idx < length (shards rt)"
  shows "routed_to request ok old m rt rt'"
  using assms unfolding shard_tried_def routed_to_def by blast

lemma routed_failD:
  assumes "routed_to request False old m rt rt'"
  shows "router_ok rt'" "length (shards rt') = length (shards rt)" "quiet (calls rt) (calls rt')" "m = old"
  using assms by (auto simp: routed_to_def tried_fail)

lemma routed_refl: "router_ok rt \<Longrightarrow> routed_to request False m m rt rt"
  by (auto simp: routed_to_def tried_fail router_ok_def intro!: exI[of _ 0])

lemma routed_trans:
  assumes "routed_to request False old m rt rt1" and "routed_to request ok m m' rt1 rt2"
  shows "routed_to request ok old m' rt rt2"
proof -
  note f = routed_failD[OF assms(1)]
  obtain idx t where "idx < length (shards rt1)" "router_ok rt2" "length (shards rt2) = length (shards rt1)"
    "tried request ok (sock_fd (conn_of t (shard_connections rt2 ! idx))) m m' (calls rt1) (calls rt2)"
    using assms(2) unfolding routed_to_def by blast
  then show ?thesis
    using f(2) tried_fail_trans[OF f(3)] unfolding routed_to_def f(4) by metis
qed

lemma attempt_loop_routed:
  assumes "router_ok rt" and "attempt_loop w others as ri request old rt = (sent, m, rt')"
  shows "routed_to request sent old m rt rt'"
  using assms
proof (induction as arbitrary: rt old)
  case Nil
  then show ?case using routed_refl by auto
next
  case (Cons a as)
  define idx where "idx = (ri + a) mod length (shards rt)"
  have idx: "idx < length (shards rt)" using Cons.prems(1) by (simp add: idx_def router_ok_def)
  obtain ok m1 rt1 where t: "try_shard w others idx request old rt = (ok, m1, rt1)" by (metis prod_cases3)
  have r1: "routed_to request ok old m1 rt rt1"
    by (rule shard_tried_routed[OF try_shard_calls[OF Cons.prems(1) idx t] idx])
  show ?case
  proof (cases ok)
    case True
    then show ?thesis using Cons.prems(2) t r1 by (simp add: Let_def flip: idx_def)
  next
    case False
    then have "attempt_loop w others as ri request m1 rt1 = (sent, m, rt')" using Cons.prems(2) t by (simp add: Let_def flip: idx_def)
    moreover have r1': "routed_to request False old m1 rt rt1" using r1 False by simp
    ultimately have "routed_to request sent m1 m rt1 rt'" using Cons.IH routed_failD(1) by blast
    then show ?thesis by (rule routed_trans[OF r1'])
  qed
qed

lemma retry_loop_routed:
  assumes "router_ok rt" and "retry_loop w others n ri request old rt = (sent, m, rt')"
  shows "routed_to request sent old m rt rt'"
  using assms
proof (induction n arbitrary: rt old)
  case 0
  then show ?case using routed_refl by auto
next
  case (Suc n)
  obtain ok m1 rt1 where t: "attempt_loop w others [0..<length (shards rt)] ri request old rt = (ok, m1, rt1)" by (metis prod_cases3)
  note r1 = attempt_loop_routed[OF Suc.prems(1) t]
  show ?case
  proof (cases ok)
    case True
    then show ?thesis using Suc.prems(2) t r1 by simp
  next
    case False
    then have "retry_loop w others n ri request m1 rt1 = (sent, m, rt')" using Suc.prems(2) t by simp
    moreover have r1': "routed_to request False old m1 rt rt1" using r1 False by simp
    ultimately have "routed_to request sent m1 m rt1 rt'" using Suc.IH routed_failD(1) by blast
    then show ?thesis by (rule routed_trans[OF r1'])
  qed
qed

subsection \<open>The client's descriptor\<close>

text \<open>No connection to a coordinator uses the client's descriptor.\<close>

definition apart :: "int \<Rightarrow> RouterThread \<Rightarrow> bool" where
  "apart s rt \<longleftrightarrow> 0 \<le> s \<and> (\<forall>ts\<in>set (shard_connections rt). sock_fd (primary_conn ts) \<noteq> s \<and> sock_fd (backup_conn ts) \<noteq> s)"

definition off_client :: "int \<Rightarrow> Message \<Rightarrow> RouterThread \<Rightarrow> RouterThread \<Rightarrow> bool" where
  "off_client s request rt rt' \<longleftrightarrow> kept_off s request (calls rt) (calls rt') \<and> apart s rt' \<and>
     length (shard_connections rt') = length (shard_connections rt) \<and> length (shards rt') = length (shards rt)"

lemma off_client_refl: "apart s rt \<Longrightarrow> off_client s request rt rt"
  by (simp add: off_client_def)

lemma off_client_trans: "off_client s request rt rt1 \<Longrightarrow> off_client s request rt1 rt2 \<Longrightarrow> off_client s request rt rt2"
  unfolding off_client_def using kept_off_trans by metis

lemma apart_update:
  assumes "apart s rt" and "sock_fd (primary_conn ts) \<noteq> s" and "sock_fd (backup_conn ts) \<noteq> s"
  shows "apart s (rt\<lparr>shard_connections := (shard_connections rt)[idx := ts], calls := cs\<rparr>)"
  using assms set_update_subset_insert[of "shard_connections rt" idx ts] by (auto simp: apart_def)

lemma try_primary_off:
  assumes "try_primary w idx request old rt = (ok, m, rt')" and "apart s rt" and "idx < length (shard_connections rt)"
    and "\<forall>n. connect_result w n \<noteq> s"
  shows "off_client s request rt rt'"
proof -
  obtain ok1 c m1 cs where t: "try_connection w (primary_conn (shard_connections rt ! idx)) (primary_ep (shards rt ! idx))
      request old (calls rt) = (ok1, c, m1, cs)" by (metis prod_cases4)
  have fd: "0 \<le> s" "sock_fd (primary_conn (shard_connections rt ! idx)) \<noteq> s" "sock_fd (backup_conn (shard_connections rt ! idx)) \<noteq> s"
    using assms(2,3) by (simp_all add: apart_def)
  show ?thesis
    using assms(1) t try_connection_off[OF t assms(4) fd(1,2)] fd(3) apart_update[OF assms(2)]
    by (auto simp: try_primary_def off_client_def)
qed

lemma try_backup_off:
  assumes "try_backup w idx request old rt = (ok, m, rt')" and "apart s rt" and "idx < length (shard_connections rt)"
    and "\<forall>n. connect_result w n \<noteq> s"
  shows "off_client s request rt rt'"
proof -
  obtain ok1 c m1 cs where t: "try_connection w (backup_conn (shard_connections rt ! idx)) (backup_ep (shards rt ! idx))
      request old (calls rt) = (ok1, c, m1, cs)" by (metis prod_cases4)
  have fd: "0 \<le> s" "sock_fd (primary_conn (shard_connections rt ! idx)) \<noteq> s" "sock_fd (backup_conn (shard_connections rt ! idx)) \<noteq> s"
    using assms(2,3) by (simp_all add: apart_def)
  show ?thesis
    using assms(1) t try_connection_off[OF t assms(4) fd(1,3)] fd(2) apart_update[OF assms(2)]
    by (auto simp: try_backup_def off_client_def)
qed

lemma apart_targets [simp]:
  "apart s (interfere others idx rt) = apart s rt" "apart s (compare_exchange others idx a b rt) = apart s rt"
  by (simp_all add: apart_def)

lemma try_shard_off:
  assumes t: "try_shard w others idx request old rt = (sent, m, rt')" and "apart s rt" and idx: "idx < length (shard_connections rt)"
    and w: "\<forall>n. connect_result w n \<noteq> s"
  shows "off_client s request rt rt'"
proof -
  define rt0 where "rt0 = interfere others idx rt"
  have rt0: "apart s rt0" "idx < length (shard_connections rt0)" "off_client s request rt rt0"
    using assms(2) idx by (simp_all add: rt0_def off_client_def)
  have swap: "off_client s request rt (compare_exchange others idx a b rt1)" if "off_client s request rt rt1" for a b rt1
    using that by (simp add: off_client_def)
  obtain ok1 m1 rt1 where p1: "try_primary w idx request old rt0 = (ok1, m1, rt1)" by (metis prod_cases3)
  obtain ok2 m2 rt2 where p2: "try_backup w idx request m1 rt1 = (ok2, m2, rt2)" by (metis prod_cases3)
  obtain ok3 m3 rt3 where b1: "try_backup w idx request old rt0 = (ok3, m3, rt3)" by (metis prod_cases3)
  obtain ok4 m4 rt4 where b2: "try_primary w idx request m3 rt3 = (ok4, m4, rt4)" by (metis prod_cases3)
  have 1: "off_client s request rt rt1" using off_client_trans[OF rt0(3) try_primary_off[OF p1 rt0(1,2) w]] .
  have 3: "off_client s request rt rt3" using off_client_trans[OF rt0(3) try_backup_off[OF b1 rt0(1,2) w]] .
  have "off_client s request rt1 rt2"
    by (rule try_backup_off[OF p2 _ _ w]) (use 1 idx in \<open>auto simp: off_client_def\<close>)
  then have 2: "off_client s request rt rt2" by (rule off_client_trans[OF 1])
  have "off_client s request rt3 rt4"
    by (rule try_primary_off[OF b2 _ _ w]) (use 3 idx in \<open>auto simp: off_client_def\<close>)
  then have 4: "off_client s request rt rt4" by (rule off_client_trans[OF 3])
  show ?thesis
    using t p1 p2 b1 b2 1 2 3 4 swap
    by (cases "active_target (shards rt0 ! idx)")
      (auto simp: try_shard_def load_target_def Let_def simp flip: rt0_def split: if_splits)
qed

lemma attempt_loop_off:
  assumes "attempt_loop w others as ri request old rt = (sent, m, rt')" and "apart s rt" and "router_ok rt"
    and "\<forall>n. connect_result w n \<noteq> s"
  shows "off_client s request rt rt'"
  using assms(1-3)
proof (induction as arbitrary: rt old)
  case Nil
  then show ?case by (simp add: off_client_refl)
next
  case (Cons a as)
  define idx where "idx = (ri + a) mod length (shards rt)"
  have idx: "idx < length (shard_connections rt)" using Cons.prems(3) by (simp add: idx_def router_ok_def)
  obtain ok m1 rt1 where t: "try_shard w others idx request old rt = (ok, m1, rt1)" by (metis prod_cases3)
  have o: "off_client s request rt rt1" by (rule try_shard_off[OF t Cons.prems(2) idx assms(4)])
  have "router_ok rt1" "apart s rt1" using o Cons.prems(3) by (auto simp: off_client_def router_ok_def)
  then show ?case
    using Cons.IH[of m1 rt1] Cons.prems(1) t o off_client_trans[OF o]
    by (auto simp: Let_def simp flip: idx_def split: if_splits)
qed

lemma retry_loop_off:
  assumes "retry_loop w others n ri request old rt = (sent, m, rt')" and "apart s rt" and "router_ok rt"
    and "\<forall>n. connect_result w n \<noteq> s"
  shows "off_client s request rt rt'"
  using assms(1-3)
proof (induction n arbitrary: rt old)
  case 0
  then show ?case by (simp add: off_client_refl)
next
  case (Suc n)
  obtain ok m1 rt1 where t: "attempt_loop w others [0..<length (shards rt)] ri request old rt = (ok, m1, rt1)" by (metis prod_cases3)
  have o: "off_client s request rt rt1" by (rule attempt_loop_off[OF t Suc.prems(2,3) assms(4)])
  have "router_ok rt1" "apart s rt1" using o Suc.prems(3) by (auto simp: off_client_def router_ok_def)
  then show ?case
    using Suc.IH[of m1 rt1] Suc.prems(1) t o off_client_trans[OF o] by (auto split: if_splits)
qed

text \<open>A shard that did not answer was tried on both sides.\<close>

lemma try_shard_attempted:
  assumes "try_shard w others idx request old rt = (False, m, rt')" and "\<forall>n. others n idx = None"
    and "idx < length (shard_connections rt)"
  shows "\<exists>new. calls rt' = calls rt @ new \<and>
    attempted request (primary_conn (shard_connections rt ! idx)) (primary_ep (shards rt ! idx)) new \<and>
    attempted request (backup_conn (shard_connections rt ! idx)) (backup_ep (shards rt ! idx)) new"
proof -
  have both: ?thesis
    if a: "try_connection w c e request old (calls rt) = (False, c1, m1, cs1)"
      and b: "try_connection w c' e' request m1 cs1 = (False, c2, m2, cs2)" and "calls rt' = cs2"
      and "{(c, e), (c', e')} = {(primary_conn (shard_connections rt ! idx), primary_ep (shards rt ! idx)),
        (backup_conn (shard_connections rt ! idx), backup_ep (shards rt ! idx))}" for c e c1 m1 cs1 c' e' c2 m2 cs2
  proof -
    obtain new1 new2 where n: "cs1 = calls rt @ new1" "attempted request c e new1" "cs2 = cs1 @ new2" "attempted request c' e' new2"
      using try_connection_attempted[OF a] try_connection_attempted[OF b] by blast
    then have "attempted request c e (new1 @ new2)" "attempted request c' e' (new1 @ new2)"
      by (auto intro: attempted_mono)
    then show ?thesis using n(1,3) that(3,4) by (intro exI[of _ "new1 @ new2"]) (auto simp: doubleton_eq_iff)
  qed
  have i: "interfere others idx rt = rt" using assms(2) by (simp add: interfere_none)
  show ?thesis
  proof (cases "active_target (shards rt ! idx)")
    case PRIMARY
    then show ?thesis
      using assms(1,3) i both
      by (fastforce simp: try_shard_def load_target_def try_primary_def try_backup_def Let_def split: prod.splits if_splits)
  next
    case BACKUP
    then show ?thesis
      using assms(1,3) i both
      by (fastforce simp: try_shard_def load_target_def try_primary_def try_backup_def Let_def split: prod.splits if_splits)
  qed
qed

subsection \<open>Properties\<close>

text \<open>C10:
  The router answers every request exactly once. A round that receives a request from the
  client leaves the client's descriptor alone until its last call, which sends that client one
  message; everything sent before is the request, to coordinators. The message is
  what was received next on a connection over which that very request had just been sent (the
  router does not look into it), or, when no coordinator of any shard has answered anything, the failure
  result with the request's task id. The starting shard advances only after an answer.
  (Connections to coordinators have descriptors other than the client's, which is open.)
\<close>

theorem router_answers_once:
  assumes "router_ok rt" and "apart (server_fd server) rt" and "\<forall>i. connect_result w i \<noteq> server_fd server"
    and "receive_result w (length (calls rt)) = (n, request)" and "0 < n"
  shows "\<exists>nxt rt' mid answer k. worker_round w others server ri rt = (nxt, rt') \<and> router_ok rt' \<and> apart (server_fd server) rt' \<and>
    calls rt' = calls rt @ Receive (server_fd server) request n # mid @ [Send (server_fd server) answer k] \<and>
    (\<forall>c\<in>set mid. to_coordinator (server_fd server) request c) \<and>
    ((\<forall>c\<in>set mid. \<not> got_answer c) \<and> answer = fail_message request \<and>
       nxt = (if k \<le> 0 then None else Some ri) \<or>
     (\<exists>pre fd j i. mid = pre @ [Send fd request j, Receive fd answer i] \<and> 0 < j \<and> 0 < i \<and>
        (\<forall>c\<in>set pre. \<not> got_answer c) \<and>
        nxt = (if k \<le> 0 then None else Some ((ri + 1) mod length (shards rt)))))"
proof -
  define rt0 where "rt0 = rt\<lparr>calls := calls rt @ [Receive (server_fd server) request n]\<rparr>"
  have rt0: "router_ok rt0" "apart (server_fd server) rt0" using assms(1,2) by (simp_all add: rt0_def router_ok_def apart_def)
  obtain sent m rt1 where r: "route_request w others ri request rt0 = (sent, m, rt1)" by (metis prod_cases3)
  have routed: "routed_to request sent Message_default m rt0 rt1"
    using retry_loop_routed[OF rt0(1)] r unfolding route_request_def by blast
  have off: "off_client (server_fd server) request rt0 rt1"
    using retry_loop_off[OF r[unfolded route_request_def] rt0(2,1) assms(3)] .
  define answer where "answer = (if sent then m else fail_message request)"
  define k where "k = send_result_at w (length (calls rt1))"
  define rt' where "rt' = rt1\<lparr>calls := calls rt1 @ [Send (server_fd server) answer k]\<rparr>"
  have round: "worker_round w others server ri rt =
      (if k \<le> 0 then None else Some (if sent then (ri + 1) mod length (shards rt) else ri), rt')"
    using assms(2,4,5) r routed by (simp add: worker_round_def server_receive_def server_send_def Let_def
        rt'_def answer_def k_def apart_def routed_to_def flip: rt0_def) (simp add: rt0_def)
  have ok': "router_ok rt'" "apart (server_fd server) rt'"
    using routed off by (auto simp: routed_to_def router_ok_def rt'_def off_client_def apart_def)
  obtain mid where mid: "calls rt1 = calls rt0 @ mid" "\<forall>c\<in>set mid. to_coordinator (server_fd server) request c"
    using off by (auto simp: off_client_def kept_off_def)
  have calls: "calls rt' = calls rt @ Receive (server_fd server) request n # mid @ [Send (server_fd server) answer k]"
    using mid(1) by (simp add: rt'_def rt0_def)
  show ?thesis
  proof (cases sent)
    case False
    then have "\<forall>c\<in>set mid. \<not> got_answer c"
      using routed_failD(3)[of request Message_default m rt0 rt1] routed mid(1) by (auto simp: quiet_def)
    moreover have "worker_round w others server ri rt = (if k \<le> 0 then None else Some ri, rt')" "answer = fail_message request"
      using round False by (simp_all add: answer_def)
    ultimately show ?thesis using ok' mid(2) calls by blast
  next
    case True
    then obtain fd pre j i where c: "\<forall>c\<in>set pre. \<not> got_answer c" "0 < j" "0 < i"
      "calls rt1 = calls rt0 @ pre @ [Send fd request j, Receive fd m i]"
      using routed by (auto simp: routed_to_def tried_def quiet_def)
    then have "mid = pre @ [Send fd request j, Receive fd answer i]" using mid(1) True by (simp add: answer_def)
    moreover have "worker_round w others server ri rt = (if k \<le> 0 then None else Some ((ri + 1) mod length (shards rt)), rt')"
      using round True by simp
    ultimately show ?thesis using ok' mid(2) calls c(1-3) by blast
  qed
qed

text \<open>A shard whose primary is down and whose backup answers.\<close>

definition one_shard :: "RouterThread" where
  "one_shard = \<lparr>shards = [RouterShardGroup_new \<lparr>ep_port = 1, ep_ip = ''a''\<rparr> \<lparr>ep_port = 2, ep_ip = ''b''\<rparr>],
     shard_connections = [ThreadShard_new], calls = []\<rparr>"

definition request_5 :: Message where
  "request_5 = (Message_new SUBMIT)\<lparr>submit := SubmitMsg_default\<lparr>sm_task_id := 5\<rparr>\<rparr>"

definition answer_5 :: Message where
  "answer_5 = (Message_new RESULT)\<lparr>result := \<lparr>rm_task_id = 5, rm_result = 0, rm_success = 1\<rparr>\<rparr>"

text \<open>
  The first call receives the request, the first connect (to the primary) fails, everything else
  succeeds.
\<close>

definition primary_down :: Remote where
  "primary_down = \<lparr>connect_result = \<lambda>n. if n \<le> 1 then -1 else 9, send_result_at = \<lambda>_. 30,
     receive_result = \<lambda>n. (30, if n = 0 then request_5 else answer_5)\<rparr>"

lemma one_shard_ok: "router_ok one_shard" "apart 4 one_shard"
  by (simp_all add: router_ok_def apart_def one_shard_def ThreadShard_new_def Client_new_def)

theorem router_answers_once_witness:
  "\<exists>nxt rt' mid k. worker_round primary_down (\<lambda>_ _. None) \<lparr>server_fd = 4\<rparr> 0 one_shard = (nxt, rt') \<and>
     calls rt' = Receive 4 request_5 30 # mid @ [Send 4 answer_5 k]"
proof -
  have a: "apart (server_fd \<lparr>server_fd = 4\<rparr>) one_shard" "\<forall>i. connect_result primary_down i \<noteq> server_fd \<lparr>server_fd = 4\<rparr>"
    "receive_result primary_down (length (calls one_shard)) = (30, request_5)"
    using one_shard_ok(2) by (simp_all add: primary_down_def one_shard_def)
  obtain nxt rt' mid answer k where r: "worker_round primary_down (\<lambda>_ _. None) \<lparr>server_fd = 4\<rparr> 0 one_shard = (nxt, rt')"
    "calls rt' = calls one_shard @ Receive 4 request_5 30 # mid @ [Send 4 answer k]"
    using router_answers_once[OF one_shard_ok(1) a, of "\<lambda>_ _. None" 0] by auto
  moreover have "last (calls rt') = Send 4 answer_5 30"
    using r(1)
    by (auto simp: worker_round_def server_receive_def server_send_def route_request_def RETRY_SHARDS_def numeral_3_eq_3 upt_rec
        try_shard_def load_target_def interfere_def try_primary_def try_backup_def try_connection_def
        Client_connect_def close_connection_def send_with_retry_def receive_with_retry_def compare_exchange_def
        one_shard_def primary_down_def RouterShardGroup_new_def ThreadShard_new_def Client_new_def Let_def)
  ultimately show ?thesis by (auto simp: one_shard_def)
qed

text \<open>C20:
  The router follows the coordinator that answers: when a shard answers and no other thread
  stores its target meanwhile, the answer came over the connection to the coordinator
  that is the active target afterwards, so that after a failover the next request goes there
  first. When the shard does not answer, both its coordinators have been tried: for each of
  them, either a connection to its address was refused, or the request was sent over its connection, the one there was or one
  made to its address; nothing was received, the target is as before and both connections are closed.
\<close>

theorem failover_follows_answer:
  assumes "router_ok rt" and "idx < length (shards rt)" and "\<forall>n. others n idx = None"
    and "try_shard w others idx request old rt = (sent, response, rt')"
  shows "if sent then \<exists>pre fd j i. 0 \<le> fd \<and>
      (case active_target (shards rt' ! idx) of
         PRIMARY \<Rightarrow> sock_fd (primary_conn (shard_connections rt' ! idx)) = fd
       | BACKUP \<Rightarrow> sock_fd (backup_conn (shard_connections rt' ! idx)) = fd) \<and>
      calls rt' = calls rt @ pre @ [Send fd request j, Receive fd response i] \<and> 0 < j \<and> 0 < i
    else response = old \<and> active_target (shards rt' ! idx) = active_target (shards rt ! idx) \<and>
      sock_fd (primary_conn (shard_connections rt' ! idx)) < 0 \<and>
      sock_fd (backup_conn (shard_connections rt' ! idx)) < 0 \<and>
      (\<exists>new. calls rt' = calls rt @ new \<and> (\<forall>c\<in>set new. \<not> got_answer c) \<and>
         attempted request (primary_conn (shard_connections rt ! idx)) (primary_ep (shards rt ! idx)) new \<and>
         attempted request (backup_conn (shard_connections rt ! idx)) (backup_ep (shards rt ! idx)) new)"
proof -
  have s: "shard_tried others idx request sent old response rt rt'" by (rule try_shard_calls[OF assms(1,2,4)])
  show ?thesis
  proof (cases sent)
    case False
    have idx: "idx < length (shard_connections rt)" using assms(1,2) by (simp add: router_ok_def)
    have t: "try_shard w others idx request old rt = (False, response, rt')" using assms(4) False by simp
    obtain new where "calls rt' = calls rt @ new"
        "attempted request (primary_conn (shard_connections rt ! idx)) (primary_ep (shards rt ! idx)) new"
        "attempted request (backup_conn (shard_connections rt ! idx)) (backup_ep (shards rt ! idx)) new"
      using try_shard_attempted[OF t assms(3) idx] by blast
    moreover have "quiet (calls rt) (calls rt')" using s False by (auto simp: shard_tried_def tried_fail)
    ultimately show ?thesis using s assms(3) False by (auto simp: shard_tried_def tried_fail quiet_def)
  next
    case True
    define t where "t = active_target (shards rt' ! idx)"
    have "tried request True (sock_fd (conn_of t (shard_connections rt' ! idx))) old response (calls rt) (calls rt')"
      "0 \<le> sock_fd (conn_of t (shard_connections rt' ! idx))"
      using s assms(3) True unfolding shard_tried_def t_def by auto
    then show ?thesis
      using True by (cases t) (auto simp: tried_def quiet_def conn_of_def simp flip: t_def)
  qed
qed

theorem failover_follows_answer_witness:
  "\<exists>response rt' fd. try_shard primary_down (\<lambda>_ _. None) 0 request_5 Message_default (one_shard\<lparr>calls := [Close 0]\<rparr>) =
     (True, response, rt') \<and> active_target (shards rt' ! 0) = BACKUP \<and> 0 \<le> fd \<and>
     sock_fd (backup_conn (shard_connections rt' ! 0)) = fd"
proof -
  let ?rt = "one_shard\<lparr>calls := [Close 0]\<rparr>"
  obtain rt' where t: "try_shard primary_down (\<lambda>_ _. None) 0 request_5 Message_default ?rt = (True, answer_5, rt')"
    "active_target (shards rt' ! 0) = BACKUP"
    by (simp add: try_shard_def load_target_def interfere_def try_primary_def try_backup_def try_connection_def
        Client_connect_def close_connection_def send_with_retry_def receive_with_retry_def compare_exchange_def
        one_shard_def primary_down_def RouterShardGroup_new_def ThreadShard_new_def Client_new_def Let_def)
  have "router_ok ?rt" "0 < length (shards ?rt)" by (simp_all add: router_ok_def one_shard_def)
  from failover_follows_answer[OF this _ t(1)] t show ?thesis by auto
qed

end
