(* ===== verification/Worker_Process.thy ===== *)
theory Worker_Process
  imports Rpc SPSC_Queue Word_Count "HOL-Library.Multiset" "HOL-Library.Monad_Syntax"
begin

text \<open>
  The worker process (\<^verbatim>\<open>src/worker/worker.cpp\<close>): a network thread that registers with the
  coordinator, hands assignments to the execution threads and reports their results, and
  execution threads that take a task, execute it and push the response, each with a pair of
  lock-free queues.

  \<open>WorkerEnv\<close> has the network, the clock, the outcomes of \<^verbatim>\<open>poll\<close> and the schedule: which
  execution threads take a step, with which clock readings, before each access of the network
  thread to a queue. \<open>in_hand\<close> is the response an execution thread has ready and has
  not been able to push yet.
\<close>

subsection \<open>State\<close>

record WorkerEnv =
  remote :: Remote
  clock_at :: "nat \<Rightarrow> u64"
  poll_result :: "nat \<Rightarrow> bool \<times> bool \<times> bool"
  exec_at :: "nat \<Rightarrow> (nat \<times> u64 \<times> u64) list"

record Worker =
  next_worker :: nat
  wk_last_heartbeat_ns :: u64
  num_workers :: nat
  last_start :: nat
  wk_id :: u32
  coordinator_address :: address
  wk_running :: bool
  wk_connection :: "Client option"
  task_queues :: "AssignMsg SPSCQueue list"
  response_queues :: "CompleteMsg SPSCQueue list"
  in_hand :: "CompleteMsg option list"
  wk_calls :: "rpc_call list"
  steps :: nat

definition Worker_new :: "address \<Rightarrow> nat \<Rightarrow> u64 \<Rightarrow> Worker" where
  "Worker_new addr n now = \<lparr>next_worker = 0, wk_last_heartbeat_ns = now, num_workers = n, last_start = 0,
     wk_id = 0xFFFFFFFF, coordinator_address = addr, wk_running = False, wk_connection = None,
     task_queues = replicate n (SPSCQueue_init AssignMsg_default WORKER_QUEUE_CAPACITY),
     response_queues = replicate n (SPSCQueue_init CompleteMsg_default WORKER_QUEUE_CAPACITY),
     in_hand = replicate n None, wk_calls = [], steps = 0\<rparr>"

definition wk_now :: "WorkerEnv \<Rightarrow> Worker \<Rightarrow> u64 \<times> Worker" where
  "wk_now env wk = (clock_at env (steps wk), wk\<lparr>steps := Suc (steps wk)\<rparr>)"

subsection \<open>Execution threads\<close>

text \<open>
  A step of thread \<open>i\<close>: without a response in hand it tries to take a task, and executes it;
  with one it tries to push it.
\<close>

definition exec_step :: "nat \<times> u64 \<times> u64 \<Rightarrow> Worker \<Rightarrow> Worker" where
  "exec_step st wk = (case st of (i, started, completed) \<Rightarrow>
     if i < length (task_queues wk) then
       (case in_hand wk ! i of
          None \<Rightarrow> (case try_pop (task_queues wk ! i) of
              None \<Rightarrow> wk
            | Some (task, q) \<Rightarrow> wk\<lparr>task_queues := (task_queues wk)[i := q],
                in_hand := (in_hand wk)[i := Some (execute_task started completed task)]\<rparr>)
        | Some response \<Rightarrow> (case try_push response (response_queues wk ! i) of
              None \<Rightarrow> wk
            | Some q \<Rightarrow> wk\<lparr>response_queues := (response_queues wk)[i := q], in_hand := (in_hand wk)[i := None]\<rparr>))
     else wk)"

definition exec_turn :: "WorkerEnv \<Rightarrow> Worker \<Rightarrow> Worker" where
  "exec_turn env wk = fold exec_step (exec_at env (steps wk)) (wk\<lparr>steps := Suc (steps wk)\<rparr>)"

subsection \<open>Registration\<close>

definition register_with_server :: "WorkerEnv \<Rightarrow> Client \<Rightarrow> Worker \<Rightarrow> bool \<times> Worker" where
  "register_with_server env c wk =
     (case send_with_retry (remote env) (Message_new REGISTER) c (wk_calls wk) of (n, cs) \<Rightarrow> let
        wk = wk\<lparr>wk_calls := cs\<rparr>
      in if n \<le> 0 then (False, wk)
      else case receive_with_retry (remote env) Message_default c (wk_calls wk) of (n, ack, cs) \<Rightarrow> let
        wk = wk\<lparr>wk_calls := cs\<rparr>
      in if n \<le> 0 then (False, wk)
      else case wk_now env wk of (now, wk) \<Rightarrow>
        (True, wk\<lparr>wk_id := ack_worker_id (acknowledge ack), wk_last_heartbeat_ns := now\<rparr>))"

text \<open>\<^verbatim>\<open>connection_.reset\<close>: the old client closes its descriptor.\<close>

definition drop_connection :: "Worker \<Rightarrow> Worker" where
  "drop_connection wk = (case wk_connection wk of
     None \<Rightarrow> wk
   | Some c \<Rightarrow> wk\<lparr>wk_connection := None, wk_calls := snd (close_connection c (wk_calls wk))\<rparr>)"

primrec connect_loop :: "WorkerEnv \<Rightarrow> nat \<Rightarrow> Worker \<Rightarrow> bool \<times> Worker" where
  "connect_loop env 0 wk = (False, drop_connection wk)"
| "connect_loop env (Suc n) wk = (let wk = drop_connection wk in
     case Client_connect (remote env) (coordinator_address wk) Client_new (wk_calls wk) of (up, c, cs) \<Rightarrow> let
       wk = wk\<lparr>wk_connection := Some c, wk_calls := cs\<rparr>
     in if up then (case register_with_server env c wk of (ok, wk) \<Rightarrow>
          if ok then (True, wk) else connect_loop env n wk)
        else connect_loop env n wk)"

definition connect :: "WorkerEnv \<Rightarrow> Worker \<Rightarrow> bool \<times> Worker" where
  "connect env wk = connect_loop env REGISTER_RETRY_COUNT wk"

subsection \<open>The network thread\<close>

definition current_client :: "Worker \<Rightarrow> Client" where
  "current_client wk = (case wk_connection wk of None \<Rightarrow> Client_new | Some c \<Rightarrow> c)"

partial_function (option) assign_push :: "WorkerEnv \<Rightarrow> AssignMsg \<Rightarrow> nat \<Rightarrow> Worker \<Rightarrow> Worker option" where
  "assign_push env task retry wk = (let wk = exec_turn env wk in
     if next_worker wk < length (task_queues wk) then
       (case try_push task (task_queues wk ! next_worker wk) of
          Some q \<Rightarrow> Some (wk\<lparr>task_queues := (task_queues wk)[next_worker wk := q]\<rparr>)
        | None \<Rightarrow>
            if retry + 1 > QUEUE_RETRY_COUNT
            then assign_push env task 0 (wk\<lparr>next_worker := (next_worker wk + 1) mod num_workers wk\<rparr>)
            else assign_push env task (retry + 1) wk)
     else None)"

definition complete_message :: "CompleteMsg \<Rightarrow> Message" where
  "complete_message response = (Message_new COMPLETE)\<lparr>complete := response\<rparr>"

text \<open>The inner loop over one response queue: \<open>budget\<close> is what is left of the two caps.\<close>

primrec send_responses :: "WorkerEnv \<Rightarrow> nat \<Rightarrow> nat \<Rightarrow> Worker \<Rightarrow> bool \<times> nat \<times> Worker" where
  "send_responses env 0 i wk = (True, 0, wk)"
| "send_responses env (Suc budget) i wk = (let wk = exec_turn env wk in
     case try_pop (response_queues wk ! i) of
       None \<Rightarrow> (True, 0, wk)
     | Some (response, q) \<Rightarrow> let
         wk = wk\<lparr>response_queues := (response_queues wk)[i := q]\<rparr>
       in case send_with_retry (remote env) (complete_message response) (current_client wk) (wk_calls wk) of (n, cs) \<Rightarrow> let
         wk = wk\<lparr>wk_calls := cs\<rparr>
       in if n \<le> 0 then (False, 0, wk\<lparr>wk_running := False\<rparr>)
          else case send_responses env budget i wk of (ok, sent, wk) \<Rightarrow> (ok, Suc sent, wk))"

primrec response_loop :: "WorkerEnv \<Rightarrow> nat list \<Rightarrow> nat \<Rightarrow> nat \<Rightarrow> Worker \<Rightarrow> bool \<times> nat \<times> Worker" where
  "response_loop env [] start processed wk = (True, processed, wk)"
| "response_loop env (k # ks) start processed wk =
     (if processed < WORKER_OUT_BUDGET then let
        i = (start + k) mod num_workers wk;
        cap = min WORKER_OUT_PER_THREAD_CAP (WORKER_OUT_BUDGET - processed)
      in case send_responses env cap i wk of (ok, sent, wk) \<Rightarrow>
        if ok then response_loop env ks start (processed + sent) wk else (False, processed + sent, wk)
      else (True, processed, wk))"

definition heartbeat_message :: "u32 \<Rightarrow> Message" where
  "heartbeat_message i = (Message_new HEARTBEAT)\<lparr>heartbeat := \<lparr>hb_worker_id = i\<rparr>\<rparr>"

definition send_heartbeat :: "WorkerEnv \<Rightarrow> Worker \<Rightarrow> Worker" where
  "send_heartbeat env wk = (case wk_now env wk of (now, wk) \<Rightarrow>
     if now - wk_last_heartbeat_ns wk \<ge> HEARTBEAT_INTERVAL_NS then
       (case send_with_retry (remote env) (heartbeat_message (wk_id wk)) (current_client wk) (wk_calls wk) of (n, cs) \<Rightarrow> let
          wk = wk\<lparr>wk_calls := cs\<rparr>
        in if n \<le> 0 then wk\<lparr>wk_running := False\<rparr>
           else case wk_now env wk of (now, wk) \<Rightarrow> wk\<lparr>wk_last_heartbeat_ns := now\<rparr>)
     else wk)"

definition report_phase :: "WorkerEnv \<Rightarrow> Worker \<Rightarrow> Worker" where
  "report_phase env wk = (let start = last_start wk in
     case response_loop env [0..<num_workers wk] start 0 wk of (ok, processed, wk) \<Rightarrow>
       if \<not> ok then wk
       else send_heartbeat env (wk\<lparr>last_start := (start + 1) mod num_workers wk\<rparr>))"

text \<open>One round of the network thread; \<open>None\<close> if it never gets a task pushed.\<close>

definition wk_network_round :: "WorkerEnv \<Rightarrow> Worker \<Rightarrow> Worker option" where
  "wk_network_round env wk = (case poll_result env (steps wk) of (ready, err, pollin) \<Rightarrow> let
     wk = wk\<lparr>steps := Suc (steps wk)\<rparr>
   in if ready \<and> err then
        (case connect env wk of (ok, wk) \<Rightarrow> Some (if ok then wk else wk\<lparr>wk_running := False\<rparr>))
      else if ready \<and> pollin then
        (case receive_with_retry (remote env) Message_default (current_client wk) (wk_calls wk) of (n, msg, cs) \<Rightarrow> let
           wk = wk\<lparr>wk_calls := cs\<rparr>
         in if n = -3 then Some wk
         else if n \<le> 0 then Some (wk\<lparr>wk_running := False\<rparr>)
         else if m_type msg \<noteq> ASSIGN then Some wk
         else do {
           wk \<leftarrow> assign_push env (assign msg) 0 wk;
           Some (report_phase env (wk\<lparr>next_worker := (next_worker wk + 1) mod num_workers wk\<rparr>))
         })
      else Some (report_phase env wk))"

primrec wk_network_loop :: "WorkerEnv \<Rightarrow> nat \<Rightarrow> Worker \<Rightarrow> Worker option" where
  "wk_network_loop env 0 wk = Some wk"
| "wk_network_loop env (Suc n) wk =
     (if wk_running wk then Option.bind (wk_network_round env wk) (wk_network_loop env n) else Some wk)"

definition wk_network_worker :: "WorkerEnv \<Rightarrow> nat \<Rightarrow> Worker \<Rightarrow> Worker option" where
  "wk_network_worker env n wk = (case connect env wk of (ok, wk) \<Rightarrow>
     if ok then wk_network_loop env n wk else Some (wk\<lparr>wk_running := False\<rparr>))"

definition wk_run :: "WorkerEnv \<Rightarrow> nat \<Rightarrow> Worker \<Rightarrow> Worker option" where
  "wk_run env n wk = map_option (\<lambda>wk. wk\<lparr>wk_running := False\<rparr>) (wk_network_worker env n (wk\<lparr>wk_running := True\<rparr>))"

subsection \<open>The tasks inside the process\<close>

lemma mset_concat_update:
  assumes "i < length xs"
  shows "mset (concat (map f (xs[i := y]))) + mset (f (xs ! i)) = mset (concat (map f xs)) + mset (f y)"
  using assms
proof (induction xs arbitrary: i)
  case (Cons x xs)
  then show ?case by (cases i) (auto simp: ac_simps)
qed simp

definition queued_tasks :: "Worker \<Rightarrow> AssignMsg list" where
  "queued_tasks wk = concat (map contents (task_queues wk))"

definition held_responses :: "Worker \<Rightarrow> CompleteMsg list" where
  "held_responses wk = concat (map (case_option [] (\<lambda>r. [r])) (in_hand wk))"

definition ready_responses :: "Worker \<Rightarrow> CompleteMsg list" where
  "ready_responses wk = concat (map contents (response_queues wk))"

text \<open>The ids of all tasks the process has accepted and not reported yet.\<close>

definition workload :: "Worker \<Rightarrow> u64 multiset" where
  "workload wk = image_mset am_task_id (mset (queued_tasks wk)) + image_mset com_task_id (mset (held_responses wk)) +
     image_mset com_task_id (mset (ready_responses wk))"

definition known_type :: "AssignMsg \<Rightarrow> bool" where
  "known_type t \<longleftrightarrow> am_type t = SYNTHETIC \<or> am_type t = WORD_COUNT"

definition worker_inv :: "Worker \<Rightarrow> bool" where
  "worker_inv wk \<longleftrightarrow> 0 < num_workers wk \<and> length (task_queues wk) = num_workers wk \<and>
     length (response_queues wk) = num_workers wk \<and> length (in_hand wk) = num_workers wk \<and>
     next_worker wk < num_workers wk \<and>
     (\<forall>i<num_workers wk. spsc_inv (task_queues wk ! i) \<and> spsc_inv (response_queues wk ! i) \<and>
        bound (task_queues wk ! i) = WORKER_QUEUE_CAPACITY) \<and>
     (\<forall>t\<in>set (queued_tasks wk). known_type t)"

lemma execute_task_id: "known_type t \<Longrightarrow> com_task_id (execute_task a b t) = am_task_id t"
  by (auto simp: known_type_def execute_task_def execute_synthetic_def execute_word_count_def)

text \<open>What the execution threads never touch.\<close>

definition same_network :: "Worker \<Rightarrow> Worker \<Rightarrow> bool" where
  "same_network wk wk' \<longleftrightarrow> next_worker wk' = next_worker wk \<and> num_workers wk' = num_workers wk \<and>
     last_start wk' = last_start wk \<and> wk_id wk' = wk_id wk \<and> wk_running wk' = wk_running wk \<and>
     wk_connection wk' = wk_connection wk \<and> wk_calls wk' = wk_calls wk \<and>
     wk_last_heartbeat_ns wk' = wk_last_heartbeat_ns wk \<and> coordinator_address wk' = coordinator_address wk"

text \<open>
  The threads only drain the task queues: every queue's contents is a suffix of what it was.
\<close>

definition exec_frame :: "Worker \<Rightarrow> Worker \<Rightarrow> bool" where
  "exec_frame wk wk' \<longleftrightarrow> worker_inv wk' \<and> same_network wk wk' \<and> workload wk' = workload wk \<and>
     (\<forall>i<num_workers wk. (\<exists>n. contents (task_queues wk' ! i) = drop n (contents (task_queues wk ! i))) \<and>
        bound (task_queues wk' ! i) = bound (task_queues wk ! i))"

lemma exec_frame_refl: "worker_inv wk \<Longrightarrow> exec_frame wk wk"
  by (auto simp: exec_frame_def same_network_def intro: exI[of _ 0])

lemma exec_frame_trans: "exec_frame wk wk' \<Longrightarrow> exec_frame wk' wk'' \<Longrightarrow> exec_frame wk wk''"
  unfolding exec_frame_def same_network_def by (metis drop_drop)

lemma set_queued_update:
  assumes "i < length (task_queues wk)" and "set (contents q) \<subseteq> set (contents (task_queues wk ! i)) \<union> T"
  shows "set (queued_tasks (wk\<lparr>task_queues := (task_queues wk)[i := q]\<rparr>)) \<subseteq> set (queued_tasks wk) \<union> T"
  using assms set_update_subset_insert[of "task_queues wk" i q]
  by (auto simp: queued_tasks_def) (metis (no_types, lifting) UnE insertE nth_mem subsetD)+

lemma exec_pop_frame:
  assumes inv: "worker_inv wk" and i: "i < num_workers wk" and hand: "in_hand wk ! i = None"
    and pop: "try_pop (task_queues wk ! i) = Some (task, q)"
  shows "exec_frame wk (wk\<lparr>task_queues := (task_queues wk)[i := q],
    in_hand := (in_hand wk)[i := Some (execute_task started completed task)]\<rparr>)"
proof -
  let ?wk = "wk\<lparr>task_queues := (task_queues wk)[i := q],
    in_hand := (in_hand wk)[i := Some (execute_task started completed task)]\<rparr>"
  have len: "i < length (task_queues wk)" "i < length (in_hand wk)" using inv i by (simp_all add: worker_inv_def)
  have q: "spsc_inv q" "contents (task_queues wk ! i) = task # contents q" "bound q = bound (task_queues wk ! i)"
    using spsc.pop_Some[OF _ pop] inv i by (auto simp: worker_inv_def)
  have "task \<in> set (queued_tasks wk)" using nth_mem[OF len(1)] q(2) by (auto simp: queued_tasks_def intro!: bexI[of _ "task_queues wk ! i"])
  then have known: "known_type task" using inv by (simp add: worker_inv_def)
  have qs: "add_mset task (mset (queued_tasks ?wk)) = mset (queued_tasks wk)"
    using mset_concat_update[OF len(1), of contents q] q(2) by (simp add: queued_tasks_def)
  have hs: "mset (held_responses ?wk) = add_mset (execute_task started completed task) (mset (held_responses wk))"
    using mset_concat_update[OF len(2), of "case_option [] (\<lambda>r. [r])" "Some (execute_task started completed task)"] hand
    by (simp add: held_responses_def)
  have "workload ?wk = workload wk"
    using arg_cong[OF qs, of "image_mset am_task_id"] hs execute_task_id[OF known]
    by (simp add: workload_def ready_responses_def ac_simps)
  moreover have "\<forall>t\<in>set (queued_tasks ?wk). known_type t"
    using inv set_queued_update[OF len(1), of q "{}"] q(2) by (auto simp: worker_inv_def queued_tasks_def)
  moreover have "\<exists>n. contents ((task_queues wk)[i := q] ! j) = drop n (contents (task_queues wk ! j))" if "j < num_workers wk" for j
    using q(2) len(1) by (cases "j = i") (auto intro: exI[of _ 1] exI[of _ 0])
  moreover have "bound ((task_queues wk)[i := q] ! j) = bound (task_queues wk ! j)" for j
    using q(3) len(1) by (cases "j = i") auto
  moreover have "\<forall>j<num_workers wk. spsc_inv ((task_queues wk)[i := q] ! j)"
    using inv q(1) len(1) by (auto simp: worker_inv_def nth_list_update)
  ultimately show ?thesis using inv by (simp add: exec_frame_def same_network_def worker_inv_def)
qed

lemma exec_push_frame:
  assumes inv: "worker_inv wk" and i: "i < num_workers wk" and hand: "in_hand wk ! i = Some r"
    and push: "try_push r (response_queues wk ! i) = Some q"
  shows "exec_frame wk (wk\<lparr>response_queues := (response_queues wk)[i := q], in_hand := (in_hand wk)[i := None]\<rparr>)"
proof -
  let ?wk = "wk\<lparr>response_queues := (response_queues wk)[i := q], in_hand := (in_hand wk)[i := None]\<rparr>"
  have len: "i < length (response_queues wk)" "i < length (in_hand wk)" using inv i by (simp_all add: worker_inv_def)
  have q: "spsc_inv q" "contents q = contents (response_queues wk ! i) @ [r]"
    using spsc.push_Some[OF _ push] inv i by (auto simp: worker_inv_def)
  have "mset (ready_responses ?wk) = add_mset r (mset (ready_responses wk))"
    using mset_concat_update[OF len(1), of contents q] q(2) by (simp add: ready_responses_def)
  moreover have "add_mset r (mset (held_responses ?wk)) = mset (held_responses wk)"
    using mset_concat_update[OF len(2), of "case_option [] (\<lambda>r. [r])" None] hand by (simp add: held_responses_def)
  ultimately have "workload ?wk = workload wk"
    using arg_cong[of _ _ "image_mset com_task_id"] by (simp add: workload_def queued_tasks_def) (metis add_mset_add_single image_mset_add_mset union_mset_add_mset_left union_mset_add_mset_right)
  moreover have "\<forall>j<num_workers wk. spsc_inv ((response_queues wk)[i := q] ! j)"
    using inv q(1) len(1) by (auto simp: worker_inv_def nth_list_update)
  ultimately show ?thesis
    using inv by (auto simp: exec_frame_def same_network_def worker_inv_def queued_tasks_def intro: exI[of _ 0])
qed

lemma exec_step_frame:
  assumes "worker_inv wk"
  shows "exec_frame wk (exec_step st wk)"
proof -
  obtain i a b where st: "st = (i, a, b)" by (cases st)
  have len: "length (task_queues wk) = num_workers wk" using assms by (simp add: worker_inv_def)
  show ?thesis
    using exec_pop_frame[OF assms, of i] exec_push_frame[OF assms, of i] exec_frame_refl[OF assms]
    by (auto simp: exec_step_def st len split: option.split)
qed

lemma exec_turn_frame:
  assumes "worker_inv wk"
  shows "exec_frame wk (exec_turn env wk)"
proof -
  have fold: "exec_frame wk (fold exec_step sts wk')" if "exec_frame wk wk'" for sts wk'
    using that
  proof (induction sts arbitrary: wk')
    case (Cons st sts)
    have "exec_frame wk (exec_step st wk')"
      using exec_frame_trans[OF Cons.prems exec_step_frame] Cons.prems by (simp add: exec_frame_def)
    then show ?case using Cons.IH by simp
  qed simp
  have "exec_frame wk (wk\<lparr>steps := Suc (steps wk)\<rparr>)"
    using exec_frame_refl[OF assms]
    by (simp add: exec_frame_def worker_inv_def same_network_def workload_def queued_tasks_def held_responses_def ready_responses_def)
  then show ?thesis unfolding exec_turn_def by (rule fold)
qed

subsection \<open>Dispatch\<close>

lemma worker_inv_next: "worker_inv wk \<Longrightarrow> j < num_workers wk \<Longrightarrow> worker_inv (wk\<lparr>next_worker := j\<rparr>)"
  by (simp add: worker_inv_def queued_tasks_def)

lemma worker_upd [simp]:
  "workload (wk\<lparr>next_worker := j\<rparr>) = workload wk" "workload (wk\<lparr>last_start := j\<rparr>) = workload wk"
  "workload (wk\<lparr>wk_calls := cs\<rparr>) = workload wk" "workload (wk\<lparr>wk_running := b\<rparr>) = workload wk"
  "workload (wk\<lparr>steps := k\<rparr>) = workload wk" "workload (wk\<lparr>wk_last_heartbeat_ns := now\<rparr>) = workload wk"
  "worker_inv (wk\<lparr>wk_calls := cs\<rparr>) = worker_inv wk" "worker_inv (wk\<lparr>wk_running := b\<rparr>) = worker_inv wk"
  "worker_inv (wk\<lparr>steps := k\<rparr>) = worker_inv wk" "worker_inv (wk\<lparr>last_start := j\<rparr>) = worker_inv wk"
  "worker_inv (wk\<lparr>wk_last_heartbeat_ns := now\<rparr>) = worker_inv wk"
  by (simp_all add: workload_def worker_inv_def queued_tasks_def held_responses_def ready_responses_def)

text \<open>Thread \<open>j\<close> can take a task.\<close>

definition has_space :: "Worker \<Rightarrow> nat \<Rightarrow> bool" where
  "has_space wk j \<longleftrightarrow> length (contents (task_queues wk ! j)) < bound (task_queues wk ! j)"

lemma exec_frame_space:
  assumes "exec_frame wk wk'" and "j < num_workers wk" and "has_space wk j"
  shows "has_space wk' j"
proof -
  obtain n where "contents (task_queues wk' ! j) = drop n (contents (task_queues wk ! j))"
    "bound (task_queues wk' ! j) = bound (task_queues wk ! j)"
    using assms(1,2) unfolding exec_frame_def by blast
  then show ?thesis using assms(3) by (simp add: has_space_def del: length_contents)
qed

text \<open>The task is in exactly one queue, and nothing else has changed but who comes next.\<close>

definition dispatched :: "AssignMsg \<Rightarrow> Worker \<Rightarrow> Worker \<Rightarrow> bool" where
  "dispatched task wk wk' \<longleftrightarrow> worker_inv wk' \<and> workload wk' = add_mset (am_task_id task) (workload wk) \<and>
     same_network (wk\<lparr>next_worker := next_worker wk'\<rparr>) wk'"

lemma push_dispatched:
  assumes inv: "worker_inv wk" and known: "known_type task"
    and push: "try_push task (task_queues wk ! next_worker wk) = Some q"
  shows "dispatched task wk (wk\<lparr>task_queues := (task_queues wk)[next_worker wk := q]\<rparr>)"
proof -
  let ?i = "next_worker wk"
  let ?wk = "wk\<lparr>task_queues := (task_queues wk)[?i := q]\<rparr>"
  have len: "?i < length (task_queues wk)" "?i < num_workers wk" using inv by (simp_all add: worker_inv_def)
  have q: "spsc_inv q" "contents q = contents (task_queues wk ! ?i) @ [task]" "bound q = bound (task_queues wk ! ?i)"
    using spsc.push_Some[OF _ push] inv len(2) by (auto simp: worker_inv_def)
  have "mset (queued_tasks ?wk) = add_mset task (mset (queued_tasks wk))"
    using mset_concat_update[OF len(1), of contents q] q(2) by (simp add: queued_tasks_def)
  then have "workload ?wk = add_mset (am_task_id task) (workload wk)"
    by (simp add: workload_def held_responses_def ready_responses_def)
  moreover have "\<forall>t\<in>set (queued_tasks ?wk). known_type t"
    using inv set_queued_update[OF len(1), of q "{task}"] q(2) known by (auto simp: worker_inv_def)
  moreover have "\<forall>j<num_workers wk. spsc_inv ((task_queues wk)[?i := q] ! j) \<and>
      bound ((task_queues wk)[?i := q] ! j) = WORKER_QUEUE_CAPACITY"
    using inv q(1,3) len by (auto simp: worker_inv_def nth_list_update)
  ultimately show ?thesis using inv by (simp add: dispatched_def worker_inv_def same_network_def)
qed

lemma dispatched_frame:
  assumes "exec_frame wk wk1" and "dispatched task (wk1\<lparr>next_worker := k\<rparr>) wk2"
  shows "dispatched task wk wk2"
  using assms by (simp add: dispatched_def exec_frame_def same_network_def)

lemma cyclic_closer:
  fixes n :: nat
  assumes "i < n" and "j < n" and "j \<noteq> i"
  shows "(j + n - (i + 1) mod n) mod n < (j + n - i) mod n"
proof (cases "i < j")
  case True
  then have i: "(i + 1) mod n = i + 1" and e: "j + n - i = (j - i) + n" "j + n - (i + 1) = (j - (i + 1)) + n"
    using assms by simp_all
  have "((j - i) + n) mod n = j - i" "((j - (i + 1)) + n) mod n = j - (i + 1)"
    using assms(2) unfolding mod_add_self2 by simp_all
  then show ?thesis unfolding i e using True by simp
next
  case False
  then have ji: "j < i" using assms(3) by simp
  show ?thesis
  proof (cases "i + 1 = n")
    case True
    have "(j + n - i) mod n = Suc j" using ji by (simp flip: True)
    moreover have "(j + n - (i + 1) mod n) mod n = j" using assms(2) unfolding True by simp
    ultimately show ?thesis by simp
  next
    case False
    then have "(i + 1) mod n = i + 1" using assms(1) by simp
    then show ?thesis using ji assms(1) False by simp
  qed
qed

text \<open>
  The dispatch loop ends as soon as one thread has room, which the execution threads can
  only increase: the distance to that thread goes down, or the attempts left at this one.
\<close>

lemma assign_push_ok:
  assumes "worker_inv wk" and "known_type task" and "j < num_workers wk" and "has_space wk j"
    and "retry \<le> QUEUE_RETRY_COUNT"
  shows "\<exists>wk'. assign_push env task retry wk = Some wk' \<and> dispatched task wk wk'"
  using assms
proof (induction "((j + num_workers wk - next_worker wk) mod num_workers wk, QUEUE_RETRY_COUNT - retry)" arbitrary: wk retry
    rule: wf_induct_rule[OF wf_lex_prod[OF wf_less wf_less]])
  case (1 wk retry)
  define n where "n = num_workers wk"
  define wk1 where "wk1 = exec_turn env wk"
  have f: "exec_frame wk wk1" using exec_turn_frame[OF "1.prems"(1)] by (simp add: wk1_def)
  have wk1: "worker_inv wk1" "num_workers wk1 = n" "next_worker wk1 = next_worker wk"
    using f by (simp_all add: exec_frame_def same_network_def n_def)
  have inr: "next_worker wk1 < length (task_queues wk1)" "next_worker wk1 < n" using wk1(1,2) by (simp_all add: worker_inv_def)
  have space1: "has_space wk1 j" by (rule exec_frame_space[OF f "1.prems"(3,4)])
  show ?case
  proof (cases "try_push task (task_queues wk1 ! next_worker wk1)")
    case (Some q)
    have "dispatched task wk1 (wk1\<lparr>task_queues := (task_queues wk1)[next_worker wk1 := q]\<rparr>)"
      by (rule push_dispatched[OF wk1(1) "1.prems"(2) Some])
    then have "dispatched task wk (wk1\<lparr>task_queues := (task_queues wk1)[next_worker wk1 := q]\<rparr>)"
      using dispatched_frame[OF f, of task "next_worker wk1"] by simp
    then show ?thesis using Some inr(1) by (subst assign_push.simps) (simp add: Let_def flip: wk1_def)
  next
    case None
    have "\<not> has_space wk1 (next_worker wk1)"
      using None spsc.push_None[of "task_queues wk1 ! next_worker wk1" task] wk1 inr by (auto simp: worker_inv_def has_space_def)
    then have ne: "j \<noteq> next_worker wk" using space1 wk1(3) by auto
    show ?thesis
    proof (cases "retry + 1 > QUEUE_RETRY_COUNT")
      case False
      have step: "assign_push env task retry wk = assign_push env task (retry + 1) wk1"
        using None False inr(1) by (subst assign_push.simps) (simp add: Let_def flip: wk1_def)
      have "\<exists>wk'. assign_push env task (retry + 1) wk1 = Some wk' \<and> dispatched task wk1 wk'"
        using False "1.prems"(2,3) wk1 space1 by (intro "1.hyps") (auto simp: n_def)
      then show ?thesis using step dispatched_frame[OF f, of task "next_worker wk1"] by auto
    next
      case True
      define wk2 where "wk2 = wk1\<lparr>next_worker := (next_worker wk1 + 1) mod n\<rparr>"
      have step: "assign_push env task retry wk = assign_push env task 0 wk2"
        using None True inr(1) wk1(2) by (subst assign_push.simps) (simp add: Let_def wk2_def flip: wk1_def)
      have inv2: "worker_inv wk2" using worker_inv_next[OF wk1(1)] inr(2) wk1(2) by (simp add: wk2_def)
      have closer: "(j + n - (next_worker wk1 + 1) mod n) mod n < (j + n - next_worker wk) mod n"
        using cyclic_closer[OF inr(2), of j] ne "1.prems"(3) wk1(3) by (simp add: n_def)
      have "\<exists>wk'. assign_push env task 0 wk2 = Some wk' \<and> dispatched task wk2 wk'"
        using closer "1.prems"(2,3) wk1 space1 inv2 by (intro "1.hyps") (auto simp: n_def wk2_def has_space_def)
      then show ?thesis using step dispatched_frame[OF f] by (auto simp: wk2_def)
    qed
  qed
qed

subsection \<open>Reports\<close>

text \<open>
  The ids of the tasks that calls have brought in, of those whose completion was sent and of
  those whose completion could not be sent.
\<close>

fun assigned_of :: "rpc_call \<Rightarrow> u64 list" where
  "assigned_of (Receive fd m n) = (if n > 0 \<and> m_type m = ASSIGN then [am_task_id (assign m)] else [])"
| "assigned_of _ = []"

fun completed_of :: "rpc_call \<Rightarrow> u64 list" where
  "completed_of (Send fd m n) = (if 0 < n \<and> m_type m = COMPLETE then [com_task_id (complete m)] else [])"
| "completed_of _ = []"

fun failed_of :: "rpc_call \<Rightarrow> u64 list" where
  "failed_of (Send fd m n) = (if n \<le> 0 \<and> m_type m = COMPLETE then [com_task_id (complete m)] else [])"
| "failed_of _ = []"

definition assigned_ids :: "rpc_call list \<Rightarrow> u64 multiset" where
  "assigned_ids cs = mset (concat (map assigned_of cs))"

definition completed_ids :: "rpc_call list \<Rightarrow> u64 multiset" where
  "completed_ids cs = mset (concat (map completed_of cs))"

definition failed_ids :: "rpc_call list \<Rightarrow> u64 multiset" where
  "failed_ids cs = mset (concat (map failed_of cs))"

lemmas ids_defs = assigned_ids_def completed_ids_def failed_ids_def

lemma ids_append [simp]:
  "assigned_ids (cs @ ds) = assigned_ids cs + assigned_ids ds" "completed_ids (cs @ ds) = completed_ids cs + completed_ids ds"
  "failed_ids (cs @ ds) = failed_ids cs + failed_ids ds"
  "assigned_ids [] = {#}" "completed_ids [] = {#}" "failed_ids [] = {#}"
  by (simp_all add: ids_defs)

definition conn_ok :: "Worker \<Rightarrow> bool" where
  "conn_ok wk \<longleftrightarrow> (\<exists>c. wk_connection wk = Some c \<and> 0 \<le> sock_fd c)"

text \<open>
  From \<open>wk\<close> to \<open>wk'\<close> tasks have left only by being reported, \<open>k\<close> at most; unless \<open>ok\<close>
  the last of these reports, and no other, could not be sent and the process has stopped.
\<close>

definition report_calls :: "bool \<Rightarrow> nat \<Rightarrow> Worker \<Rightarrow> Worker \<Rightarrow> rpc_call list \<Rightarrow> bool" where
  "report_calls ok k wk wk' cs \<longleftrightarrow> wk_calls wk' = wk_calls wk @ cs \<and> assigned_ids cs = {#} \<and>
     workload wk = workload wk' + completed_ids cs + failed_ids cs \<and> size (completed_ids cs + failed_ids cs) \<le> k \<and>
     (if ok then failed_ids cs = {#} else size (failed_ids cs) = 1 \<and> \<not> wk_running wk')"

definition reported :: "bool \<Rightarrow> nat \<Rightarrow> Worker \<Rightarrow> Worker \<Rightarrow> bool" where
  "reported ok k wk wk' \<longleftrightarrow> worker_inv wk' \<and> num_workers wk' = num_workers wk \<and> next_worker wk' = next_worker wk \<and>
     wk_connection wk' = wk_connection wk \<and> (\<exists>cs. report_calls ok k wk wk' cs)"

lemma reported_refl: "worker_inv wk \<Longrightarrow> reported True k wk wk"
  by (auto simp: reported_def report_calls_def)

lemma reported_mono: "reported ok j wk wk' \<Longrightarrow> j \<le> k \<Longrightarrow> reported ok k wk wk'"
  unfolding reported_def report_calls_def by (meson order_trans)

lemma reported_trans:
  assumes "reported True j wk wk'" and "reported ok k wk' wk''"
  shows "reported ok (j + k) wk wk''"
proof -
  obtain cs ds where "report_calls True j wk wk' cs" "report_calls ok k wk' wk'' ds"
    using assms unfolding reported_def by blast
  then have "report_calls ok (j + k) wk wk'' (cs @ ds)"
    by (auto simp: report_calls_def)
  then show ?thesis using assms unfolding reported_def by auto
qed

lemma reported_frame: "exec_frame wk wk' \<Longrightarrow> reported True 0 wk wk'"
  by (auto simp: exec_frame_def reported_def report_calls_def same_network_def)

lemma reported_conn: "reported ok k wk wk' \<Longrightarrow> conn_ok wk' = conn_ok wk"
  by (simp add: reported_def conn_ok_def)

lemma conn_send:
  assumes "conn_ok wk" and "send_with_retry w m (current_client wk) cs = (n, cs')"
  shows "\<exists>fd. cs' = cs @ [Send fd m n]"
  using assms by (auto simp: conn_ok_def current_client_def send_with_retry_def Let_def split: if_splits)

lemma pop_reported:
  assumes inv: "worker_inv wk" and conn: "conn_ok wk" and i: "i < num_workers wk"
    and pop: "try_pop (response_queues wk ! i) = Some (r, q)"
    and send: "send_with_retry w (complete_message r) (current_client wk) (wk_calls wk) = (n, cs)"
  shows "reported (0 < n) 1 wk (wk\<lparr>response_queues := (response_queues wk)[i := q], wk_calls := cs,
    wk_running := wk_running wk \<and> 0 < n\<rparr>)"
proof -
  let ?wk = "wk\<lparr>response_queues := (response_queues wk)[i := q], wk_calls := cs, wk_running := wk_running wk \<and> 0 < n\<rparr>"
  have len: "i < length (response_queues wk)" using inv i by (simp add: worker_inv_def)
  have q: "spsc_inv q" "contents (response_queues wk ! i) = r # contents q"
    using spsc.pop_Some[OF _ pop] inv i by (auto simp: worker_inv_def)
  obtain fd where cs: "cs = wk_calls wk @ [Send fd (complete_message r) n]" using conn_send[OF conn send] by blast
  have "add_mset r (mset (ready_responses ?wk)) = mset (ready_responses wk)"
    using mset_concat_update[OF len, of contents q] q(2) by (simp add: ready_responses_def)
  then have "image_mset com_task_id (mset (ready_responses wk)) =
      add_mset (com_task_id r) (image_mset com_task_id (mset (ready_responses ?wk)))"
    by (metis image_mset_add_mset)
  then have "workload wk = add_mset (com_task_id r) (workload ?wk)"
    by (simp add: workload_def queued_tasks_def held_responses_def)
  then have "report_calls (0 < n) 1 wk ?wk [Send fd (complete_message r) n]"
    using cs by (auto simp: report_calls_def ids_defs complete_message_def Message_new_def)
  moreover have "\<forall>j<num_workers wk. spsc_inv ((response_queues wk)[i := q] ! j)"
    using inv q(1) len by (auto simp: worker_inv_def nth_list_update)
  ultimately show ?thesis
    using inv unfolding reported_def by (auto simp: worker_inv_def queued_tasks_def)
qed

lemma send_responses_ok:
  assumes "worker_inv wk" and "conn_ok wk" and "i < num_workers wk" and "send_responses env b i wk = (ok, sent, wk')"
  shows "reported ok b wk wk' \<and> (ok \<longrightarrow> sent \<le> b \<and> reported ok sent wk wk')"
  using assms
proof (induction b arbitrary: wk sent)
  case 0
  then show ?case by (simp add: reported_refl)
next
  case (Suc b)
  define wk1 where "wk1 = exec_turn env wk"
  have f: "exec_frame wk wk1" using exec_turn_frame[OF Suc.prems(1)] by (simp add: wk1_def)
  have r1: "reported True 0 wk wk1" by (rule reported_frame[OF f])
  have wk1: "worker_inv wk1" "conn_ok wk1" "i < num_workers wk1"
    using r1 Suc.prems(2,3) reported_conn[OF r1] by (simp_all add: reported_def)
  show ?case
  proof (cases "try_pop (response_queues wk1 ! i)")
    case None
    then show ?thesis using Suc.prems(4) r1 reported_mono[OF r1] by (simp add: Let_def flip: wk1_def)
  next
    case (Some p)
    obtain r q where p: "try_pop (response_queues wk1 ! i) = Some (r, q)" using Some by (cases p) simp
    obtain n cs where s: "send_with_retry (remote env) (complete_message r) (current_client wk1) (wk_calls wk1) = (n, cs)"
      by fastforce
    define wk2 where "wk2 = wk1\<lparr>response_queues := (response_queues wk1)[i := q], wk_calls := cs\<rparr>"
    have r2: "reported (0 < n) 1 wk (wk2\<lparr>wk_running := wk_running wk2 \<and> 0 < n\<rparr>)"
      using reported_trans[OF r1 pop_reported[OF wk1 p s]] by (simp add: wk2_def)
    have s': "send_with_retry (remote env) (complete_message r)
        (current_client (wk1\<lparr>response_queues := (response_queues wk1)[i := q]\<rparr>)) (wk_calls wk1) = (n, cs)"
      using s by (simp add: current_client_def)
    show ?thesis
    proof (cases "n \<le> 0")
      case True
      have "reported False (Suc b) wk (wk2\<lparr>wk_running := False\<rparr>)"
        using r2 True reported_mono[of False 1 wk _ "Suc b"] by simp
      then show ?thesis
        using Suc.prems(4) p s' True by (auto simp: Let_def wk2_def simp flip: wk1_def)
    next
      case False
      then have r2: "reported True 1 wk wk2" using r2 by simp
      obtain ok3 sent3 wk3 where t: "send_responses env b i wk2 = (ok3, sent3, wk3)" by (metis prod_cases3)
      have eq: "ok = ok3" "sent = Suc sent3" "wk' = wk3"
        using Suc.prems(4) p s' False t by (auto simp: Let_def wk2_def simp flip: wk1_def)
      have "worker_inv wk2" "conn_ok wk2" "i < num_workers wk2"
        using r2 Suc.prems(2,3) reported_conn[OF r2] by (simp_all add: reported_def)
      moreover have "send_responses env b i wk2 = (ok, sent3, wk')" using t eq by simp
      ultimately have "reported ok b wk2 wk' \<and> (ok \<longrightarrow> sent3 \<le> b \<and> reported ok sent3 wk2 wk')" by (rule Suc.IH)
      then show ?thesis using reported_trans[OF r2, of ok b wk'] reported_trans[OF r2, of ok sent3 wk'] eq(2) by auto
    qed
  qed
qed

lemma response_loop_ok:
  assumes "worker_inv wk" and "conn_ok wk" and "response_loop env ks start sent wk = (ok, sent', wk')" and "sent \<le> WORKER_OUT_BUDGET"
  shows "reported ok (WORKER_OUT_BUDGET - sent) wk wk'"
  using assms
proof (induction ks arbitrary: wk sent)
  case Nil
  then show ?case by (auto simp: reported_refl)
next
  case (Cons k ks)
  show ?case
  proof (cases "sent < WORKER_OUT_BUDGET")
    case False
    then show ?thesis using Cons.prems by (auto simp: reported_refl)
  next
    case True
    define i where "i = (start + k) mod num_workers wk"
    define cap where "cap = min WORKER_OUT_PER_THREAD_CAP (WORKER_OUT_BUDGET - sent)"
    obtain ok1 n1 wk1 where s: "send_responses env cap i wk = (ok1, n1, wk1)" by (metis prod_cases3)
    have i: "i < num_workers wk" using Cons.prems(1) by (simp add: i_def worker_inv_def)
    note r1 = send_responses_ok[OF Cons.prems(1,2) i s]
    have cap: "cap \<le> WORKER_OUT_BUDGET - sent" by (simp add: cap_def)
    show ?thesis
    proof (cases ok1)
      case False
      then have "wk' = wk1" "ok = ok1" using Cons.prems(3) s True by (simp_all add: Let_def i_def cap_def)
      then show ?thesis using r1 reported_mono[OF _ cap] by blast
    next
      case True
      have "response_loop env ks start (sent + n1) wk1 = (ok, sent', wk')"
        using Cons.prems(3) s True \<open>sent < WORKER_OUT_BUDGET\<close> by (simp add: Let_def i_def cap_def)
      moreover have "worker_inv wk1" "conn_ok wk1" "sent + n1 \<le> WORKER_OUT_BUDGET"
        using r1 True cap Cons.prems(2,4) reported_conn[of ok1 n1 wk wk1] by (auto simp: reported_def)
      ultimately have "reported ok (WORKER_OUT_BUDGET - (sent + n1)) wk1 wk'" using Cons.IH by blast
      from reported_trans[of n1, OF _ this] r1 True \<open>sent + n1 \<le> WORKER_OUT_BUDGET\<close> show ?thesis by simp
    qed
  qed
qed

lemma send_heartbeat_ok:
  assumes "worker_inv wk" and "conn_ok wk"
  shows "reported True 0 wk (send_heartbeat env wk)"
proof -
  obtain now wk1 where w: "wk_now env wk = (now, wk1)" "wk1 = wk\<lparr>steps := Suc (steps wk)\<rparr>"
    by (simp add: wk_now_def)
  obtain n cs where s: "send_with_retry (remote env) (heartbeat_message (wk_id wk1)) (current_client wk1) (wk_calls wk1) = (n, cs)"
    by fastforce
  have "conn_ok wk1" using assms(2) w(2) by (simp add: conn_ok_def)
  from conn_send[OF this s] obtain fd where cs: "cs = wk_calls wk @ [Send fd (heartbeat_message (wk_id wk1)) n]" using w(2) by auto
  have "completed_ids [Send fd (heartbeat_message (wk_id wk1)) n] = {#}" "assigned_ids [Send fd (heartbeat_message (wk_id wk1)) n] = {#}"
    "failed_ids [Send fd (heartbeat_message (wk_id wk1)) n] = {#}"
    by (simp_all add: ids_defs heartbeat_message_def Message_new_def)
  then show ?thesis
    using assms(1) w s cs by (auto simp: send_heartbeat_def Let_def wk_now_def reported_def report_calls_def)
qed

lemma report_phase_ok:
  assumes "worker_inv wk" and "conn_ok wk"
  shows "\<exists>ok. reported ok WORKER_OUT_BUDGET wk (report_phase env wk)"
proof -
  obtain ok n wk1 where l: "response_loop env [0..<num_workers wk] (last_start wk) 0 wk = (ok, n, wk1)" by (metis prod_cases3)
  have r1: "reported ok WORKER_OUT_BUDGET wk wk1" using response_loop_ok[OF assms l] by simp
  define wk2 where "wk2 = wk1\<lparr>last_start := (last_start wk + 1) mod num_workers wk1\<rparr>"
  show ?thesis
  proof (cases ok)
    case False
    then show ?thesis using l r1 by (auto simp: report_phase_def Let_def)
  next
    case True
    then have r2: "reported True WORKER_OUT_BUDGET wk wk2" using r1 by (simp add: reported_def report_calls_def wk2_def)
    have "worker_inv wk2" "conn_ok wk2" using r2 reported_conn[OF r2] assms(2) by (simp_all add: reported_def)
    from reported_trans[OF r2 send_heartbeat_ok[OF this]] show ?thesis
      using l True by (auto simp: report_phase_def Let_def wk2_def)
  qed
qed

subsection \<open>Rounds\<close>

definition same_tasks :: "Worker \<Rightarrow> Worker \<Rightarrow> bool" where
  "same_tasks wk wk' \<longleftrightarrow> (worker_inv wk' = worker_inv wk) \<and> workload wk' = workload wk \<and>
     (\<exists>cs. wk_calls wk' = wk_calls wk @ cs \<and> completed_ids cs = {#} \<and> failed_ids cs = {#})"

lemma same_tasks_trans: "same_tasks wk wk' \<Longrightarrow> same_tasks wk' wk'' \<Longrightarrow> same_tasks wk wk''"
  by (auto simp: same_tasks_def)

lemma worker_conn_upd [simp]:
  "workload (wk\<lparr>wk_connection := c\<rparr>) = workload wk" "worker_inv (wk\<lparr>wk_connection := c\<rparr>) = worker_inv wk"
  "workload (wk\<lparr>wk_id := i\<rparr>) = workload wk" "worker_inv (wk\<lparr>wk_id := i\<rparr>) = worker_inv wk"
  by (simp_all add: workload_def worker_inv_def queued_tasks_def held_responses_def ready_responses_def)

lemma drop_connection_same: "same_tasks wk (drop_connection wk)"
  by (auto simp: same_tasks_def drop_connection_def close_connection_def ids_defs split: option.split)

lemma register_same:
  assumes "register_with_server env c wk = (ok, wk')"
  shows "same_tasks wk wk' \<and> wk_connection wk' = wk_connection wk"
  using assms
  by (auto simp: register_with_server_def same_tasks_def send_with_retry_def receive_with_retry_def wk_now_def Let_def
      ids_defs Message_new_def split: if_splits prod.splits)

lemma connect_loop_same:
  assumes "connect_loop env n wk = (ok, wk')"
  shows "same_tasks wk wk' \<and> (ok \<longrightarrow> conn_ok wk')"
  using assms
proof (induction n arbitrary: wk)
  case 0
  then show ?case using drop_connection_same by auto
next
  case (Suc n)
  define wk1 where "wk1 = drop_connection wk"
  obtain up c cs where cn: "Client_connect (remote env) (coordinator_address wk1) Client_new (wk_calls wk1) = (up, c, cs)"
    by (metis prod_cases3)
  define wk2 where "wk2 = wk1\<lparr>wk_connection := Some c, wk_calls := cs\<rparr>"
  have c: "up = (0 \<le> sock_fd c)" "\<exists>ds. cs = wk_calls wk1 @ ds \<and> completed_ids ds = {#} \<and> failed_ids ds = {#}"
    using cn by (auto simp: Client_connect_def close_connection_def Client_new_def Let_def ids_defs)
  have s2: "same_tasks wk wk2"
    by (rule same_tasks_trans[OF drop_connection_same]) (use c(2) in \<open>auto simp: same_tasks_def wk2_def wk1_def\<close>)
  obtain ok3 wk3 where r: "register_with_server env c wk2 = (ok3, wk3)" by fastforce
  have s3: "same_tasks wk wk3" using same_tasks_trans[OF s2] register_same[OF r] by blast
  have eq: "connect_loop env (Suc n) wk = (if up then if ok3 then (True, wk3) else connect_loop env n wk3 else connect_loop env n wk2)"
    using cn r by (simp add: Let_def wk2_def flip: wk1_def)
  show ?case
  proof (cases "up \<and> ok3")
    case True
    have "conn_ok wk3" using True c(1) register_same[OF r] by (simp add: conn_ok_def wk2_def)
    then show ?thesis using eq Suc.prems True s3 by simp
  next
    case False
    then have "connect_loop env n (if up then wk3 else wk2) = (ok, wk')" using eq Suc.prems by auto
    from Suc.IH[OF this] show ?thesis using same_tasks_trans[OF s2] same_tasks_trans[OF s3] by (auto split: if_splits)
  qed
qed

text \<open>A process with fewer than 64 open tasks has room in every queue.\<close>

lemma workload_space:
  assumes inv: "worker_inv wk" and "size (workload wk) < WORKER_QUEUE_CAPACITY" and j: "j < num_workers wk"
  shows "has_space wk j"
proof -
  have "length (contents (task_queues wk ! j)) \<le> length (queued_tasks wk)"
  proof -
    have "contents (task_queues wk ! j) \<in> set (map contents (task_queues wk))" using inv j by (simp add: worker_inv_def)
    then show ?thesis unfolding queued_tasks_def
      by (metis concat_append length_append concat.simps(2) split_list le_add1 le_add2 trans_le_add2)
  qed
  also have "\<dots> \<le> size (workload wk)" by (simp add: workload_def)
  finally show ?thesis using assms by (simp add: has_space_def worker_inv_def del: length_contents)
qed

text \<open>
  What a round owes for its calls \<open>cs\<close>: every task is still there or was reported; at most one
  report failed, and then the process has stopped.
\<close>

definition conserved :: "Worker \<Rightarrow> Worker \<Rightarrow> rpc_call list \<Rightarrow> bool" where
  "conserved wk wk' cs \<longleftrightarrow> workload wk' + completed_ids cs + failed_ids cs = workload wk + assigned_ids cs \<and>
     (failed_ids cs = {#} \<or> size (failed_ids cs) = 1 \<and> \<not> wk_running wk')"

text \<open>\<open>wk\<close> is the start of the round, \<open>ds\<close> are the calls made when \<open>report_phase\<close> begins.\<close>

lemma report_conserves:
  assumes "worker_inv wk1" and "conn_ok wk1" and "wk_calls wk1 = wk_calls wk @ ds"
    and "completed_ids ds = {#}" and "failed_ids ds = {#}" and "workload wk1 = workload wk + assigned_ids ds"
  shows "\<exists>cs. wk_calls (report_phase env wk1) = wk_calls wk @ cs \<and> worker_inv (report_phase env wk1) \<and>
    conn_ok (report_phase env wk1) \<and> size (completed_ids cs + failed_ids cs) \<le> 128 \<and> conserved wk (report_phase env wk1) cs"
proof -
  obtain ok where r: "reported ok WORKER_OUT_BUDGET wk1 (report_phase env wk1)" using report_phase_ok[OF assms(1,2)] by blast
  then obtain cs where cs: "report_calls ok WORKER_OUT_BUDGET wk1 (report_phase env wk1) cs" unfolding reported_def by blast
  then have bal: "workload (report_phase env wk1) + completed_ids cs + failed_ids cs = workload wk1" "assigned_ids cs = {#}"
    by (simp_all add: report_calls_def)
  have "conserved wk (report_phase env wk1) (ds @ cs)"
    using bal cs assms(4-6) by (auto simp: conserved_def report_calls_def split: if_splits)
  then show ?thesis
    using cs assms(2-5) r reported_conn[OF r]
    by (intro exI[of _ "ds @ cs"]) (simp add: report_calls_def reported_def WORKER_OUT_BUDGET_def)
qed

lemma conn_receive:
  assumes "conn_ok wk" and "receive_with_retry w Message_default (current_client wk) cs = (n, m, cs')"
  shows "\<exists>fd. cs' = cs @ [Receive fd m n] \<and> (0 < n \<longrightarrow> receive_result w (length cs) = (n, m))"
  using assms by (auto simp: conn_ok_def current_client_def receive_with_retry_def Let_def split: if_splits prod.splits)

lemma receive_ids:
  "completed_ids [Receive fd m n] = {#}" "failed_ids [Receive fd m n] = {#}"
  "assigned_ids [Receive fd m n] = (if 0 < n \<and> m_type m = ASSIGN then {#am_task_id (assign m)#} else {#})"
  by (simp_all add: ids_defs)

text \<open>A round in which a message has arrived.\<close>

lemma round_receive:
  assumes "worker_inv wk" and "conn_ok wk" and "size (workload wk) < 64"
    and "\<forall>k. m_type (snd (receive_result (remote env) k)) = ASSIGN \<longrightarrow>
      known_type (assign (snd (receive_result (remote env) k)))"
    and poll: "poll_result env (steps wk) = (True, False, True)"
  shows "\<exists>wk' cs. wk_network_round env wk = Some wk' \<and> worker_inv wk' \<and> (wk_running wk' \<longrightarrow> conn_ok wk') \<and>
    wk_calls wk' = wk_calls wk @ cs \<and> size (completed_ids cs + failed_ids cs) \<le> 128 \<and> conserved wk wk' cs"
proof -
  define wk0 where "wk0 = wk\<lparr>steps := Suc (steps wk)\<rparr>"
  have wk0: "worker_inv wk0" "conn_ok wk0" "workload wk0 = workload wk" "wk_calls wk0 = wk_calls wk"
    using assms(1,2) by (simp_all add: wk0_def conn_ok_def)
  obtain n m cs1 where r: "receive_with_retry (remote env) Message_default (current_client wk0) (wk_calls wk0) = (n, m, cs1)"
    by (metis prod_cases3)
  obtain fd where cs1: "cs1 = wk_calls wk @ [Receive fd m n]" "0 < n \<longrightarrow> receive_result (remote env) (length (wk_calls wk0)) = (n, m)"
    using conn_receive[OF wk0(2) r] wk0(4) by auto
  define wk1 where "wk1 = wk0\<lparr>wk_calls := cs1\<rparr>"
  have wk1: "worker_inv wk1" "conn_ok wk1" "workload wk1 = workload wk" using wk0 by (simp_all add: wk1_def conn_ok_def)
  show ?thesis
  proof (cases "0 < n \<and> m_type m = ASSIGN")
    case False
    have "wk_network_round env wk = Some wk1 \<or> wk_network_round env wk = Some (wk1\<lparr>wk_running := False\<rparr>)"
      using poll r False by (auto simp: wk_network_round_def Let_def wk1_def simp flip: wk0_def)
    then show ?thesis
      using wk1 cs1(1) False receive_ids[of fd m n]
      by (auto simp: wk1_def conn_ok_def conserved_def intro!: exI[of _ "[Receive fd m n]"])
  next
    case True
    have "known_type (assign m)" using assms(4) cs1(2) True by (metis snd_conv)
    moreover have "has_space wk1 0"
      using workload_space[OF wk1(1)] assms(3) wk1(1,3) by (simp add: worker_inv_def WORKER_QUEUE_CAPACITY_def)
    ultimately obtain wk2 where a: "assign_push env (assign m) 0 wk1 = Some wk2" "dispatched (assign m) wk1 wk2"
      using assign_push_ok[OF wk1(1), of "assign m" 0 0 env] wk1(1) by (auto simp: worker_inv_def)
    define wk3 where "wk3 = wk2\<lparr>next_worker := (next_worker wk2 + 1) mod num_workers wk2\<rparr>"
    have wk3: "worker_inv wk3" "conn_ok wk3" "workload wk3 = add_mset (am_task_id (assign m)) (workload wk)"
      "wk_calls wk3 = wk_calls wk @ [Receive fd m n]"
      using a(2) wk1 cs1(1) worker_inv_next[of wk2] 
      by (auto simp: wk3_def dispatched_def same_network_def conn_ok_def wk1_def worker_inv_def queued_tasks_def)
    have round: "wk_network_round env wk = Some (report_phase env wk3)"
      using poll r True a(1) by (simp add: wk_network_round_def Let_def wk1_def wk3_def flip: wk0_def)
    show ?thesis
      using report_conserves[OF wk3(1,2,4) receive_ids(1,2), of env] round wk3(3) True receive_ids(3)[of fd m n]
      by auto
  qed
qed


text \<open>A worker with two threads that has just registered; a synthetic task arrives.\<close>

definition two_threads :: Worker where
  "two_threads = (Worker_new (''127.0.0.1'', 9000) 2 0)\<lparr>wk_running := True, wk_connection := Some \<lparr>sock_fd = 5\<rparr>\<rparr>"

definition assign_env :: WorkerEnv where
  "assign_env = \<lparr>remote = \<lparr>connect_result = \<lambda>_. 5, send_result_at = \<lambda>_. 20,
       receive_result = \<lambda>_. (20, (Message_new ASSIGN)\<lparr>assign := AssignMsg_default\<lparr>am_task_id := 7\<rparr>\<rparr>)\<rparr>,
     clock_at = of_nat, poll_result = \<lambda>_. (True, False, True), exec_at = \<lambda>_. [(0, 1, 2), (1, 3, 4)]\<rparr>"

lemma nth_replicate_contents: "concat (map contents (replicate n (SPSCQueue_init d WORKER_QUEUE_CAPACITY))) = []"
  by (induction n) (simp_all add: SPSCQueue_init_inv power_of_2_capacities del: length_contents)

lemma Worker_new_inv: "0 < n \<Longrightarrow> worker_inv (Worker_new addr n now) \<and> workload (Worker_new addr n now) = {#}"
proof -
  assume n: "0 < n"
  have "concat (map (case_option [] (\<lambda>r. [r])) (replicate n None)) = ([] :: CompleteMsg list)" by (induction n) simp_all
  then show ?thesis
    using n by (simp add: worker_inv_def workload_def Worker_new_def queued_tasks_def held_responses_def ready_responses_def
        nth_replicate_contents SPSCQueue_init_inv power_of_2_capacities del: length_contents)
qed


end
