(* ===== verification/Worker_Answers.thy ===== *)
theory Worker_Answers
  imports Worker_Process
begin

text \<open>
  What a worker process tells the coordinator: every completion it sends is the outcome of
  executing an assignment that it has received before. This is what the coordinator relies on
  (\<open>honest\<close> in the theory of the cluster).
\<close>

subsection \<open>Answers in a trace of calls\<close>

fun assignment_of :: "rpc_call \<Rightarrow> AssignMsg list" where
  "assignment_of (Receive fd m n) = (if n > 0 \<and> m_type m = ASSIGN then [assign m] else [])"
| "assignment_of _ = []"

definition received :: "rpc_call list \<Rightarrow> AssignMsg set" where
  "received cs = set (concat (map assignment_of cs))"

definition outcomes :: "AssignMsg set \<Rightarrow> CompleteMsg set" where
  "outcomes A = {execute_task started completed a | a started completed. a \<in> A}"

fun truthful :: "AssignMsg set \<Rightarrow> rpc_call \<Rightarrow> bool" where
  "truthful A (Send fd m n) = (m_type m = COMPLETE \<longrightarrow> complete m \<in> outcomes A)"
| "truthful A _ = True"

fun answered_from :: "AssignMsg set \<Rightarrow> rpc_call list \<Rightarrow> bool" where
  "answered_from A [] = True"
| "answered_from A (c # cs) = (truthful A c \<and> answered_from (A \<union> set (assignment_of c)) cs)"

lemma received_append [simp]: "received (cs @ ds) = received cs \<union> received ds"
  by (simp add: received_def)

lemma answered_append [simp]:
  "answered_from A (cs @ ds) \<longleftrightarrow> answered_from A cs \<and> answered_from (A \<union> received cs) ds"
  by (induction cs arbitrary: A) (auto simp: received_def Un_assoc)

lemma outcomes_mono: "A \<subseteq> B \<Longrightarrow> outcomes A \<subseteq> outcomes B"
  by (auto simp: outcomes_def)

text \<open>Calls that report nothing.\<close>

fun silent :: "rpc_call \<Rightarrow> bool" where
  "silent (Send fd m n) = (m_type m \<noteq> COMPLETE)"
| "silent _ = True"

lemma silent_answered: "\<forall>c\<in>set cs. silent c \<Longrightarrow> answered_from A cs"
proof (induction cs arbitrary: A)
  case (Cons c cs)
  then show ?case by (cases c) simp_all
qed simp

subsection \<open>What is inside the process\<close>

definition store :: "nat \<Rightarrow> AssignMsg set \<Rightarrow> Worker \<Rightarrow> bool" where
  "store N A wk \<longleftrightarrow> num_workers wk = N \<and> length (response_queues wk) = num_workers wk \<and> length (task_queues wk) = num_workers wk \<and>
     length (in_hand wk) = num_workers wk \<and>
     (\<forall>q\<in>set (task_queues wk). spsc_inv q \<and> set (contents q) \<subseteq> A) \<and>
     (\<forall>q\<in>set (response_queues wk). spsc_inv q \<and> set (contents q) \<subseteq> outcomes A) \<and>
     (\<forall>h\<in>set (in_hand wk). set_option h \<subseteq> outcomes A)"

lemma store_upd [simp]:
  "store N A (wk\<lparr>next_worker := j\<rparr>) = store N A wk" "store N A (wk\<lparr>last_start := j\<rparr>) = store N A wk"
  "store N A (wk\<lparr>wk_calls := cs\<rparr>) = store N A wk" "store N A (wk\<lparr>wk_running := b\<rparr>) = store N A wk"
  "store N A (wk\<lparr>steps := k\<rparr>) = store N A wk" "store N A (wk\<lparr>wk_last_heartbeat_ns := now\<rparr>) = store N A wk"
  "store N A (wk\<lparr>wk_connection := c\<rparr>) = store N A wk" "store N A (wk\<lparr>wk_id := i\<rparr>) = store N A wk"
  by (simp_all add: store_def)

lemma store_mono: "store N A wk \<Longrightarrow> A \<subseteq> B \<Longrightarrow> store N B wk"
  using outcomes_mono[of A B] unfolding store_def by (meson subset_trans)

lemma ball_update: "(\<forall>x\<in>set xs. P x) \<Longrightarrow> P y \<Longrightarrow> \<forall>x\<in>set (xs[i := y]). P x"
  using set_update_subset_insert[of xs i y] by blast

lemma store_task:
  assumes "store N A wk" and "spsc_inv q" and "set (contents q) \<subseteq> A"
  shows "store N A (wk\<lparr>task_queues := (task_queues wk)[i := q]\<rparr>)"
proof -
  have "\<forall>q\<in>set ((task_queues wk)[i := q]). spsc_inv q \<and> set (contents q) \<subseteq> A"
    using assms by (intro ball_update) (simp_all add: store_def)
  then show ?thesis using assms(1) by (simp add: store_def)
qed

lemma store_response:
  assumes "store N A wk" and "spsc_inv q" and "set (contents q) \<subseteq> outcomes A"
  shows "store N A (wk\<lparr>response_queues := (response_queues wk)[i := q]\<rparr>)"
proof -
  have "\<forall>q\<in>set ((response_queues wk)[i := q]). spsc_inv q \<and> set (contents q) \<subseteq> outcomes A"
    using assms by (intro ball_update) (simp_all add: store_def)
  then show ?thesis using assms(1) by (simp add: store_def)
qed

lemma store_hand:
  assumes "store N A wk" and "set_option h \<subseteq> outcomes A"
  shows "store N A (wk\<lparr>in_hand := (in_hand wk)[i := h]\<rparr>)"
proof -
  have "\<forall>h\<in>set ((in_hand wk)[i := h]). set_option h \<subseteq> outcomes A"
    using assms by (intro ball_update) (simp_all add: store_def)
  then show ?thesis using assms(1) by (simp add: store_def)
qed

lemma execute_outcome: "a \<in> A \<Longrightarrow> execute_task started completed a \<in> outcomes A"
  by (auto simp: outcomes_def)

lemma exec_step_store:
  assumes "store N A wk"
  shows "store N A (exec_step st wk) \<and> wk_calls (exec_step st wk) = wk_calls wk \<and> num_workers (exec_step st wk) = num_workers wk"
proof -
  obtain i a b where st: "st = (i, a, b)" by (cases st)
  show ?thesis
  proof (cases "i < length (task_queues wk)")
    case False
    then show ?thesis using assms by (simp add: exec_step_def st)
  next
    case True
    then have mem: "task_queues wk ! i \<in> set (task_queues wk)" "response_queues wk ! i \<in> set (response_queues wk)"
      "in_hand wk ! i \<in> set (in_hand wk)"
      using assms by (simp_all add: store_def)
    show ?thesis
    proof (cases "in_hand wk ! i")
      case None
      have "set (contents q) \<subseteq> A \<and> spsc_inv q \<and> t \<in> A" if "try_pop (task_queues wk ! i) = Some (t, q)" for t q
        using spsc.pop_Some[OF _ that] assms mem(1) by (fastforce simp: store_def)
      then show ?thesis
        using assms None True store_hand[OF store_task[OF assms]]
        by (auto simp: exec_step_def st execute_outcome split: option.split)
    next
      case (Some r)
      have "r \<in> outcomes A" using Some mem(3) assms by (fastforce simp: store_def)
      then have "set (contents q) \<subseteq> outcomes A \<and> spsc_inv q" if "try_push r (response_queues wk ! i) = Some q" for q
        using spsc.push_Some[OF _ that] assms mem(2) by (fastforce simp: store_def)
      then show ?thesis
        using assms Some True store_hand[OF store_response[OF assms]] by (auto simp: exec_step_def st split: option.split)
    qed
  qed
qed

lemma exec_turn_store:
  assumes "store N A wk"
  shows "store N A (exec_turn env wk) \<and> wk_calls (exec_turn env wk) = wk_calls wk \<and> num_workers (exec_turn env wk) = num_workers wk"
proof -
  have "store N A (fold exec_step sts wk') \<and> wk_calls (fold exec_step sts wk') = wk_calls wk' \<and>
      num_workers (fold exec_step sts wk') = num_workers wk'" if "store N A wk'" for sts wk'
    using that by (induction sts arbitrary: wk') (simp_all add: exec_step_store)
  then show ?thesis using assms by (simp add: exec_turn_def)
qed

definition answers_inv :: "nat \<Rightarrow> Worker \<Rightarrow> bool" where
  "answers_inv N wk \<longleftrightarrow> store N (received (wk_calls wk)) wk \<and> answered_from {} (wk_calls wk)"

lemma answers_invD: "answers_inv N wk \<Longrightarrow> store N (received (wk_calls wk)) wk"
  by (simp add: answers_inv_def)

lemma answers_upd [simp]:
  "answers_inv N (wk\<lparr>next_worker := j\<rparr>) = answers_inv N wk" "answers_inv N (wk\<lparr>last_start := j\<rparr>) = answers_inv N wk"
  "answers_inv N (wk\<lparr>wk_running := b\<rparr>) = answers_inv N wk" "answers_inv N (wk\<lparr>steps := k\<rparr>) = answers_inv N wk"
  "answers_inv N (wk\<lparr>wk_last_heartbeat_ns := now\<rparr>) = answers_inv N wk" "answers_inv N (wk\<lparr>wk_connection := c\<rparr>) = answers_inv N wk"
  "answers_inv N (wk\<lparr>wk_id := i\<rparr>) = answers_inv N wk"
  by (simp_all add: answers_inv_def)

lemma answers_calls:
  assumes "answers_inv N wk" and "cs = wk_calls wk @ ds" and "\<forall>c\<in>set ds. silent c"
  shows "answers_inv N (wk\<lparr>wk_calls := cs\<rparr>)"
  using assms store_mono[OF answers_invD[OF assms(1)]] silent_answered[OF assms(3)] by (simp add: answers_inv_def)

lemma exec_turn_answers: "answers_inv N wk \<Longrightarrow> answers_inv N (exec_turn env wk)"
  using exec_turn_store[of N "received (wk_calls wk)" wk env] by (simp add: answers_inv_def)

subsection \<open>The network thread\<close>

lemma send_extends:
  assumes "send_with_retry w m c cs = (n, cs')"
  shows "\<exists>ds. cs' = cs @ ds \<and> (\<forall>d\<in>set ds. \<exists>fd. d = Send fd m n)"
  using assms by (auto simp: send_with_retry_def Let_def split: if_splits)

lemma receive_extends:
  assumes "receive_with_retry w old c cs = (n, m, cs')"
  shows "\<exists>ds. cs' = cs @ ds \<and> (\<forall>d\<in>set ds. silent d) \<and>
    (0 < n \<and> m_type m = ASSIGN \<longrightarrow> assign m \<in> received cs')"
  using assms by (auto simp: receive_with_retry_def received_def Let_def split: if_splits prod.splits)

lemma close_extends:
  assumes "close_connection c cs = (c', cs')"
  shows "\<exists>ds. cs' = cs @ ds \<and> (\<forall>d\<in>set ds. silent d)"
  using assms by (auto simp: close_connection_def split: if_splits)

lemma connect_extends:
  assumes "Client_connect w addr c cs = (ok, c', cs')"
  shows "\<exists>ds. cs' = cs @ ds \<and> (\<forall>d\<in>set ds. silent d)"
  using assms by (auto simp: Client_connect_def close_connection_def Let_def split: if_splits)

lemma send_silent:
  assumes "answers_inv N wk" and "send_with_retry w m c (wk_calls wk) = (n, cs)" and "m_type m \<noteq> COMPLETE"
  shows "answers_inv N (wk\<lparr>wk_calls := cs\<rparr>)"
proof -
  obtain ds where ds: "cs = wk_calls wk @ ds" "\<forall>d\<in>set ds. \<exists>fd. d = Send fd m n" using send_extends[OF assms(2)] by blast
  have "\<forall>d\<in>set ds. silent d" using ds(2) assms(3) by fastforce
  then show ?thesis by (rule answers_calls[OF assms(1) ds(1)])
qed

lemma receive_silent:
  assumes "answers_inv N wk" and "receive_with_retry w old c (wk_calls wk) = (n, m, cs)"
  shows "answers_inv N (wk\<lparr>wk_calls := cs\<rparr>)"
  using receive_extends[OF assms(2)] answers_calls[OF assms(1)] by blast

lemma drop_connection_answers:
  assumes "answers_inv N wk"
  shows "answers_inv N (drop_connection wk)"
proof (cases "wk_connection wk")
  case (Some c)
  obtain c' cs where c: "close_connection c (wk_calls wk) = (c', cs)" by fastforce
  have "answers_inv N (wk\<lparr>wk_calls := cs\<rparr>)" using close_extends[OF c] answers_calls[OF assms] by blast
  then show ?thesis using Some c by (simp add: drop_connection_def answers_inv_def)
qed (simp add: assms drop_connection_def)

lemma register_answers:
  assumes "answers_inv N wk" and "register_with_server env c wk = (ok, wk')"
  shows "answers_inv N wk'"
proof -
  obtain n cs where s: "send_with_retry (remote env) (Message_new REGISTER) c (wk_calls wk) = (n, cs)" by fastforce
  define wk1 where "wk1 = wk\<lparr>wk_calls := cs\<rparr>"
  have wk1: "answers_inv N wk1" using send_silent[OF assms(1) s] by (simp add: wk1_def Message_new_def)
  obtain k ack ds where r: "receive_with_retry (remote env) Message_default c (wk_calls wk1) = (k, ack, ds)" by (metis prod_cases3)
  have "answers_inv N (wk1\<lparr>wk_calls := ds\<rparr>)" by (rule receive_silent[OF wk1 r])
  then show ?thesis
    using assms(2) s r wk1 by (auto simp: register_with_server_def Let_def wk_now_def wk1_def split: if_splits)
qed

lemma connect_loop_answers:
  assumes "answers_inv N wk" and "connect_loop env n wk = (ok, wk')"
  shows "answers_inv N wk'"
  using assms
proof (induction n arbitrary: wk)
  case 0
  then show ?case using drop_connection_answers by auto
next
  case (Suc n)
  define wk1 where "wk1 = drop_connection wk"
  have wk1: "answers_inv N wk1" using drop_connection_answers[OF Suc.prems(1)] by (simp add: wk1_def)
  obtain up c cs where cn: "Client_connect (remote env) (coordinator_address wk1) Client_new (wk_calls wk1) = (up, c, cs)"
    by (metis prod_cases3)
  have "answers_inv N (wk1\<lparr>wk_calls := cs\<rparr>)" using connect_extends[OF cn] answers_calls[OF wk1] by blast
  then have wk2: "answers_inv N (wk1\<lparr>wk_connection := Some c, wk_calls := cs\<rparr>)" by (simp add: answers_inv_def)
  obtain ok3 wk3 where r: "register_with_server env c (wk1\<lparr>wk_connection := Some c, wk_calls := cs\<rparr>) = (ok3, wk3)" by fastforce
  have "answers_inv N wk3" by (rule register_answers[OF wk2 r])
  then show ?case
    using Suc.prems(2) Suc.IH wk2 cn r by (auto simp: Let_def simp flip: wk1_def split: if_splits)
qed

lemma assign_push_answers:
  assumes "assign_push env task retry wk = Some wk'" and "answers_inv N wk" and "task \<in> received (wk_calls wk)"
  shows "answers_inv N wk'"
proof -
  have "answers_inv N wk \<longrightarrow> task \<in> received (wk_calls wk) \<longrightarrow> answers_inv N wk'"
  proof (rule assign_push.raw_induct[where P = "\<lambda>env task retry wk r. answers_inv N wk \<longrightarrow>
        task \<in> received (wk_calls wk) \<longrightarrow> answers_inv N r", OF _ assms(1)], intro impI)
    fix rec env task retry wk r
    assume IH: "\<And>env task retry wk r. rec env task retry wk = Some r \<Longrightarrow>
        answers_inv N wk \<longrightarrow> task \<in> received (wk_calls wk) \<longrightarrow> answers_inv N r"
      and body: "(let wk = exec_turn env wk in
         if next_worker wk < length (task_queues wk) then
           (case try_push task (task_queues wk ! next_worker wk) of
              None \<Rightarrow>
                if retry + 1 > QUEUE_RETRY_COUNT
                then rec env task 0 (wk\<lparr>next_worker := (next_worker wk + 1) mod num_workers wk\<rparr>)
                else rec env task (retry + 1) wk
            | Some q \<Rightarrow> Some (wk\<lparr>task_queues := (task_queues wk)[next_worker wk := q]\<rparr>))
         else None) = Some r"
      and wk: "answers_inv N wk" and t: "task \<in> received (wk_calls wk)"
    define wk1 where "wk1 = exec_turn env wk"
    have wk1: "answers_inv N wk1" "task \<in> received (wk_calls wk1)"
      using exec_turn_answers[OF wk] exec_turn_store[OF answers_invD[OF wk]] t by (simp_all add: wk1_def)
    show "answers_inv N r"
    proof (cases "try_push task (task_queues wk1 ! next_worker wk1)")
      case None
      then show ?thesis using body IH wk1 by (auto simp: Let_def simp flip: wk1_def split: if_splits)
    next
      case (Some q)
      have i: "next_worker wk1 < length (task_queues wk1)" and r: "r = wk1\<lparr>task_queues := (task_queues wk1)[next_worker wk1 := q]\<rparr>"
        using body Some by (auto simp: Let_def simp flip: wk1_def split: if_splits)
      have "spsc_inv q \<and> set (contents q) \<subseteq> received (wk_calls wk1)"
        using spsc.push_Some[OF _ Some] nth_mem[OF i] answers_invD[OF wk1(1)] wk1(2) by (fastforce simp: store_def)
      then show ?thesis using store_task[OF answers_invD[OF wk1(1)]] wk1(1) r by (simp add: answers_inv_def)
    qed
  qed
  then show ?thesis using assms(2,3) by blast
qed

lemma pop_response_answers:
  assumes inv: "answers_inv N wk" and i: "i < num_workers wk" and pop: "try_pop (response_queues wk ! i) = Some (r, q)"
    and send: "send_with_retry w (complete_message r) c (wk_calls wk) = (n, cs)"
  shows "answers_inv N (wk\<lparr>response_queues := (response_queues wk)[i := q], wk_calls := cs\<rparr>)"
proof -
  let ?A = "received (wk_calls wk)"
  have "response_queues wk ! i \<in> set (response_queues wk)" using answers_invD[OF inv] i by (simp add: store_def)
  then have q: "spsc_inv q" "set (contents q) \<subseteq> outcomes ?A" "r \<in> outcomes ?A"
    using spsc.pop_Some[OF _ pop] answers_invD[OF inv] by (fastforce simp: store_def)+
  obtain ds where ds: "cs = wk_calls wk @ ds" "\<forall>d\<in>set ds. \<exists>fd. d = Send fd (complete_message r) n"
    using send_extends[OF send] by blast
  have "answered_from ?A ds \<and> received ds = {}"
    using ds(2) q(3)
  proof (induction ds)
    case (Cons d ds)
    then show ?case by (auto simp: complete_message_def Message_new_def received_def)
  qed (simp add: received_def)
  then show ?thesis
    using store_response[OF answers_invD[OF inv] q(1,2)] inv ds(1) by (simp add: answers_inv_def)
qed

lemma send_responses_answers:
  assumes "answers_inv N wk" and "i < num_workers wk" and "send_responses env b i wk = (ok, sent, wk')"
  shows "answers_inv N wk' \<and> num_workers wk' = num_workers wk"
  using assms
proof (induction b arbitrary: wk sent ok wk')
  case (Suc b)
  define wk1 where "wk1 = exec_turn env wk"
  have wk1: "answers_inv N wk1" "num_workers wk1 = num_workers wk"
    using exec_turn_answers[OF Suc.prems(1)] exec_turn_store[OF answers_invD[OF Suc.prems(1)]] by (simp_all add: wk1_def)
  show ?case
  proof (cases "try_pop (response_queues wk1 ! i)")
    case None
    then show ?thesis using Suc.prems(3) wk1 by (simp add: Let_def flip: wk1_def)
  next
    case (Some p)
    obtain r q where p: "try_pop (response_queues wk1 ! i) = Some (r, q)" using Some by (cases p) simp
    define c where "c = current_client (wk1\<lparr>response_queues := (response_queues wk1)[i := q]\<rparr>)"
    obtain n cs where s: "send_with_retry (remote env) (complete_message r) c (wk_calls wk1) = (n, cs)"
      by fastforce
    define wk2 where "wk2 = wk1\<lparr>response_queues := (response_queues wk1)[i := q], wk_calls := cs\<rparr>"
    have wk2: "answers_inv N wk2" "num_workers wk2 = num_workers wk"
      using pop_response_answers[OF wk1(1) _ p s] Suc.prems(2) wk1(2) by (simp_all add: wk2_def)
    obtain ok3 sent3 wk3 where t: "send_responses env b i wk2 = (ok3, sent3, wk3)" by (metis prod_cases3)
    have "answers_inv N wk3 \<and> num_workers wk3 = num_workers wk" using Suc.IH[OF wk2(1) _ t] Suc.prems(2) wk2(2) by simp
    then show ?thesis
      using Suc.prems(3) p s t wk2 by (auto simp: Let_def wk2_def c_def simp flip: wk1_def split: if_splits)
  qed
qed simp

lemma response_loop_answers:
  assumes "answers_inv N wk" and "0 < num_workers wk" and "response_loop env ks start sent wk = (ok, sent', wk')"
  shows "answers_inv N wk'"
  using assms
proof (induction ks arbitrary: wk sent)
  case (Cons k ks)
  let ?i = "(start + k) mod num_workers wk" and ?cap = "min WORKER_OUT_PER_THREAD_CAP (WORKER_OUT_BUDGET - sent)"
  obtain ok1 n1 wk1 where s: "send_responses env ?cap ?i wk = (ok1, n1, wk1)" by (metis prod_cases3)
  have "answers_inv N wk1" "num_workers wk1 = num_workers wk"
    using send_responses_answers[OF Cons.prems(1) _ s] Cons.prems(2) by simp_all
  then show ?case using Cons s by (auto simp: Let_def split: if_splits)
qed simp

lemma send_heartbeat_answers:
  assumes "answers_inv N wk"
  shows "answers_inv N (send_heartbeat env wk)"
proof -
  let ?wk = "wk\<lparr>steps := Suc (steps wk)\<rparr>"
  obtain n cs where s: "send_with_retry (remote env) (heartbeat_message (wk_id wk)) (current_client ?wk) (wk_calls wk) = (n, cs)"
    by fastforce
  have "answers_inv N (wk\<lparr>wk_calls := cs\<rparr>)"
    by (rule send_silent[OF assms s]) (simp add: heartbeat_message_def Message_new_def)
  then show ?thesis using assms s by (auto simp: send_heartbeat_def wk_now_def Let_def answers_inv_def)
qed

lemma report_phase_answers:
  assumes "answers_inv N wk"
  shows "answers_inv N (report_phase env wk)"
proof (cases "0 < num_workers wk")
  case True
  obtain ok n wk1 where l: "response_loop env [0..<num_workers wk] (last_start wk) 0 wk = (ok, n, wk1)" by (metis prod_cases3)
  have "answers_inv N wk1" by (rule response_loop_answers[OF assms True l])
  then show ?thesis using l by (simp add: report_phase_def Let_def send_heartbeat_answers)
qed (simp add: assms report_phase_def Let_def send_heartbeat_answers)

lemma round_answers:
  assumes "answers_inv N wk" and "wk_network_round env wk = Some wk'"
  shows "answers_inv N wk'"
proof -
  define wk0 where "wk0 = wk\<lparr>steps := Suc (steps wk)\<rparr>"
  have wk0: "answers_inv N wk0" using assms(1) by (simp add: wk0_def)
  obtain ok wk1 where c: "connect env wk0 = (ok, wk1)" by fastforce
  have wk1: "answers_inv N wk1" using connect_loop_answers[OF wk0] c by (simp add: connect_def)
  obtain n m cs where r: "receive_with_retry (remote env) Message_default (current_client wk0) (wk_calls wk0) = (n, m, cs)"
    by (metis prod_cases3)
  define wk2 where "wk2 = wk0\<lparr>wk_calls := cs\<rparr>"
  have wk2: "answers_inv N wk2" "0 < n \<and> m_type m = ASSIGN \<longrightarrow> assign m \<in> received (wk_calls wk2)"
    using receive_silent[OF wk0 r] receive_extends[OF r] by (auto simp: wk2_def)
  have push: "answers_inv N wk3" if "assign_push env (assign m) 0 wk2 = Some wk3" "0 < n" "m_type m = ASSIGN" for wk3
    using assign_push_answers[OF that(1) wk2(1)] wk2(2) that by blast
  show ?thesis
    using assms(2) c wk0 wk1 r wk2(1) push
    by (auto simp: wk_network_round_def Let_def wk2_def report_phase_answers simp flip: wk0_def split: prod.splits if_splits bind_splits)
qed

lemma loop_answers: "answers_inv N wk \<Longrightarrow> wk_network_loop env n wk = Some wk' \<Longrightarrow> answers_inv N wk'"
  by (induction n arbitrary: wk) (auto split: if_splits bind_splits intro: round_answers)

lemma Worker_new_answers: "answers_inv k (Worker_new addr k now)"
  by (simp add: answers_inv_def store_def Worker_new_def SPSCQueue_init_inv power_of_2_capacities received_def del: length_contents)

lemma run_answers:
  assumes "wk_run env n (Worker_new addr k now) = Some wk"
  shows "answers_inv k wk"
proof -
  obtain ok wk1 where c: "connect env ((Worker_new addr k now)\<lparr>wk_running := True\<rparr>) = (ok, wk1)" by fastforce
  have wk1: "answers_inv k wk1" using connect_loop_answers[OF _ c[unfolded connect_def]] Worker_new_answers by simp
  show ?thesis
    using assms c wk1 loop_answers[OF wk1] by (auto simp: wk_run_def wk_network_worker_def split: if_splits)
qed

lemma received_call:
  assumes "a \<in> received cs"
  shows "\<exists>fd m len. Receive fd m len \<in> set cs \<and> 0 < len \<and> m_type m = ASSIGN \<and> a = assign m"
proof -
  obtain d where "d \<in> set cs" "a \<in> set (assignment_of d)" using assms by (auto simp: received_def)
  then show ?thesis by - (cases d, auto split: if_splits)
qed

lemma sent_answer:
  assumes "answers_inv N wk" and "wk_calls wk = pre @ Send fd m r # post" and "m_type m = COMPLETE"
  shows "\<exists>src a len started completed. Receive src a len \<in> set pre \<and> 0 < len \<and> m_type a = ASSIGN \<and>
    complete m = execute_task started completed (assign a)"
proof -
  have "complete m \<in> outcomes (received pre)" using assms by (simp add: answers_inv_def)
  then show ?thesis unfolding outcomes_def using received_call by blast
qed

text \<open>
  A worker is honest. In every run of the process, with any number of rounds, whatever the
  network, the clock and the execution threads do, and however often it reconnects, every
  completion that is sent is the outcome of executing an assignment that was received before.
\<close>

theorem worker_answers_assignments:
  assumes "wk_run env n (Worker_new addr k now) = Some wk" and "wk_calls wk = pre @ Send fd m r # post"
    and "m_type m = COMPLETE"
  shows "\<exists>src a len started completed. Receive src a len \<in> set pre \<and> 0 < len \<and> m_type a = ASSIGN \<and>
    complete m = execute_task started completed (assign a)"
  by (rule sent_answer[OF run_answers[OF assms(1)] assms(2,3)])

text \<open>A worker with two threads registers, receives a text, counts its words and reports.\<close>

definition answer_assign :: AssignMsg where
  "answer_assign = \<lparr>am_task_id = 7, am_duration_us = 0, am_type = WORD_COUNT, am_words = ''to be or not''\<rparr>"

definition answer_env :: WorkerEnv where
  "answer_env = \<lparr>remote = \<lparr>connect_result = \<lambda>_. 5, send_result_at = \<lambda>_. 20,
       receive_result = \<lambda>k. (20, if k = 2 then Message_new ACKNOWLEDGE
         else (Message_new ASSIGN)\<lparr>assign := answer_assign\<rparr>)\<rparr>,
     clock_at = of_nat, poll_result = \<lambda>_. (True, False, True), exec_at = \<lambda>_. [(0, 1, 2), (0, 1, 2)]\<rparr>"

declare assign_push.simps [code]

lemma answer_run:
  "map_option (\<lambda>wk. map completed_of (wk_calls wk)) (wk_run answer_env 1 (Worker_new (''127.0.0.1'', 9000) 2 0)) =
     Some [[], [], [], [], [7]]"
  by code_simp

lemma answer_received:
  "map_option (\<lambda>wk. map assignment_of (wk_calls wk)) (wk_run answer_env 1 (Worker_new (''127.0.0.1'', 9000) 2 0)) =
     Some [[], [], [], [answer_assign], []]"
  by code_simp

theorem worker_answers_assignments_witness:
  "\<exists>wk pre fd m r src a len started completed.
     wk_run answer_env 1 (Worker_new (''127.0.0.1'', 9000) 2 0) = Some wk \<and> wk_calls wk = pre @ [Send fd m r] \<and>
     m_type m = COMPLETE \<and> Receive src a len \<in> set pre \<and> m_type a = ASSIGN \<and> com_task_id (complete m) = 7 \<and>
     complete m = execute_task started completed (assign a)"
proof -
  obtain wk where wk: "wk_run answer_env 1 (Worker_new (''127.0.0.1'', 9000) 2 0) = Some wk"
    "map completed_of (wk_calls wk) = [[], [], [], []] @ [[7]]"
    using answer_run by (auto simp del: One_nat_def)
  then obtain pre d where d: "wk_calls wk = pre @ [d]" "completed_of d = [7]" by (auto simp: map_eq_append_conv)
  obtain fd m r where s: "d = Send fd m r" "m_type m = COMPLETE" "com_task_id (complete m) = 7"
    using d(2) by (cases d) (auto split: if_splits)
  have calls: "wk_calls wk = pre @ Send fd m r # []" using d(1) s(1) by simp
  show ?thesis
    using worker_answers_assignments[OF wk(1) calls s(2)] wk(1) d(1) s by blast
qed

end
