(* ===== verification/Sockets.thy ===== *)
theory Sockets
  imports Buffer Config
begin

text \<open>
  How sockets come into being: \<^verbatim>\<open>connect_to_server\<close> and \<^verbatim>\<open>create_listening_socket\<close> of
  \<^verbatim>\<open>src/net/net_utils.cpp\<close>, and the accept loop of the router (\<^verbatim>\<open>Router::run\<close> and \<^verbatim>\<open>Router::stop\<close> of
  \<^verbatim>\<open>src/router/router.cpp\<close>).

  The functions extend a trace of system calls. The results of the calls are a parameter
  (\<open>Kernel\<close>), as functions of the calls made before; the only law they are assumed to have is that a
  new descriptor is not one that is open.
\<close>

subsection \<open>System calls\<close>

datatype sock_opt = SO_RCVTIMEO int int | SO_SNDTIMEO int int | SO_REUSEADDR int | TCP_NODELAY int

record sockaddr_in =
  sin_family :: int
  sin_port :: u16
  sin_addr :: u32

definition AF_INET :: int where
  "AF_INET = 2"

definition INADDR_ANY :: u32 where
  "INADDR_ANY = 0"

datatype sys_call =
    Sys_socket int
  | Sys_setsockopt int sock_opt
  | Sys_connect int sockaddr_in int
  | Sys_bind int sockaddr_in int
  | Sys_listen int int int
  | Sys_accept int int
  | Sys_close int

record Kernel =
  socket_result :: "sys_call list \<Rightarrow> int"
  inet_pton :: "string \<Rightarrow> u32 option"
  connecting :: "sys_call list \<Rightarrow> int"
  binding :: "sys_call list \<Rightarrow> int"
  listening :: "sys_call list \<Rightarrow> int"
  accepting :: "sys_call list \<Rightarrow> int"

definition connect_to_server :: "Kernel \<Rightarrow> string \<Rightarrow> u16 \<Rightarrow> sys_call list \<Rightarrow> int \<times> sys_call list" where
  "connect_to_server k ip port cs = (let
     sock_fd = socket_result k cs;
     cs = cs @ [Sys_socket sock_fd]
   in if sock_fd < 0 then (-1, cs) else let
     cs = cs @ [Sys_setsockopt sock_fd (SO_RCVTIMEO 0 SOCKET_TIMEOUT_US),
       Sys_setsockopt sock_fd (SO_SNDTIMEO 0 SOCKET_TIMEOUT_US)]
   in case inet_pton k ip of
     None \<Rightarrow> (-1, cs @ [Sys_close sock_fd])
   | Some a \<Rightarrow> let
       r = connecting k cs;
       cs = cs @ [Sys_connect sock_fd \<lparr>sin_family = AF_INET, sin_port = htons host_order port, sin_addr = a\<rparr> r]
     in if r < 0 then (-1, cs @ [Sys_close sock_fd])
        else (sock_fd, cs @ [Sys_setsockopt sock_fd (TCP_NODELAY 1)]))"

definition create_listening_socket :: "Kernel \<Rightarrow> u16 \<Rightarrow> nat \<Rightarrow> sys_call list \<Rightarrow> int \<times> sys_call list" where
  "create_listening_socket k port backlog cs = (let
     sock_fd = socket_result k cs;
     cs = cs @ [Sys_socket sock_fd]
   in if sock_fd < 0 then (-1, cs) else let
     cs = cs @ [Sys_setsockopt sock_fd (SO_REUSEADDR 1)];
     r = binding k cs;
     cs = cs @ [Sys_bind sock_fd \<lparr>sin_family = AF_INET, sin_port = htons host_order port, sin_addr = INADDR_ANY\<rparr> r]
   in if r < 0 then (-1, cs @ [Sys_close sock_fd]) else let
     r = listening k cs;
     cs = cs @ [Sys_listen sock_fd (sint (of_nat backlog :: u32)) r]
   in if r < 0 then (-1, cs @ [Sys_close sock_fd]) else (sock_fd, cs))"

subsection \<open>The router's accept loop\<close>

text \<open>
  The constructor, the loop and the destructor of the router. \<open>rp_workers\<close> has the descriptor of
  each thread that was started and whether it can still be joined. \<open>stops i\<close> says whether another
  thread calls \<^verbatim>\<open>stop\<close> before the \<open>i\<close>-th check of the loop; the program itself calls it from
  the destructor only.
\<close>

record RouterProcess =
  rp_listen_fd :: int
  rp_port :: u16
  rp_running :: bool
  rp_workers :: "(int \<times> bool) list"
  rp_calls :: "sys_call list"

definition RouterProcess_new :: "u16 \<Rightarrow> RouterProcess" where
  "RouterProcess_new port = \<lparr>rp_listen_fd = -1, rp_port = port, rp_running = False, rp_workers = [], rp_calls = []\<rparr>"

definition close_listen :: "RouterProcess \<Rightarrow> RouterProcess" where
  "close_listen p = (if rp_listen_fd p \<ge> 0 then p\<lparr>rp_calls := rp_calls p @ [Sys_close (rp_listen_fd p)]\<rparr> else p)"

text \<open>The part of \<^verbatim>\<open>stop\<close> before it waits for the threads, and the whole.\<close>

definition stop_listening :: "RouterProcess \<Rightarrow> RouterProcess" where
  "stop_listening p = close_listen (p\<lparr>rp_running := False\<rparr>)"

definition router_stop :: "RouterProcess \<Rightarrow> RouterProcess" where
  "router_stop p = (let p = stop_listening p in p\<lparr>rp_workers := map (\<lambda>(fd, joinable). (fd, False)) (rp_workers p)\<rparr>)"

definition accept_one :: "Kernel \<Rightarrow> RouterProcess \<Rightarrow> RouterProcess" where
  "accept_one k p = (let
     accepted_fd = accepting k (rp_calls p);
     p = p\<lparr>rp_calls := rp_calls p @ [Sys_accept (rp_listen_fd p) accepted_fd]\<rparr>
   in if accepted_fd < 0 then p else p\<lparr>rp_workers := rp_workers p @ [(accepted_fd, True)]\<rparr>)"

text \<open>\<open>n\<close> checks of the loop at most; the first component says whether it was left.\<close>

primrec accept_loop :: "Kernel \<Rightarrow> (nat \<Rightarrow> bool) \<Rightarrow> nat \<Rightarrow> RouterProcess \<Rightarrow> bool \<times> RouterProcess" where
  "accept_loop k stops 0 p = (False, p)"
| "accept_loop k stops (Suc n) p = (let
     p = (if stops n then stop_listening p else p)
   in if rp_running p then accept_loop k stops n (accept_one k p) else (True, p))"

definition router_run :: "Kernel \<Rightarrow> (nat \<Rightarrow> bool) \<Rightarrow> nat \<Rightarrow> RouterProcess \<Rightarrow> bool \<times> RouterProcess" where
  "router_run k stops n p = (let p = p\<lparr>rp_running := True\<rparr> in
     case create_listening_socket k (rp_port p) BACKLOG (rp_calls p) of (fd, cs) \<Rightarrow> let
       p = p\<lparr>rp_listen_fd := fd, rp_calls := cs\<rparr>
     in if fd < 0 then (True, p)
        else case accept_loop k stops n p of (left, p) \<Rightarrow> (left, if left then close_listen p else p))"

subsection \<open>Open descriptors\<close>

fun fd_effect :: "sys_call \<Rightarrow> int set \<Rightarrow> int set" where
  "fd_effect (Sys_socket fd) F = (if fd < 0 then F else insert fd F)"
| "fd_effect (Sys_accept l fd) F = (if fd < 0 then F else insert fd F)"
| "fd_effect (Sys_close fd) F = F - {fd}"
| "fd_effect _ F = F"

definition open_fds :: "int set \<Rightarrow> sys_call list \<Rightarrow> int set" where
  "open_fds F cs = fold fd_effect cs F"

lemma open_fds_simps [simp]:
  "open_fds F [] = F" "open_fds F (c # cs) = open_fds (fd_effect c F) cs"
  "open_fds F (cs @ ds) = open_fds (open_fds F cs) ds"
  by (simp_all add: open_fds_def)

text \<open>Only descriptors that are open are closed.\<close>

fun tidy :: "int set \<Rightarrow> sys_call list \<Rightarrow> bool" where
  "tidy F [] = True"
| "tidy F (c # cs) = ((case c of Sys_close fd \<Rightarrow> fd \<in> F | _ \<Rightarrow> True) \<and> tidy (fd_effect c F) cs)"

lemma tidy_append [simp]: "tidy F (cs @ ds) \<longleftrightarrow> tidy F cs \<and> tidy (open_fds F cs) ds"
  by (induction cs arbitrary: F) auto

text \<open>What a call that makes a socket owes its caller.\<close>

definition acquires :: "int set \<Rightarrow> int \<Rightarrow> sys_call list \<Rightarrow> bool" where
  "acquires G fd ds \<longleftrightarrow> tidy G ds \<and>
     (if fd < 0 then fd = -1 \<and> open_fds G ds = G else fd \<notin> G \<and> open_fds G ds = insert fd G)"

lemma connect_acquires:
  assumes "connect_to_server k ip port cs = (fd, cs')" and "socket_result k cs \<notin> G"
  shows "\<exists>ds. cs' = cs @ ds \<and> acquires G fd ds"
  using assms by (auto simp: connect_to_server_def acquires_def Let_def split: if_splits option.splits)

lemma listening_acquires:
  assumes "create_listening_socket k port backlog cs = (fd, cs')" and "socket_result k cs \<notin> G"
  shows "\<exists>ds. cs' = cs @ ds \<and> acquires G fd ds"
  using assms by (auto simp: create_listening_socket_def acquires_def Let_def split: if_splits)

text \<open>C17:
  Making a connection neither leaks a descriptor nor closes one that is not its own: on
  every failure (no descriptor left, a text that is no address, a refused connection) exactly the
  descriptors that were open before are open, on success exactly one more, the one
  returned, and then both timeouts were set before the call that could block and the address
  and the port in network byte order were those asked for.
\<close>

theorem connect_never_leaks:
  assumes "connect_to_server k ip port cs = (fd, cs')" and "socket_result k cs \<notin> G"
  shows "\<exists>ds. cs' = cs @ ds \<and> tidy G ds \<and> open_fds G ds = (if fd < 0 then G else insert fd G) \<and> (fd < 0 \<longrightarrow> fd = -1) \<and>
    (0 \<le> fd \<longrightarrow> fd \<notin> G \<and> (\<exists>a r. inet_pton k ip = Some a \<and> 0 \<le> r \<and>
       ds = [Sys_socket fd, Sys_setsockopt fd (SO_RCVTIMEO 0 500000), Sys_setsockopt fd (SO_SNDTIMEO 0 500000),
         Sys_connect fd \<lparr>sin_family = AF_INET, sin_port = htons host_order port, sin_addr = a\<rparr> r, Sys_setsockopt fd (TCP_NODELAY 1)]))"
proof -
  obtain ds where ds: "cs' = cs @ ds" "acquires G fd ds" using connect_acquires[OF assms] by blast
  moreover have "\<exists>a r. inet_pton k ip = Some a \<and> 0 \<le> r \<and>
       ds = [Sys_socket fd, Sys_setsockopt fd (SO_RCVTIMEO 0 500000), Sys_setsockopt fd (SO_SNDTIMEO 0 500000),
         Sys_connect fd \<lparr>sin_family = AF_INET, sin_port = htons host_order port, sin_addr = a\<rparr> r, Sys_setsockopt fd (TCP_NODELAY 1)]" if "0 \<le> fd"
    using assms(1) ds(1) that
    by (auto simp: connect_to_server_def SOCKET_TIMEOUT_US_def Let_def split: if_splits option.splits)
  ultimately show ?thesis by (auto simp: acquires_def split: if_splits)
qed

definition reachable_kernel :: Kernel where
  "reachable_kernel = \<lparr>socket_result = \<lambda>cs. 3 + int (length cs), inet_pton = \<lambda>ip. if ip = ''127.0.0.1'' then Some 0x7F000001 else None,
     connecting = \<lambda>_. 0, binding = \<lambda>_. 0, listening = \<lambda>_. 0, accepting = \<lambda>cs. 3 + int (length cs)\<rparr>"

theorem connect_never_leaks_witness:
  "open_fds {0, 1, 2} (snd (connect_to_server reachable_kernel ''127.0.0.1'' 9000 [])) = {0, 1, 2, 3} \<and>
   open_fds {0, 1, 2} (snd (connect_to_server reachable_kernel ''localhost'' 9000 [])) = {0, 1, 2}"
proof -
  obtain cs' where c: "connect_to_server reachable_kernel ''127.0.0.1'' 9000 [] = (3, cs')"
    by (simp add: connect_to_server_def reachable_kernel_def Let_def)
  obtain cs'' where d: "connect_to_server reachable_kernel ''localhost'' 9000 [] = (-1, cs'')"
    by (simp add: connect_to_server_def reachable_kernel_def Let_def)
  have "socket_result reachable_kernel [] \<notin> {0, 1, 2}" by (simp add: reachable_kernel_def)
  from connect_never_leaks[OF c this] connect_never_leaks[OF d this] show ?thesis using c d by auto
qed

subsection \<open>Serving and stopping\<close>

fun accepted_in :: "sys_call \<Rightarrow> int list" where
  "accepted_in (Sys_accept l fd) = (if fd < 0 then [] else [fd])"
| "accepted_in _ = []"

definition accepted_fds :: "sys_call list \<Rightarrow> int list" where
  "accepted_fds cs = concat (map accepted_in cs)"

text \<open>A router that serves: every connection accepted so far was handed to one thread, in order.\<close>

definition serving :: "int \<Rightarrow> RouterProcess \<Rightarrow> bool" where
  "serving fd p \<longleftrightarrow> rp_running p \<and> rp_listen_fd p = fd \<and> rp_workers p = map (\<lambda>c. (c, True)) (accepted_fds (rp_calls p)) \<and>
     (\<forall>c. Sys_close c \<notin> set (rp_calls p)) \<and> Sys_socket fd \<in> set (rp_calls p)"

lemma still_open:
  assumes "\<forall>c. Sys_close c \<notin> set cs" and "Sys_socket fd \<in> set cs \<or> fd \<in> G" and "0 \<le> fd"
  shows "fd \<in> open_fds G cs"
  using assms
proof (induction cs arbitrary: G)
  case (Cons c cs)
  then show ?case by (cases c) auto
qed simp

lemma accept_one_serving: "serving fd p \<Longrightarrow> serving fd (accept_one k p)"
  by (auto simp: serving_def accept_one_def Let_def accepted_fds_def)

lemma listening_calls:
  assumes "create_listening_socket k port backlog cs = (fd, cs')" and "0 \<le> fd"
  shows "\<exists>r s. cs' = cs @ [Sys_socket fd, Sys_setsockopt fd (SO_REUSEADDR 1),
    Sys_bind fd \<lparr>sin_family = AF_INET, sin_port = htons host_order port, sin_addr = INADDR_ANY\<rparr> r, Sys_listen fd (sint (of_nat backlog :: u32)) s]"
  using assms by (auto simp: create_listening_socket_def Let_def split: if_splits)

lemma accept_loop_left:
  assumes "accept_loop k stops n p = (left, p')" and "serving fd p"
  shows "if left then \<exists>q. serving fd q \<and> p' = stop_listening q else serving fd p'"
  using assms
proof (induction n arbitrary: p)
  case (Suc n)
  have r: "rp_running p" using Suc.prems(2) by (simp add: serving_def)
  show ?case
  proof (cases "stops n")
    case True
    then have "left \<and> p' = stop_listening p" using Suc.prems(1) by (simp add: stop_listening_def close_listen_def split: if_splits)
    then show ?thesis using Suc.prems(2) by auto
  next
    case False
    then have "accept_loop k stops n (accept_one k p) = (left, p')" using Suc.prems(1) r by simp
    then show ?thesis using Suc.IH accept_one_serving[OF Suc.prems(2)] by blast
  qed
qed simp

lemma accept_loop_unstopped: "rp_running p \<Longrightarrow> \<not> fst (accept_loop k (\<lambda>_. False) n p)"
proof (induction n arbitrary: p)
  case (Suc n)
  then have "rp_running (accept_one k p)" by (simp add: accept_one_def Let_def)
  then show ?case using Suc by simp
qed simp

lemma started_serving:
  assumes "create_listening_socket k port backlog [] = (fd, cs)" and "0 \<le> fd"
  shows "serving fd ((RouterProcess_new port)\<lparr>rp_running := True, rp_listen_fd := fd, rp_calls := cs\<rparr>)"
  using listening_calls[OF assms] by (auto simp: serving_def accepted_fds_def RouterProcess_new_def)

text \<open>
  A router that cannot listen on its port returns at once, with nothing open and no thread
  started, and its destructor then closes nothing. One that can keeps accepting as long as nobody stops it: after
  any number of rounds it has not returned, the listening socket is open, and the threads
  that were started are those of the connections accepted, one for each, in order, a failed
  accept being ignored.
\<close>

theorem router_accepts:
  assumes "router_run k (\<lambda>_. False) n (RouterProcess_new port) = (left, p)" and "socket_result k [] \<notin> G"
  shows "if fst (create_listening_socket k port BACKLOG []) < 0
    then left \<and> rp_workers p = [] \<and> open_fds G (rp_calls p) = G \<and> rp_calls (router_stop p) = rp_calls p
    else \<not> left \<and> rp_running p \<and> rp_listen_fd p \<in> open_fds G (rp_calls p) \<and>
      rp_workers p = map (\<lambda>c. (c, True)) (accepted_fds (rp_calls p))"
proof -
  obtain fd cs where c: "create_listening_socket k port BACKLOG [] = (fd, cs)" by fastforce
  have a: "acquires G fd cs" using listening_acquires[OF c assms(2)] by simp
  have port: "rp_port (RouterProcess_new port) = port" "rp_calls (RouterProcess_new port) = []" "rp_workers (RouterProcess_new port) = []"
    by (simp_all add: RouterProcess_new_def)
  show ?thesis
  proof (cases "fd < 0")
    case True
    then have "left" "p = (RouterProcess_new port)\<lparr>rp_running := True, rp_listen_fd := fd, rp_calls := cs\<rparr>"
      using assms(1) c port by (simp_all add: router_run_def Let_def)
    then show ?thesis
      using True c a port by (simp add: router_stop_def stop_listening_def close_listen_def acquires_def Let_def)
  next
    case False
    define p0 where "p0 = (RouterProcess_new port)\<lparr>rp_running := True, rp_listen_fd := fd, rp_calls := cs\<rparr>"
    have s0: "serving fd p0" using started_serving[OF c] False by (simp add: p0_def)
    obtain l p1 where l: "accept_loop k (\<lambda>_. False) n p0 = (l, p1)" by fastforce
    have "\<not> l" using accept_loop_unstopped[of p0 k n] l s0 by (simp add: serving_def)
    moreover have "(left, p) = (l, if l then close_listen p1 else p1)"
      using assms(1) c l False port by (auto simp: router_run_def Let_def p0_def)
    ultimately have p: "\<not> left" "serving fd p" using accept_loop_left[OF l s0] by auto
    have "fd \<in> open_fds G (rp_calls p)" using p(2) False still_open by (simp add: serving_def)
    then show ?thesis using p False c by (simp add: serving_def)
  qed
qed

theorem router_accepts_witness:
  "rp_workers (snd (router_run reachable_kernel (\<lambda>_. False) 2 (RouterProcess_new 8000))) = [(7, True), (8, True)] \<and>
   rp_listen_fd (snd (router_run reachable_kernel (\<lambda>_. False) 2 (RouterProcess_new 8000))) = 3 \<and>
   \<not> fst (router_run reachable_kernel (\<lambda>_. False) 2 (RouterProcess_new 8000))"
proof -
  obtain left p where r: "router_run reachable_kernel (\<lambda>_. False) 2 (RouterProcess_new 8000) = (left, p)" by fastforce
  have "socket_result reachable_kernel [] \<notin> {0, 1, 2}" by (simp add: reachable_kernel_def)
  from router_accepts[OF r this] have "\<not> left"
    by (simp add: create_listening_socket_def reachable_kernel_def Let_def)
  moreover have "rp_workers p = [(7, True), (8, True)] \<and> rp_listen_fd p = 3"
    using r by (auto simp: router_run_def create_listening_socket_def reachable_kernel_def RouterProcess_new_def accept_one_def
        numeral_2_eq_2 Let_def)
  ultimately show ?thesis using r by simp
qed

text \<open>
  A router that is stopped closes its listening descriptor three times: \<^verbatim>\<open>stop\<close> closes it, the loop
  that it ends closes it again, and the destructor a third time, because none of them resets
  \<^verbatim>\<open>listen_fd_\<close>. The later calls hit a number that the kernel may have given to another thread.
\<close>

theorem router_stop_closes_again:
  assumes "create_listening_socket k port BACKLOG [] = (fd, cs)" and "0 \<le> fd"
    and "router_run k stops n (RouterProcess_new port) = (True, p)"
  shows "(\<exists>pre. rp_calls (router_stop p) = pre @ [Sys_close fd, Sys_close fd, Sys_close fd]) \<and> \<not> tidy G (rp_calls p)"
proof -
  define p0 where "p0 = (RouterProcess_new port)\<lparr>rp_running := True, rp_listen_fd := fd, rp_calls := cs\<rparr>"
  have s0: "serving fd p0" using started_serving[OF assms(1,2)] by (simp add: p0_def)
  obtain l p1 where l: "accept_loop k stops n p0 = (l, p1)" by fastforce
  have "router_run k stops n (RouterProcess_new port) = (l, if l then close_listen p1 else p1)"
    using assms(1,2) l by (simp add: router_run_def Let_def p0_def RouterProcess_new_def)
  then have p: "l" "p = close_listen p1" using assms(3) by auto
  then obtain q where "serving fd q" "p1 = stop_listening q" using accept_loop_left[OF l s0] by auto
  then have calls: "rp_calls p = rp_calls q @ [Sys_close fd, Sys_close fd]" "rp_listen_fd p = fd"
    using p(2) assms(2) by (simp_all add: stop_listening_def close_listen_def serving_def)
  then show ?thesis using assms(2) by (simp add: router_stop_def stop_listening_def close_listen_def Let_def)
qed

theorem router_stop_closes_again_witness:
  "\<not> tidy {0, 1, 2} (rp_calls (snd (router_run reachable_kernel (\<lambda>i. i = 0) 3 (RouterProcess_new 8000))))"
proof -
  obtain cs where c: "create_listening_socket reachable_kernel 8000 BACKLOG [] = (3, cs)"
    by (simp add: create_listening_socket_def reachable_kernel_def Let_def)
  obtain left p where r: "router_run reachable_kernel (\<lambda>i. i = 0) 3 (RouterProcess_new 8000) = (left, p)" by fastforce
  have left using r by (auto simp: router_run_def create_listening_socket_def reachable_kernel_def RouterProcess_new_def accept_one_def
        stop_listening_def close_listen_def numeral_3_eq_3 Let_def split: if_splits)
  then show ?thesis using router_stop_closes_again[OF c, of "\<lambda>i. i = 0" 3 p "{0, 1, 2}"] r by simp
qed

end
