(* ===== verification/Process_Lifecycle.thy ===== *)
theory Process_Lifecycle
  imports Worker_Answers Sockets
begin

text \<open>
  How the processes with several threads start and end: \<^verbatim>\<open>Worker::run\<close> and \<^verbatim>\<open>Coordinator::run\<close> with
  the threads they start and join, as step relations. A step of a thread is one pass of its loop
  or its exit; the main thread waits in \<^verbatim>\<open>join\<close> for one thread after the other.
  Each theorem is about every interleaving of these steps.
\<close>

datatype thread_state = Starting | Looping | Ended

subsection \<open>The worker process\<close>

text \<open>
  \<open>joined\<close> counts the joins of the main thread: the execution threads in order, then the network
  thread. The thread \<open>i\<close> with a response in hand is in the loop that pushes it, which does not look
  at \<^verbatim>\<open>running_\<close>; without one it is in the loop that waits for a task.
\<close>

record WorkerProcess =
  process :: Worker
  network_state :: thread_state
  exec_ended :: "bool list"
  joined :: nat

definition worker_started :: "address \<Rightarrow> nat \<Rightarrow> u64 \<Rightarrow> WorkerProcess" where
  "worker_started addr n now = \<lparr>process = (Worker_new addr n now)\<lparr>wk_running := True\<rparr>,
     network_state = Starting, exec_ended = replicate n False, joined = 0\<rparr>"

definition run_returned :: "WorkerProcess \<Rightarrow> bool" where
  "run_returned p \<longleftrightarrow> joined p = Suc (length (exec_ended p))"

inductive worker_step :: "WorkerEnv \<Rightarrow> WorkerProcess \<Rightarrow> WorkerProcess \<Rightarrow> bool" for env where
  network_registers: "network_state p = Starting \<Longrightarrow> connect env (process p) = (ok, wk) \<Longrightarrow>
    worker_step env p (p\<lparr>process := (if ok then wk else wk\<lparr>wk_running := False\<rparr>),
      network_state := (if ok then Looping else Ended)\<rparr>)"
| network_pass: "network_state p = Looping \<Longrightarrow> wk_running (process p) \<Longrightarrow> wk_network_round env (process p) = Some wk \<Longrightarrow>
    worker_step env p (p\<lparr>process := wk, network_state := (if wk_running wk then Looping else Ended)\<rparr>)"
| network_leaves: "network_state p = Looping \<Longrightarrow> \<not> wk_running (process p) \<Longrightarrow>
    worker_step env p (p\<lparr>network_state := Ended\<rparr>)"
| exec_pass: "i < length (exec_ended p) \<Longrightarrow> \<not> exec_ended p ! i \<Longrightarrow>
    wk_running (process p) \<or> in_hand (process p) ! i \<noteq> None \<Longrightarrow>
    worker_step env p (p\<lparr>process := exec_step (i, started, completed) (process p)\<rparr>)"
| exec_leaves: "i < length (exec_ended p) \<Longrightarrow> \<not> exec_ended p ! i \<Longrightarrow>
    \<not> wk_running (process p) \<Longrightarrow> in_hand (process p) ! i = None \<Longrightarrow>
    worker_step env p (p\<lparr>exec_ended := (exec_ended p)[i := True]\<rparr>)"
| exec_drops: "i < length (exec_ended p) \<Longrightarrow> \<not> exec_ended p ! i \<Longrightarrow>
    \<not> wk_running (process p) \<Longrightarrow> in_hand (process p) ! i = None \<Longrightarrow> try_pop (task_queues (process p) ! i) = Some (task, q) \<Longrightarrow>
    worker_step env p (p\<lparr>process := (process p)\<lparr>task_queues := (task_queues (process p))[i := q]\<rparr>,
      exec_ended := (exec_ended p)[i := True]\<rparr>)"
| joins_exec: "joined p < length (exec_ended p) \<Longrightarrow> exec_ended p ! joined p \<Longrightarrow>
    worker_step env p (p\<lparr>joined := Suc (joined p)\<rparr>)"
| joins_network: "joined p = length (exec_ended p) \<Longrightarrow> network_state p = Ended \<Longrightarrow>
    worker_step env p (p\<lparr>process := (process p)\<lparr>wk_running := False\<rparr>, joined := Suc (joined p)\<rparr>)"

inductive_cases worker_stepE: "worker_step env p p'"

text \<open>
  When the network thread has ended, \<^verbatim>\<open>running_\<close> is false: every exit of that thread clears it.
  A thread that is joined has ended, and one that has ended holds no response.
\<close>

definition lifecycle_inv :: "nat \<Rightarrow> WorkerProcess \<Rightarrow> bool" where
  "lifecycle_inv n p \<longleftrightarrow> answers_inv n (process p) \<and> length (exec_ended p) = n \<and> joined p \<le> Suc n \<and>
     (network_state p = Ended \<longrightarrow> \<not> wk_running (process p)) \<and>
     (wk_running (process p) \<longrightarrow> (\<forall>i<n. \<not> exec_ended p ! i)) \<and> (\<forall>i<n. i < joined p \<longrightarrow> exec_ended p ! i)"

lemma exec_step_running [simp]: "wk_running (exec_step st wk) = wk_running wk"
  by (simp add: exec_step_def split: prod.split option.split)

lemma exec_step_answers: "answers_inv n wk \<Longrightarrow> answers_inv n (exec_step st wk)"
  using exec_step_store[of n "received (wk_calls wk)" wk st] by (simp add: answers_inv_def)

lemma drop_answers:
  assumes "answers_inv n wk" and "i < n" and "try_pop (task_queues wk ! i) = Some (task, q)"
  shows "answers_inv n (wk\<lparr>task_queues := (task_queues wk)[i := q]\<rparr>)"
proof -
  let ?A = "received (wk_calls wk)"
  have "task_queues wk ! i \<in> set (task_queues wk)" using answers_invD[OF assms(1)] assms(2) by (simp add: store_def)
  then have "spsc_inv q" "set (contents q) \<subseteq> ?A"
    using spsc.pop_Some[OF _ assms(3)] answers_invD[OF assms(1)] by (fastforce simp: store_def)+
  then show ?thesis using store_task[OF answers_invD[OF assms(1)]] assms(1) by (simp add: answers_inv_def)
qed

lemma lifecycle_started: "lifecycle_inv n (worker_started addr n now)"
  using Worker_new_answers[of n addr now] by (simp add: lifecycle_inv_def worker_started_def)

lemma drop_connection_running [simp]: "wk_running (drop_connection wk) = wk_running wk"
  by (simp add: drop_connection_def split: option.split)

lemma register_running: "register_with_server env c wk = (ok, wk') \<Longrightarrow> wk_running wk' = wk_running wk"
  by (auto simp: register_with_server_def wk_now_def Let_def split: prod.splits if_splits)

lemma connect_loop_running: "connect_loop env n wk = (ok, wk') \<Longrightarrow> wk_running wk' = wk_running wk"
proof (induction n arbitrary: wk)
  case (Suc n)
  then show ?case by (fastforce simp: Let_def dest: register_running split: prod.splits if_splits)
qed auto

lemma lifecycle_step:
  assumes "worker_step env p p'" and "lifecycle_inv n p"
  shows "lifecycle_inv n p'"
  using assms
proof (induction rule: worker_step.induct)
  case (network_registers p ok wk)
  then have "answers_inv n wk" using connect_loop_answers by (auto simp: lifecycle_inv_def connect_def)
  then show ?case using network_registers connect_loop_running[of env REGISTER_RETRY_COUNT "process p" ok wk]
    by (auto simp: lifecycle_inv_def connect_def)
next
  case (network_pass p wk)
  then have "answers_inv n wk" using round_answers by (auto simp: lifecycle_inv_def)
  then show ?case using network_pass by (auto simp: lifecycle_inv_def)
next
  case (exec_drops i p task q)
  then show ?case using drop_answers[of n "process p" i] by (auto simp: lifecycle_inv_def nth_list_update)
next
  case (joins_exec p)
  then show ?case by (auto simp: lifecycle_inv_def less_Suc_eq)
qed (auto simp: lifecycle_inv_def exec_step_answers nth_list_update)

subsection \<open>The end of a worker\<close>

text \<open>What is left to do: joins, threads that run, responses in hand.\<close>

definition left_to_do :: "WorkerProcess \<Rightarrow> nat" where
  "left_to_do p = (Suc (length (exec_ended p)) - joined p) + length (filter Not (exec_ended p)) +
     length (filter (\<lambda>h. h \<noteq> None) (in_hand (process p)))"

text \<open>No thread waits for room in its response queue.\<close>

definition room_for_responses :: "WorkerProcess \<Rightarrow> bool" where
  "room_for_responses p \<longleftrightarrow> (\<forall>i<length (exec_ended p). in_hand (process p) ! i \<noteq> None \<longrightarrow>
     \<not> exec_ended p ! i \<and> length (contents (response_queues (process p) ! i)) < bound (response_queues (process p) ! i))"

lemma length_filter_update:
  assumes "i < length xs" and "P (xs ! i)" and "\<not> P y"
  shows "Suc (length (filter P (xs[i := y]))) = length (filter P xs)"
  using assms
proof (induction xs arbitrary: i)
  case (Cons x xs)
  then show ?case by (cases i) auto
qed simp

lemma pushing_step:
  assumes "lifecycle_inv n p" and "room_for_responses p" and "i < n" and "in_hand (process p) ! i = Some r"
  shows "\<exists>q. exec_step (i, a, b) (process p) = (process p)\<lparr>response_queues := (response_queues (process p))[i := q],
    in_hand := (in_hand (process p))[i := None]\<rparr>"
proof -
  have st: "store n (received (wk_calls (process p))) (process p)" using assms(1) by (simp add: lifecycle_inv_def answers_inv_def)
  then have "response_queues (process p) ! i \<in> set (response_queues (process p))" using assms(3) by (simp add: store_def)
  then have inv: "spsc_inv (response_queues (process p) ! i)" using st by (simp add: store_def)
  have "length (contents (response_queues (process p) ! i)) < bound (response_queues (process p) ! i)"
    using assms(1-4) by (simp add: room_for_responses_def lifecycle_inv_def del: length_contents)
  then obtain q where "try_push r (response_queues (process p) ! i) = Some q"
    using spsc.push_None[OF inv, of r] by (cases "try_push r (response_queues (process p) ! i)") (auto simp del: length_contents)
  then show ?thesis using assms(3,4) st by (intro exI[of _ q]) (simp add: exec_step_def store_def)
qed

lemma ended_step:
  assumes "worker_step env p p'" and "lifecycle_inv n p" and "network_state p = Ended" and "room_for_responses p"
  shows "left_to_do p' < left_to_do p \<and> network_state p' = Ended \<and> room_for_responses p'"
  using assms
proof (induction rule: worker_step.induct)
  case (exec_pass i p a b)
  then have i: "i < n" and len: "length (in_hand (process p)) = n"
    by (auto simp: lifecycle_inv_def answers_inv_def store_def)
  obtain r where r: "in_hand (process p) ! i = Some r" using exec_pass by (auto simp: lifecycle_inv_def)
  obtain q where q: "exec_step (i, a, b) (process p) = (process p)\<lparr>response_queues := (response_queues (process p))[i := q],
      in_hand := (in_hand (process p))[i := None]\<rparr>"
    using pushing_step[OF exec_pass.prems(1,3) i r] by blast
  have "Suc (length (filter (\<lambda>h. h \<noteq> None) ((in_hand (process p))[i := None]))) = length (filter (\<lambda>h. h \<noteq> None) (in_hand (process p)))"
    using i len r by (intro length_filter_update) auto
  then show ?case
    using exec_pass.prems i len unfolding q
    by (auto simp: left_to_do_def room_for_responses_def nth_list_update simp del: length_contents)
next
  case (exec_leaves i p)
  then show ?case
    using length_filter_update[of i "exec_ended p" Not True]
    by (auto simp: left_to_do_def room_for_responses_def nth_list_update simp del: length_contents)
next
  case (exec_drops i p task q)
  then show ?case
    using length_filter_update[of i "exec_ended p" Not True]
    by (auto simp: left_to_do_def room_for_responses_def nth_list_update simp del: length_contents)
qed (auto simp: left_to_do_def room_for_responses_def lifecycle_inv_def simp del: length_contents)

lemma ended_enabled:
  assumes "lifecycle_inv n p" and "network_state p = Ended" and "\<not> run_returned p"
  shows "\<exists>p'. worker_step env p p'"
proof (cases "joined p < n")
  case True
  then have i: "joined p < length (exec_ended p)" using assms(1) by (simp add: lifecycle_inv_def)
  have r: "\<not> wk_running (process p)" using assms(1,2) by (simp add: lifecycle_inv_def)
  show ?thesis
    using joins_exec[OF i] exec_leaves[OF i _ r] exec_pass[OF i] by blast
next
  case False
  then have "joined p = length (exec_ended p)" using assms(1,3) by (auto simp: lifecycle_inv_def run_returned_def)
  then show ?thesis using joins_network assms(2) by blast
qed

lemma lifecycle_reachable:
  assumes "(worker_step env)\<^sup>*\<^sup>* (worker_started addr n now) p"
  shows "lifecycle_inv n p"
  using assms by (induction rule: rtranclp_induct) (auto intro: lifecycle_started lifecycle_step)

lemma ended_steps:
  assumes "(worker_step env)\<^sup>*\<^sup>* p p'" and "lifecycle_inv n p" and "network_state p = Ended" and "room_for_responses p"
  shows "lifecycle_inv n p' \<and> network_state p' = Ended \<and> room_for_responses p'"
  using assms(1)
proof (induction rule: rtranclp_induct)
  case (step p1 p2)
  then show ?case using lifecycle_step[OF step.hyps(2)] ended_step[OF step.hyps(2)] by blast
qed (use assms in simp)

text \<open>C18:
  \<^verbatim>\<open>Worker::run\<close> returns once its network thread has given up, for every schedule of the threads, as long as the
  responses that are in the hands of execution threads still fit into their queues: there is
  no infinite sequence of steps from there, and a process that can make no further step has
  joined all its threads and returned.
\<close>

theorem worker_run_returns:
  assumes "(worker_step env)\<^sup>*\<^sup>* (worker_started addr n now) p" and "network_state p = Ended" and "room_for_responses p"
  shows "\<not> (\<exists>f. f 0 = p \<and> (\<forall>k. worker_step env (f k) (f (Suc k)))) \<and>
    (\<forall>p'. (worker_step env)\<^sup>*\<^sup>* p p' \<and> \<not> (\<exists>p''. worker_step env p' p'') \<longrightarrow> run_returned p')"
proof
  have inv: "lifecycle_inv n p" by (rule lifecycle_reachable[OF assms(1)])
  show "\<not> (\<exists>f. f 0 = p \<and> (\<forall>k. worker_step env (f k) (f (Suc k))))"
  proof
    assume "\<exists>f. f 0 = p \<and> (\<forall>k. worker_step env (f k) (f (Suc k)))"
    then obtain f where f: "f 0 = p" "\<And>k. worker_step env (f k) (f (Suc k))" by blast
    have "(worker_step env)\<^sup>*\<^sup>* p (f k)" for k
      by (induction k) (use f in \<open>auto intro: rtranclp.rtrancl_into_rtrancl\<close>)
    then have "left_to_do (f (Suc k)) < left_to_do (f k)" for k
      using ended_steps[OF _ inv assms(2,3)] ended_step[OF f(2)] by blast
    then have "\<forall>k. (f (Suc k), f k) \<in> measure left_to_do" by simp
    then show False using wf_measure[of left_to_do] wf_iff_no_infinite_down_chain by blast
  qed
  show "\<forall>p'. (worker_step env)\<^sup>*\<^sup>* p p' \<and> \<not> (\<exists>p''. worker_step env p' p'') \<longrightarrow> run_returned p'"
    using ended_steps[OF _ inv assms(2,3)] ended_enabled by blast
qed

definition no_coordinator :: WorkerEnv where
  "no_coordinator = \<lparr>remote = \<lparr>connect_result = \<lambda>_. -1, send_result_at = \<lambda>_. -1, receive_result = \<lambda>_. (-1, Message_default)\<rparr>,
     clock_at = of_nat, poll_result = \<lambda>_. (False, False, False), exec_at = \<lambda>_. []\<rparr>"

text \<open>Nobody answers at the coordinator's address: the process gives up and returns.\<close>

theorem worker_run_returns_witness:
  "\<exists>p. (worker_step no_coordinator)\<^sup>*\<^sup>* (worker_started (''127.0.0.1'', 9000) 2 0) p \<and> network_state p = Ended \<and>
     \<not> (\<exists>f. f 0 = p \<and> (\<forall>k. worker_step no_coordinator (f k) (f (Suc k))))"
proof -
  let ?p = "worker_started (''127.0.0.1'', 9000) 2 0"
  obtain ok wk where c: "connect no_coordinator (process ?p) = (ok, wk)" by fastforce
  have same: "\<not> up \<and> in_hand wk' = in_hand wk" if "connect_loop no_coordinator m wk = (up, wk')" for m wk up wk'
    using that
    by (induction m arbitrary: wk)
      (auto simp: no_coordinator_def Let_def Client_connect_def close_connection_def Client_new_def drop_connection_def split: option.splits)
  define p where "p = ?p\<lparr>process := wk\<lparr>wk_running := False\<rparr>, network_state := Ended\<rparr>"
  have "\<not> ok" and hand: "in_hand wk = [None, None]"
    using same[of REGISTER_RETRY_COUNT "process ?p"] c
    by (auto simp: connect_def worker_started_def Worker_new_def numeral_2_eq_2)
  then have step: "worker_step no_coordinator ?p p"
    using network_registers[of ?p no_coordinator ok wk] c by (simp add: p_def worker_started_def)
  moreover have "room_for_responses p"
    by (auto simp: p_def room_for_responses_def worker_started_def hand less_Suc_eq numeral_2_eq_2)
  moreover have ended: "network_state p = Ended" by (simp add: p_def)
  ultimately show ?thesis
    using worker_run_returns[OF r_into_rtranclp[where r = "worker_step no_coordinator", OF step] ended] by blast
qed

text \<open>
  A thread whose response queue is full when the network thread has ended never leaves the loop
  that pushes its response, which does not look at \<^verbatim>\<open>running_\<close>, and \<^verbatim>\<open>run\<close> never returns.
\<close>

definition stuck_thread :: "nat \<Rightarrow> WorkerProcess \<Rightarrow> bool" where
  "stuck_thread i p \<longleftrightarrow> i < length (exec_ended p) \<and> \<not> exec_ended p ! i \<and> joined p \<le> i \<and> network_state p = Ended \<and>
     \<not> wk_running (process p) \<and>
     (\<exists>r. in_hand (process p) ! i = Some r \<and> try_push r (response_queues (process p) ! i) = None)"

lemma exec_step_other:
  assumes "i \<noteq> j"
  shows "in_hand (exec_step (j, a, b) wk) ! i = in_hand wk ! i" "response_queues (exec_step (j, a, b) wk) ! i = response_queues wk ! i"
  using assms by (simp_all add: exec_step_def split: option.split)

lemma stuck_step:
  assumes "worker_step env p p'" and "stuck_thread i p"
  shows "stuck_thread i p'"
  using assms
proof (induction rule: worker_step.induct)
  case (exec_pass j p a b)
  show ?case
  proof (cases "j = i")
    case True
    then have "exec_step (j, a, b) (process p) = process p"
      using exec_pass.prems by (auto simp: stuck_thread_def exec_step_def split: option.splits)
    then show ?thesis using exec_pass.prems by simp
  next
    case False
    then show ?thesis using exec_pass.prems exec_step_other[of i j a b "process p"] by (simp add: stuck_thread_def)
  qed
next
  case (joins_exec p)
  then show ?case by (auto simp: stuck_thread_def Suc_le_eq) (metis le_neq_implies_less)
qed (auto simp: stuck_thread_def nth_list_update split: if_splits)

lemma stuck_never_returns:
  assumes "(worker_step env)\<^sup>*\<^sup>* p p'" and "stuck_thread i p"
  shows "\<not> run_returned p'"
proof -
  have "stuck_thread i p'" using assms by (induction rule: rtranclp_induct) (auto intro: stuck_step)
  then show ?thesis by (auto simp: stuck_thread_def run_returned_def)
qed

subsection \<open>The coordinator process\<close>

text \<open>
  The main thread of \<^verbatim>\<open>Coordinator::run\<close> waits for the network thread and then for the
  scheduler thread. The network thread first makes its listening socket (\<open>k\<close> is the kernel) and
  returns when it cannot; \<^verbatim>\<open>stop\<close> is called by the destructor, after \<^verbatim>\<open>run\<close>.
\<close>

datatype main_place = Join_network | Join_scheduler | Returned

record CoordinatorProcess =
  cp_running :: bool
  cp_port :: u16
  network_thread :: thread_state
  scheduler_thread :: thread_state
  main_at :: main_place
  cp_calls :: "sys_call list"

definition coordinator_started :: "u16 \<Rightarrow> CoordinatorProcess" where
  "coordinator_started port = \<lparr>cp_running = True, cp_port = port, network_thread = Starting, scheduler_thread = Looping,
     main_at = Join_network, cp_calls = []\<rparr>"

inductive coordinator_step :: "Kernel \<Rightarrow> CoordinatorProcess \<Rightarrow> CoordinatorProcess \<Rightarrow> bool" for k where
  network_begins: "network_thread p = Starting \<Longrightarrow> create_listening_socket k (cp_port p) BACKLOG (cp_calls p) = (fd, cs) \<Longrightarrow>
    coordinator_step k p (p\<lparr>network_thread := (if fd < 0 then Ended else Looping), cp_calls := cs\<rparr>)"
| network_iterates: "network_thread p = Looping \<Longrightarrow> cp_running p \<Longrightarrow> coordinator_step k p p"
| network_finishes: "network_thread p = Looping \<Longrightarrow> \<not> cp_running p \<Longrightarrow>
    coordinator_step k p (p\<lparr>network_thread := Ended, cp_running := False\<rparr>)"
| scheduler_iterates: "scheduler_thread p = Looping \<Longrightarrow> cp_running p \<Longrightarrow> coordinator_step k p p"
| scheduler_finishes: "scheduler_thread p = Looping \<Longrightarrow> \<not> cp_running p \<Longrightarrow>
    coordinator_step k p (p\<lparr>scheduler_thread := Ended\<rparr>)"
| main_joins_network: "main_at p = Join_network \<Longrightarrow> network_thread p = Ended \<Longrightarrow>
    coordinator_step k p (p\<lparr>main_at := Join_scheduler\<rparr>)"
| main_joins_scheduler: "main_at p = Join_scheduler \<Longrightarrow> scheduler_thread p = Ended \<Longrightarrow>
    coordinator_step k p (p\<lparr>main_at := Returned\<rparr>)"

definition stays_up :: "CoordinatorProcess \<Rightarrow> bool" where
  "stays_up p \<longleftrightarrow> cp_running p \<and> scheduler_thread p = Looping \<and> main_at p \<noteq> Returned"

lemma stays_up_step: "coordinator_step k p p' \<Longrightarrow> stays_up p \<Longrightarrow> stays_up p'"
  by (induction rule: coordinator_step.induct) (auto simp: stays_up_def)

lemma stays_up_reachable: "(coordinator_step k)\<^sup>*\<^sup>* (coordinator_started port) p \<Longrightarrow> stays_up p"
proof (induction rule: rtranclp_induct)
  case base
  show ?case by (simp add: stays_up_def coordinator_started_def)
qed (rule stays_up_step)

lemma network_thread_socket:
  assumes "(coordinator_step k)\<^sup>*\<^sup>* (coordinator_started port) p"
  shows "if network_thread p = Starting then cp_port p = port \<and> cp_calls p = [] \<and> main_at p = Join_network
    else create_listening_socket k port BACKLOG [] = (fst (create_listening_socket k port BACKLOG []), cp_calls p) \<and>
      (network_thread p = Ended \<longleftrightarrow> fst (create_listening_socket k port BACKLOG []) < 0)"
  using assms
proof (induction rule: rtranclp_induct)
  case (step p p')
  have up: "stays_up p" by (rule stays_up_reachable[OF step.hyps(1)])
  show ?case
    using step.hyps(2) step.IH up
    by (induction rule: coordinator_step.induct) (auto simp: stays_up_def split: if_splits)
qed (simp add: coordinator_started_def)

text \<open>C19:
  A coordinator that cannot listen on its port hangs. The network thread returns without
  clearing \<^verbatim>\<open>running_\<close>, so the scheduler thread goes on for ever, \<^verbatim>\<open>run\<close> never returns, and the process
  stays up without a network thread and without a socket: nothing can reach it, and it does not
  end. In every schedule the state in which it waits for the scheduler thread can still be
  reached, and the state in which it has returned cannot.
\<close>

theorem coordinator_without_port_hangs:
  assumes "fst (create_listening_socket k port BACKLOG []) < 0" and "socket_result k [] \<notin> G"
    and "(coordinator_step k)\<^sup>*\<^sup>* (coordinator_started port) p"
  shows "main_at p \<noteq> Returned \<and> cp_running p \<and> scheduler_thread p = Looping \<and> network_thread p \<noteq> Looping \<and>
    open_fds G (cp_calls p) = G \<and>
    (\<exists>p'. (coordinator_step k)\<^sup>*\<^sup>* p p' \<and> main_at p' = Join_scheduler \<and> network_thread p' = Ended)"
proof -
  note up = stays_up_reachable[OF assms(3), unfolded stays_up_def]
  obtain fd cs where c: "create_listening_socket k port BACKLOG [] = (fd, cs)" by fastforce
  have fd: "fd < 0" using assms(1) c by simp
  have cs: "open_fds G cs = G" using listening_acquires[OF c assms(2)] fd by (simp add: acquires_def)
  have waits: "\<exists>p'. (coordinator_step k)\<^sup>*\<^sup>* q p' \<and> main_at p' = Join_scheduler \<and> network_thread p' = Ended"
    if "network_thread q = Ended" "main_at q \<noteq> Returned" for q
  proof (cases "main_at q")
    case Join_network
    have "coordinator_step k q (q\<lparr>main_at := Join_scheduler\<rparr>)" by (rule main_joins_network[OF Join_network that(1)])
    then show ?thesis using that(1) by (intro exI[of _ "q\<lparr>main_at := Join_scheduler\<rparr>"]) auto
  qed (use that in auto)
  show ?thesis
  proof (cases "network_thread p = Starting")
    case True
    then have p: "cp_port p = port" "cp_calls p = []" using network_thread_socket[OF assms(3)] by simp_all
    let ?q = "p\<lparr>network_thread := Ended, cp_calls := cs\<rparr>"
    have "coordinator_step k p ?q" using network_begins[OF True, of k fd cs] c p fd by simp
    moreover obtain p' where "(coordinator_step k)\<^sup>*\<^sup>* ?q p'" "main_at p' = Join_scheduler" "network_thread p' = Ended"
      using waits[of ?q] up by auto
    ultimately show ?thesis using up True p by (auto intro: converse_rtranclp_into_rtranclp)
  next
    case False
    then have "network_thread p = Ended" "cp_calls p = cs" using network_thread_socket[OF assms(3)] c fd by auto
    then show ?thesis using up cs waits[of p] by simp
  qed
qed

definition port_taken :: Kernel where
  "port_taken = reachable_kernel\<lparr>binding := \<lambda>_. -1\<rparr>"

theorem coordinator_without_port_hangs_witness:
  "\<exists>p. (coordinator_step port_taken)\<^sup>*\<^sup>* (coordinator_started 9000) p \<and> main_at p = Join_scheduler \<and>
     network_thread p = Ended"
proof -
  have "fst (create_listening_socket port_taken 9000 BACKLOG []) < 0" "socket_result port_taken [] \<notin> {0, 1, 2}"
    by (simp_all add: create_listening_socket_def port_taken_def reachable_kernel_def Let_def)
  from coordinator_without_port_hangs[OF this rtranclp.rtrancl_refl] show ?thesis by blast
qed

end
