(* ===== verification/Client_Runner.thy ===== *)
theory Client_Runner
  imports Complex_Main Rpc Word_Count
begin

text \<open>
  The load generator (\<^verbatim>\<open>src/client/client.cpp\<close>): every client thread submits its range of task
  ids one after the other, waits for each answer, retries, and keeps the latencies; the runner
  summarises them.

  \<open>ClientEnv\<close> gives one thread its network, its clock and the draws of its random generator
  (a coin for the type and an index for the size), each indexed by the number of readings
  taken so far. Floating-point arithmetic is the parameter \<open>FloatOps\<close>. \<open>ABORTED\<close> is a failed
  assertion, which ends the process. Memory is not limited: the reservations for the latencies
  always succeed.
\<close>

subsection \<open>State\<close>

datatype RequestType = REQ_SYNTHETIC | REQ_WORD_COUNT | REQ_MIXED

record ClientRunner =
  num_tasks :: u64
  long_duration :: u64
  medium_duration :: u64
  short_duration :: u64
  num_clients :: u32
  router_address :: address
  req_type :: RequestType
  long_text :: string
  short_text :: string
  medium_text :: string
  latencies_of :: "u64 list list"

definition ClientRunner_new :: "u64 \<Rightarrow> u32 \<Rightarrow> u16 \<Rightarrow> string \<Rightarrow> RequestType \<Rightarrow> ClientRunner" where
  "ClientRunner_new tasks clients port ip ty = \<lparr>num_tasks = tasks, long_duration = 0, medium_duration = 0,
     short_duration = 0, num_clients = clients, router_address = (ip, port), req_type = ty, long_text = [],
     short_text = [], medium_text = [], latencies_of = replicate (unat clients) []\<rparr>"

record ClientEnv =
  cl_remote :: Remote
  cl_clock :: "nat \<Rightarrow> u64"
  coin :: "nat \<Rightarrow> bool"
  size_draw :: "nat \<Rightarrow> int"

record ClientThread =
  connection :: Client
  cl_latencies :: "u64 list"
  cl_calls :: "rpc_call list"
  readings :: nat

subsection \<open>Random tasks\<close>

definition random_request_type :: "ClientEnv \<Rightarrow> ClientThread \<Rightarrow> RequestType \<times> ClientThread" where
  "random_request_type env th =
     (if coin env (readings th) then REQ_SYNTHETIC else REQ_WORD_COUNT, th\<lparr>readings := Suc (readings th)\<rparr>)"

definition random_size :: "ClientEnv \<Rightarrow> ClientThread \<Rightarrow> WorkloadSize \<times> ClientThread" where
  "random_size env th = (let idx = size_draw env (readings th) in
     (if idx = 0 then SHORT else if idx = 1 then MEDIUM else if idx = 2 then LONG else SHORT,
      th\<lparr>readings := Suc (readings th)\<rparr>))"

definition create_synthetic_task ::
  "ClientEnv \<Rightarrow> ClientRunner \<Rightarrow> Message \<Rightarrow> ClientThread \<Rightarrow> WorkloadSize \<times> Message \<times> ClientThread" where
  "create_synthetic_task env r request th = (case random_size env th of (sz, th) \<Rightarrow> let
     duration = (case sz of LONG \<Rightarrow> long_duration r | MEDIUM \<Rightarrow> medium_duration r | SHORT \<Rightarrow> short_duration r)
   in (sz, request\<lparr>submit := (submit request)\<lparr>sm_type := SYNTHETIC, sm_duration_us := ucast duration\<rparr>\<rparr>, th))"

definition create_word_count_task ::
  "ClientEnv \<Rightarrow> ClientRunner \<Rightarrow> Message \<Rightarrow> ClientThread \<Rightarrow> WorkloadSize \<times> Message \<times> ClientThread" where
  "create_word_count_task env r request th = (case random_size env th of (sz, th) \<Rightarrow> let
     words = (case sz of LONG \<Rightarrow> long_text r | MEDIUM \<Rightarrow> medium_text r | SHORT \<Rightarrow> short_text r)
   in (sz, request\<lparr>submit := (submit request)\<lparr>sm_type := WORD_COUNT, sm_words := words\<rparr>\<rparr>, th))"

definition create_mixed_task ::
  "ClientEnv \<Rightarrow> ClientRunner \<Rightarrow> Message \<Rightarrow> ClientThread \<Rightarrow> WorkloadSize \<times> Message \<times> ClientThread" where
  "create_mixed_task env r request th = (case random_request_type env th of (ty, th) \<Rightarrow>
     (case ty of REQ_WORD_COUNT \<Rightarrow> create_word_count_task env r request th
      | _ \<Rightarrow> create_synthetic_task env r request th))"

definition create_task ::
  "ClientEnv \<Rightarrow> ClientRunner \<Rightarrow> Message \<Rightarrow> ClientThread \<Rightarrow> WorkloadSize \<times> Message \<times> ClientThread" where
  "create_task env r request th = (case req_type r of
     REQ_MIXED \<Rightarrow> create_mixed_task env r request th
   | REQ_SYNTHETIC \<Rightarrow> create_synthetic_task env r request th
   | REQ_WORD_COUNT \<Rightarrow> create_word_count_task env r request th)"

subsection \<open>A client thread\<close>

datatype outcome = DONE | RETRY | ABORTED

definition cl_now :: "ClientEnv \<Rightarrow> ClientThread \<Rightarrow> u64 \<times> ClientThread" where
  "cl_now env th = (cl_clock env (readings th), th\<lparr>readings := Suc (readings th)\<rparr>)"

definition submit_message :: "u32 \<Rightarrow> u64 \<Rightarrow> Message" where
  "submit_message i task_id =
     (Message_new SUBMIT)\<lparr>submit := SubmitMsg_default\<lparr>sm_client_id := i, sm_task_id := task_id\<rparr>\<rparr>"

text \<open>The send, with one reconnection.\<close>

definition send_request :: "ClientEnv \<Rightarrow> ClientRunner \<Rightarrow> Message \<Rightarrow> ClientThread \<Rightarrow> bool \<times> ClientThread" where
  "send_request env r request th = (let w = cl_remote env in
     case send_with_retry w request (connection th) (cl_calls th) of (n, cs) \<Rightarrow>
     if n > 0 then (True, th\<lparr>cl_calls := cs\<rparr>)
     else case Client_connect w (router_address r) (connection th) cs of (ok, c, cs) \<Rightarrow>
     if \<not> ok then (False, th\<lparr>connection := c, cl_calls := cs\<rparr>)
     else case send_with_retry w request c cs of (n, cs) \<Rightarrow>
       (n > 0, th\<lparr>connection := c, cl_calls := cs\<rparr>))"

definition attempt :: "ClientEnv \<Rightarrow> ClientRunner \<Rightarrow> u32 \<Rightarrow> u64 \<Rightarrow> ClientThread \<Rightarrow> outcome \<times> ClientThread" where
  "attempt env r i task_id th =
     (case create_task env r (submit_message i task_id) th of (sz, request, th) \<Rightarrow>
      case cl_now env th of (start, th) \<Rightarrow>
      case send_request env r request th of (sent, th) \<Rightarrow>
      if \<not> sent then (RETRY, th)
      else case receive_with_retry (cl_remote env) Message_default (connection th) (cl_calls th) of (n, response, cs) \<Rightarrow> let
        th = th\<lparr>cl_calls := cs\<rparr>
      in if n \<le> 0 then (RETRY, th)
      else case cl_now env th of (now, th) \<Rightarrow>
      if rm_success (result response) = 0 then (RETRY, th)
      else let
        th = th\<lparr>cl_latencies := cl_latencies th @ [(now - start) div 1000]\<rparr>
      in if sm_type (submit request) = WORD_COUNT \<and> rm_result (result response) \<noteq> of_nat (get_text_size sz)
         then (ABORTED, th) else (DONE, th))"

primrec attempts :: "ClientEnv \<Rightarrow> ClientRunner \<Rightarrow> u32 \<Rightarrow> u64 \<Rightarrow> nat \<Rightarrow> ClientThread \<Rightarrow> outcome \<times> ClientThread" where
  "attempts env r i task_id 0 th = (RETRY, th)"
| "attempts env r i task_id (Suc n) th = (case attempt env r i task_id th of (out, th) \<Rightarrow>
     if out = RETRY then attempts env r i task_id n th else (out, th))"

primrec tasks_loop :: "ClientEnv \<Rightarrow> ClientRunner \<Rightarrow> u32 \<Rightarrow> u64 list \<Rightarrow> ClientThread \<Rightarrow> outcome \<times> ClientThread" where
  "tasks_loop env r i [] th = (DONE, th)"
| "tasks_loop env r i (task # ts) th =
     (case attempts env r i (num_tasks r * ucast i + task) (RETRY_TASK + 1) th of (out, th) \<Rightarrow>
      if out = DONE then tasks_loop env r i ts th else (out, th))"

definition ClientThread_new :: ClientThread where
  "ClientThread_new = \<lparr>connection = Client_new, cl_latencies = [], cl_calls = [], readings = 0\<rparr>"

definition client_worker :: "ClientEnv \<Rightarrow> ClientRunner \<Rightarrow> u32 \<Rightarrow> outcome \<times> ClientThread" where
  "client_worker env r i = (let th = ClientThread_new in
     case Client_connect (cl_remote env) (router_address r) (connection th) (cl_calls th) of (up, c, cs) \<Rightarrow>
     case tasks_loop env r i (map of_nat [0..<unat (num_tasks r)]) (th\<lparr>connection := c, cl_calls := cs\<rparr>) of (out, th) \<Rightarrow>
     if out = ABORTED then (out, th)
     else case close_connection (connection th) (cl_calls th) of (c, cs) \<Rightarrow>
       (out, th\<lparr>connection := c, cl_calls := cs\<rparr>))"

subsection \<open>The runner\<close>

record 'd FloatOps =
  of_u64 :: "u64 \<Rightarrow> 'd"
  quotient :: "'d \<Rightarrow> 'd \<Rightarrow> 'd"
  positive :: "'d \<Rightarrow> bool"
  zero_double :: 'd
  to_seconds :: "u64 \<Rightarrow> 'd"

record 'd Stats =
  st_completed :: u64
  st_max_latency_us :: u64
  st_min_latency_us :: u64
  st_p50_latency_us :: u64
  st_p95_latency_us :: u64
  st_avg_latency_us :: 'd
  st_throughput_ops :: 'd

text \<open>The accumulators of the nested loop: count, maximum, minimum, sum and the samples.\<close>

definition stats_step :: "u64 \<Rightarrow> u64 \<times> u64 \<times> u64 \<times> u64 \<times> u64 list \<Rightarrow> u64 \<times> u64 \<times> u64 \<times> u64 \<times> u64 list" where
  "stats_step cur = (\<lambda>(completed, max_latency, min_latency, latency_sum, cleaned).
     (completed + 1, max max_latency cur, min min_latency cur, latency_sum + cur, cleaned @ [cur]))"

text \<open>
  The index arithmetic is that of 64-bit words; an index outside the samples (only reachable
  when \<open>completed * 95\<close> wraps or the counter does) is undefined behaviour, \<open>None\<close>.
\<close>

definition nth_checked :: "u64 list \<Rightarrow> u64 \<Rightarrow> u64 option" where
  "nth_checked xs i = (if unat i < length xs then Some (xs ! unat i) else None)"

definition compute_stats :: "'d FloatOps \<Rightarrow> u64 list list \<Rightarrow> 'd \<Rightarrow> 'd Stats option" where
  "compute_stats fl rows seconds =
     (case fold (fold stats_step) rows (0, 0, -1, 0, []) of (completed, max_latency, min_latency, latency_sum, cleaned) \<Rightarrow> let
        cleaned = sort cleaned;
        p50_index = completed div 2;
        p95_index = completed * 95 div 100
      in case (if completed > 0 then nth_checked cleaned p50_index else Some 0) of
           None \<Rightarrow> None
         | Some p50 \<Rightarrow> (case (if completed > 0 then nth_checked cleaned p95_index else Some 0) of
             None \<Rightarrow> None
           | Some p95 \<Rightarrow> Some \<lparr>st_completed = completed,
               st_max_latency_us = (if completed > 0 then max_latency else 0),
               st_min_latency_us = (if completed > 0 then min_latency else 0),
               st_p50_latency_us = p50, st_p95_latency_us = p95,
               st_avg_latency_us = (if completed > 0 then quotient fl (of_u64 fl latency_sum) (of_u64 fl completed) else zero_double fl),
               st_throughput_ops = (if positive fl seconds then quotient fl (of_u64 fl completed) seconds else zero_double fl)\<rparr>))"

text \<open>\<^verbatim>\<open>run\<close>: the texts and durations, the threads (client \<open>i\<close> in its own environment), the statistics.\<close>

definition prepare_run :: "ClientRunner \<Rightarrow> ClientRunner" where
  "prepare_run r = (let
     r = (if req_type r = REQ_MIXED \<or> req_type r = REQ_WORD_COUNT then
       r\<lparr>long_text := generate_text (get_text_size LONG) CLEAN, medium_text := generate_text (get_text_size MEDIUM) CLEAN,
         short_text := generate_text (get_text_size SHORT) CLEAN\<rparr> else r)
   in if req_type r = REQ_MIXED \<or> req_type r = REQ_SYNTHETIC then
       r\<lparr>long_duration := get_duration LONG, medium_duration := get_duration MEDIUM,
         short_duration := get_duration SHORT\<rparr> else r)"

definition client_run ::
  "'d FloatOps \<Rightarrow> (u32 \<Rightarrow> ClientEnv) \<Rightarrow> u64 \<Rightarrow> u64 \<Rightarrow> ClientRunner \<Rightarrow> (ClientRunner \<times> 'd Stats) option" where
  "client_run fl envs start now r = (let
     r = prepare_run r;
     outs = map (\<lambda>i. client_worker (envs (of_nat i)) r (of_nat i)) [0..<unat (num_clients r)]
   in if \<exists>out \<in> set outs. fst out = ABORTED then None
      else let r = r\<lparr>latencies_of := map (\<lambda>out. cl_latencies (snd out)) outs\<rparr>
      in map_option (Pair r) (compute_stats fl (latencies_of r) (to_seconds fl (now - start))))"

subsection \<open>What a thread sends\<close>

fun submission_of :: "rpc_call \<Rightarrow> Message list" where
  "submission_of (Send fd m n) = [m]"
| "submission_of _ = []"

definition submissions :: "rpc_call list \<Rightarrow> Message list" where
  "submissions cs = concat (map submission_of cs)"

definition submitted_ids :: "rpc_call list \<Rightarrow> u64 list" where
  "submitted_ids cs = map (\<lambda>m. sm_task_id (submit m)) (submissions cs)"

lemma submissions_append [simp]: "submissions (cs @ ds) = submissions cs @ submissions ds"
  by (simp add: submissions_def)

lemma submissions_simps [simp]:
  "submissions [] = []" "submissions (Send fd m n # cs) = m # submissions cs"
  "submissions (Receive fd m n # cs) = submissions cs" "submissions (Connect a d # cs) = submissions cs"
  "submissions (Close fd # cs) = submissions cs"
  by (simp_all add: submissions_def)

lemma submitted_ids_append [simp]: "submitted_ids (cs @ ds) = submitted_ids cs @ submitted_ids ds"
  by (simp add: submitted_ids_def)

definition is_submit :: "u32 \<Rightarrow> Message \<Rightarrow> bool" where
  "is_submit i m \<longleftrightarrow> m_type m = SUBMIT \<and> sm_client_id (submit m) = i"

text \<open>The calls \<open>cs\<close> submit nothing but task \<open>t\<close> for client \<open>i\<close>, at most \<open>k\<close> times.\<close>

definition submits_only :: "u32 \<Rightarrow> u64 \<Rightarrow> nat \<Rightarrow> rpc_call list \<Rightarrow> bool" where
  "submits_only i t k cs \<longleftrightarrow> length (submissions cs) \<le> k \<and>
     list_all (\<lambda>m. is_submit i m \<and> sm_task_id (submit m) = t) (submissions cs)"

lemma submits_only_append:
  "submits_only i t j cs \<Longrightarrow> submits_only i t k ds \<Longrightarrow> submits_only i t (j + k) (cs @ ds)"
  by (simp add: submits_only_def)

lemma submits_only_ids:
  assumes "submits_only i t k cs"
  shows "\<exists>j \<le> k. submitted_ids cs = replicate j t" and "list_all (is_submit i) (submissions cs)"
proof -
  have "map (\<lambda>m. sm_task_id (submit m)) (submissions cs) = map (\<lambda>_. t) (submissions cs)"
    using assms by (simp add: submits_only_def list_all_iff)
  then show "\<exists>j \<le> k. submitted_ids cs = replicate j t"
    using assms by (auto simp: submits_only_def submitted_ids_def map_replicate_const)
  show "list_all (is_submit i) (submissions cs)"
    using assms by (simp add: submits_only_def list_all_iff)
qed

lemma close_submissions:
  "close_connection c cs = (c', cs') \<Longrightarrow> \<exists>ds. cs' = cs @ ds \<and> submissions ds = []"
  using rpc.close_trace[of c cs] by fastforce

lemma connect_submissions:
  "Client_connect w a c cs = (ok, c', cs') \<Longrightarrow> \<exists>ds. cs' = cs @ ds \<and> submissions ds = [] \<and> (ok \<longleftrightarrow> 0 \<le> sock_fd c')"
  using connect_calls_trace[of w a c cs] by fastforce

lemma send_submissions:
  "send_with_retry w m c cs = (n, cs') \<Longrightarrow>
     \<exists>ds. cs' = cs @ ds \<and> (submissions ds = [] \<or> submissions ds = [m]) \<and> (0 < n \<longrightarrow> ds = [Send (sock_fd c) m n])"
  using rpc.send_trace[of w m c cs] by fastforce

lemma create_task_submit:
  assumes "create_task env r m th = (sz, m', th')"
  shows "m_type m' = m_type m" and "sm_client_id (submit m') = sm_client_id (submit m)"
    and "sm_task_id (submit m') = sm_task_id (submit m)"
    and "cl_calls th' = cl_calls th" and "connection th' = connection th" and "cl_latencies th' = cl_latencies th"
  using assms
  by (auto simp: create_task_def create_mixed_task_def create_word_count_task_def create_synthetic_task_def
      random_size_def random_request_type_def Let_def split: RequestType.splits prod.splits)

lemma send_request_trace:
  assumes "send_request env r m th = (ok, th')"
  shows "\<exists>cs. cl_calls th' = cl_calls th @ cs \<and> (\<exists>k \<le> 2. submissions cs = replicate k m) \<and>
    (ok \<longrightarrow> (\<exists>ds fd n. cs = ds @ [Send fd m n] \<and> 0 < n)) \<and> cl_latencies th' = cl_latencies th \<and> readings th' = readings th"
proof -
  obtain n cs1 where s1: "send_with_retry (cl_remote env) m (connection th) (cl_calls th) = (n, cs1)" by fastforce
  obtain ds1 where d1: "cs1 = cl_calls th @ ds1" "submissions ds1 = [] \<or> submissions ds1 = [m]"
      "0 < n \<longrightarrow> ds1 = [Send (sock_fd (connection th)) m n]"
    using send_submissions[OF s1] by blast
  show ?thesis
  proof (cases "0 < n")
    case True
    then show ?thesis
      using assms s1 d1 by (intro exI[of _ ds1]) (auto simp: send_request_def intro: exI[of _ 1])
  next
    case False
    obtain up c cs2 where c: "Client_connect (cl_remote env) (router_address r) (connection th) cs1 = (up, c, cs2)"
      by (metis prod_cases3)
    obtain ds2 where d2: "cs2 = cs1 @ ds2" "submissions ds2 = []" using connect_submissions[OF c] by blast
    obtain n2 cs3 where s3: "send_with_retry (cl_remote env) m c cs2 = (n2, cs3)" by fastforce
    obtain ds3 where d3: "cs3 = cs2 @ ds3" "submissions ds3 = [] \<or> submissions ds3 = [m]"
        "0 < n2 \<longrightarrow> ds3 = [Send (sock_fd c) m n2]"
      using send_submissions[OF s3] by blast
    obtain j k where jk: "j \<le> 1" "submissions ds1 = replicate j m" "k \<le> 1" "submissions ds3 = replicate k m"
    proof -
      have "\<exists>j \<le> 1. submissions ds1 = replicate j m" "\<exists>k \<le> 1. submissions ds3 = replicate k m"
        using d1(2) d3(2) by (auto intro: exI[of _ 0] exI[of _ 1])
      then show thesis using that by blast
    qed
    have k2: "\<exists>k \<le> 2. submissions (ds1 @ ds2 @ ds3) = replicate k m"
      using jk d2(2) by (intro exI[of _ "j + k"]) (simp add: replicate_add)
    have k3: "\<exists>k \<le> 2. submissions (ds1 @ ds2) = replicate k m"
      using jk d2(2) by (intro exI[of _ j]) simp
    show ?thesis
    proof (cases up)
      case True
      then show ?thesis
        using assms s1 False c s3 d1(1) d2(1) d3 k2
        by (intro exI[of _ "ds1 @ ds2 @ ds3"]) (auto simp: send_request_def intro: exI[of _ "ds1 @ ds2"])
    next
      case False
      then show ?thesis
        using assms s1 \<open>\<not> 0 < n\<close> c d1(1) d2(1) k3
        by (intro exI[of _ "ds1 @ ds2"]) (auto simp: send_request_def)
    qed
  qed
qed

text \<open>What one attempt does, and with which answer it aborts.\<close>

definition wrong_count :: "rpc_call list \<Rightarrow> bool" where
  "wrong_count cs \<longleftrightarrow> (\<exists>ds fd fd' request n response n'. cs = ds @ [Send fd request n, Receive fd' response n'] \<and>
     0 < n' \<and> sm_type (submit request) = WORD_COUNT \<and>
     rm_result (result response) \<noteq> of_nat (card (word_starts (sm_words (submit request)))))"

lemma create_task_words:
  assumes "create_task env (prepare_run r) m th = (sz, m', th')" and "sm_type (submit m') = WORD_COUNT"
  shows "sm_words (submit m') = generate_text (get_text_size sz) CLEAN"
  using assms
  by (auto simp: create_task_def create_mixed_task_def create_word_count_task_def create_synthetic_task_def
      random_size_def random_request_type_def prepare_run_def Let_def
      split: RequestType.splits prod.splits if_splits)

lemma generated_starts: "card (word_starts (generate_text n mode)) = n"
  by (simp add: scan_generate_text flip: scan_word_starts)

lemma attempt_trace:
  assumes "attempt env r i t th = (out, th')"
  shows "\<exists>cs. cl_calls th' = cl_calls th @ cs \<and> submits_only i t 2 cs \<and>
    length (cl_latencies th') = length (cl_latencies th) + (if out = RETRY then 0 else 1) \<and>
    (out = ABORTED \<longrightarrow> (\<forall>r0. r = prepare_run r0 \<longrightarrow> wrong_count (cl_calls th')))"
proof -
  obtain sz request th1 where t1: "create_task env r (submit_message i t) th = (sz, request, th1)" by (metis prod_cases3)
  note frame = create_task_submit[OF t1]
  define th2 where "th2 = th1\<lparr>readings := Suc (readings th1)\<rparr>"
  obtain sent th3 where t3: "send_request env r request th2 = (sent, th3)" by fastforce
  obtain cs k where cs: "cl_calls th3 = cl_calls th2 @ cs" "k \<le> 2" "submissions cs = replicate k request"
      "sent \<longrightarrow> (\<exists>ds fd n. cs = ds @ [Send fd request n])" "cl_latencies th3 = cl_latencies th2"
    using send_request_trace[OF t3] by blast
  have base: "cl_calls th2 = cl_calls th" "cl_latencies th2 = cl_latencies th" using frame by (simp_all add: th2_def)
  have req: "is_submit i request" "sm_task_id (submit request) = t"
    using frame by (simp_all add: is_submit_def submit_message_def Message_new_def)
  have only: "submits_only i t 2 cs" using cs(2,3) req by (simp add: submits_only_def list_all_iff)
  show ?thesis
  proof (cases sent)
    case False
    then show ?thesis
      using assms t1 t3 cs only base by (auto simp: attempt_def cl_now_def simp flip: th2_def)
  next
    case True
    obtain n response cs4 where rcv:
        "receive_with_retry (cl_remote env) Message_default (connection th3) (cl_calls th3) = (n, response, cs4)"
      by (metis prod_cases3)
    obtain es where es: "cs4 = cl_calls th3 @ es" "submissions es = []" "0 < n \<longrightarrow> es = [Receive (sock_fd (connection th3)) response n]"
      using rpc.receive_trace[OF rcv] by fastforce
    have only': "submits_only i t 2 (cs @ es)" using only es(2) by (simp add: submits_only_def)
    have words: "sm_words (submit request) = generate_text (get_text_size sz) CLEAN"
      if "sm_type (submit request) = WORD_COUNT" "r = prepare_run r0" for r0
      using create_task_words[of env r0] t1 that by blast
    obtain ds fd n0 where ds: "cs = ds @ [Send fd request n0]" using cs(4) True by blast
    have wrong: "wrong_count (cl_calls th @ cs @ es)"
      if "0 < n" "sm_type (submit request) = WORD_COUNT" "r = prepare_run r0"
        "rm_result (result response) \<noteq> of_nat (get_text_size sz)" for r0
      unfolding wrong_count_def
      using that words[of r0] es(3) ds generated_starts
      by (intro exI[of _ "cl_calls th @ ds"] exI[of _ fd] exI[of _ "sock_fd (connection th3)"] exI[of _ request]
          exI[of _ n0] exI[of _ response] exI[of _ n]) simp
    show ?thesis
      using assms t1 t3 rcv True cs(1,5) es(1) only' base wrong
      by (intro exI[of _ "cs @ es"])
        (auto simp: attempt_def cl_now_def Let_def simp flip: th2_def split: if_splits)
  qed
qed

lemma attempts_trace:
  assumes "attempts env r i t k th = (out, th')"
  shows "\<exists>cs. cl_calls th' = cl_calls th @ cs \<and> submits_only i t (2 * k) cs \<and>
    length (cl_latencies th') = length (cl_latencies th) + (if out = RETRY then 0 else 1) \<and>
    (out = ABORTED \<longrightarrow> (\<forall>r0. r = prepare_run r0 \<longrightarrow> wrong_count (cl_calls th')))"
  using assms
proof (induction k arbitrary: th)
  case 0
  then show ?case by (simp add: submits_only_def)
next
  case (Suc k)
  obtain out1 th1 where a: "attempt env r i t th = (out1, th1)" by fastforce
  obtain cs where cs: "cl_calls th1 = cl_calls th @ cs" "submits_only i t 2 cs"
      "length (cl_latencies th1) = length (cl_latencies th) + (if out1 = RETRY then 0 else 1)"
      "out1 = ABORTED \<longrightarrow> (\<forall>r0. r = prepare_run r0 \<longrightarrow> wrong_count (cl_calls th1))"
    using attempt_trace[OF a] by blast
  show ?case
  proof (cases "out1 = RETRY")
    case True
    then have "attempts env r i t k th1 = (out, th')" using Suc.prems a by simp
    from Suc.IH[OF this] obtain ds where ds: "cl_calls th' = cl_calls th1 @ ds" "submits_only i t (2 * k) ds"
      "length (cl_latencies th') = length (cl_latencies th1) + (if out = RETRY then 0 else 1)"
      "out = ABORTED \<longrightarrow> (\<forall>r0. r = prepare_run r0 \<longrightarrow> wrong_count (cl_calls th'))"
      by blast
    then show ?thesis
      using cs True submits_only_append[OF cs(2) ds(2)] by (intro exI[of _ "cs @ ds"]) simp
  next
    case False
    then show ?thesis
      using Suc.prems a cs by (intro exI[of _ cs]) (auto simp: submits_only_def)
  qed
qed

lemma tasks_loop_trace:
  assumes "tasks_loop env r i ts th = (out, th')"
  shows "\<exists>cs ks. cl_calls th' = cl_calls th @ cs \<and> length ks \<le> length ts \<and> list_all (\<lambda>k. k \<le> 6) ks \<and>
    list_all (is_submit i) (submissions cs) \<and>
    submitted_ids cs = concat (map2 replicate ks (map (\<lambda>t. num_tasks r * ucast i + t) ts)) \<and>
    length (cl_latencies th') + (if out = RETRY then 1 else 0) = length (cl_latencies th) + length ks \<and>
    (out = DONE \<longrightarrow> length ks = length ts) \<and>
    (out = ABORTED \<longrightarrow> (\<forall>r0. r = prepare_run r0 \<longrightarrow> wrong_count (cl_calls th')))"
  using assms
proof (induction ts arbitrary: th)
  case Nil
  then show ?case by (intro exI[of _ "[]"]) (simp add: submitted_ids_def)
next
  case (Cons t ts)
  let ?t = "num_tasks r * ucast i + t"
  obtain out1 th1 where a: "attempts env r i ?t (RETRY_TASK + 1) th = (out1, th1)" by fastforce
  obtain cs where cs: "cl_calls th1 = cl_calls th @ cs" "submits_only i ?t 6 cs"
      "length (cl_latencies th1) = length (cl_latencies th) + (if out1 = RETRY then 0 else 1)"
      "out1 = ABORTED \<longrightarrow> (\<forall>r0. r = prepare_run r0 \<longrightarrow> wrong_count (cl_calls th1))"
    using attempts_trace[OF a] unfolding RETRY_TASK_def by auto
  obtain k where k: "k \<le> 6" "submitted_ids cs = replicate k ?t" using submits_only_ids(1)[OF cs(2)] by blast
  note sub = submits_only_ids(2)[OF cs(2)]
  show ?case
  proof (cases "out1 = DONE")
    case True
    then have "tasks_loop env r i ts th1 = (out, th')" using Cons.prems a by simp
    from Cons.IH[OF this] obtain ds ks where ds: "cl_calls th' = cl_calls th1 @ ds" "length ks \<le> length ts"
        "list_all (\<lambda>k. k \<le> 6) ks" "list_all (is_submit i) (submissions ds)"
        "submitted_ids ds = concat (map2 replicate ks (map (\<lambda>t. num_tasks r * ucast i + t) ts))"
        "length (cl_latencies th') + (if out = RETRY then 1 else 0) = length (cl_latencies th1) + length ks"
        "out = DONE \<longrightarrow> length ks = length ts"
        "out = ABORTED \<longrightarrow> (\<forall>r0. r = prepare_run r0 \<longrightarrow> wrong_count (cl_calls th'))"
      by blast
    then show ?thesis
      using cs True k sub by (intro exI[of _ "cs @ ds"] exI[of _ "k # ks"]) simp
  next
    case False
    then show ?thesis
      using Cons.prems a cs k sub by (intro exI[of _ cs] exI[of _ "[k]"]) (auto split: if_splits)
  qed
qed

text \<open>The whole thread, from the first connection to the last close.\<close>

lemma client_worker_trace:
  assumes "client_worker env r i = (out, th)"
  shows "\<exists>ks. length ks \<le> unat (num_tasks r) \<and> list_all (\<lambda>k. k \<le> 6) ks \<and>
    list_all (is_submit i) (submissions (cl_calls th)) \<and>
    submitted_ids (cl_calls th) = concat (map2 replicate ks (map (\<lambda>t. num_tasks r * ucast i + of_nat t) [0..<unat (num_tasks r)])) \<and>
    length (cl_latencies th) + (if out = RETRY then 1 else 0) = length ks \<and>
    (out = DONE \<longrightarrow> length ks = unat (num_tasks r)) \<and> (out \<noteq> ABORTED \<longrightarrow> sock_fd (connection th) < 0) \<and>
    (out = ABORTED \<longrightarrow> (\<forall>r0. r = prepare_run r0 \<longrightarrow> wrong_count (cl_calls th)))"
proof -
  let ?ts = "map of_nat [0..<unat (num_tasks r)] :: u64 list"
  obtain up c cs0 where c: "Client_connect (cl_remote env) (router_address r) Client_new [] = (up, c, cs0)" by (metis prod_cases3)
  define th0 where "th0 = ClientThread_new\<lparr>connection := c, cl_calls := cs0\<rparr>"
  obtain out1 th1 where l: "tasks_loop env r i ?ts th0 = (out1, th1)" by fastforce
  obtain cs ks where cs: "cl_calls th1 = cs0 @ cs" "length ks \<le> unat (num_tasks r)" "list_all (\<lambda>k. k \<le> 6) ks"
      "list_all (is_submit i) (submissions cs)"
      "submitted_ids cs = concat (map2 replicate ks (map (\<lambda>t. num_tasks r * ucast i + of_nat t) [0..<unat (num_tasks r)]))"
      "length (cl_latencies th1) + (if out1 = RETRY then 1 else 0) = length ks"
      "out1 = DONE \<longrightarrow> length ks = unat (num_tasks r)"
      "out1 = ABORTED \<longrightarrow> (\<forall>r0. r = prepare_run r0 \<longrightarrow> wrong_count (cl_calls th1))"
    using tasks_loop_trace[OF l] by (auto simp: th0_def ClientThread_new_def comp_def)
  have cs0: "submissions cs0 = []" using connect_submissions[OF c] by auto
  obtain c2 cs2 where cl: "close_connection (connection th1) (cl_calls th1) = (c2, cs2)" by fastforce
  obtain ds where ds: "cs2 = cl_calls th1 @ ds" "submissions ds = []" using close_submissions[OF cl] by blast
  have closed: "sock_fd c2 < 0" using cl by (auto simp: close_connection_def split: if_splits)
  have res: "(out, th) = (if out1 = ABORTED then (out1, th1) else (out1, th1\<lparr>connection := c2, cl_calls := cs2\<rparr>))"
    using assms c l cl by (auto simp: client_worker_def ClientThread_new_def th0_def split: if_splits)
  show ?thesis
    using res cs cs0 ds closed by (intro exI[of _ ks]) (auto simp: submitted_ids_def split: if_splits)
qed

subsection \<open>The calls for one task\<close>

text \<open>No answer among the calls reports success.\<close>

definition no_success :: "rpc_call list \<Rightarrow> bool" where
  "no_success cs \<longleftrightarrow> (\<forall>fd m n. Receive fd m n \<in> set cs \<and> 0 < n \<longrightarrow> rm_success (result m) = 0)"

text \<open>The calls \<open>cs\<close> end with a submission of task \<open>t\<close> and the first answer that reports success.\<close>

definition answered_by :: "u32 \<Rightarrow> u64 \<Rightarrow> rpc_call list \<Rightarrow> bool" where
  "answered_by i t cs \<longleftrightarrow> (\<exists>ds fd request n fd' response n'. cs = ds @ [Send fd request n, Receive fd' response n'] \<and>
     no_success ds \<and> is_submit i request \<and> sm_task_id (submit request) = t \<and> 0 < n \<and> 0 < n' \<and> rm_success (result response) \<noteq> 0)"

text \<open>An attempt in vain: something was sent or the router refused a connection, and no answer reports success.\<close>

definition in_vain :: "address \<Rightarrow> rpc_call list \<Rightarrow> bool" where
  "in_vain addr cs \<longleftrightarrow> ((\<exists>fd m n. Send fd m n \<in> set cs) \<or> (\<exists>fd<0. Connect addr fd \<in> set cs)) \<and> no_success cs"

definition given_up :: "address \<Rightarrow> nat \<Rightarrow> rpc_call list \<Rightarrow> bool" where
  "given_up addr k cs \<longleftrightarrow> (\<exists>css. cs = concat css \<and> length css = k \<and> list_all (in_vain addr) css)"

lemma no_success_append [simp]: "no_success (cs @ ds) \<longleftrightarrow> no_success cs \<and> no_success ds"
  unfolding no_success_def set_append Un_iff by blast

lemma answered_by_prepend: "no_success ds \<Longrightarrow> answered_by i t cs \<Longrightarrow> answered_by i t (ds @ cs)"
proof -
  assume ds: "no_success ds" and "answered_by i t cs"
  then obtain cs' fd request n fd' response n' where "cs = cs' @ [Send fd request n, Receive fd' response n']"
      "no_success cs'" "is_submit i request" "sm_task_id (submit request) = t" "0 < n" "0 < n'" "rm_success (result response) \<noteq> 0"
    unfolding answered_by_def by blast
  then show ?thesis unfolding answered_by_def
    by (intro exI[of _ "ds @ cs'"] exI[of _ fd] exI[of _ request] exI[of _ n] exI[of _ fd'] exI[of _ response] exI[of _ n'])
      (simp add: ds)
qed

lemma given_up_Cons: "in_vain addr cs \<Longrightarrow> given_up addr k ds \<Longrightarrow> given_up addr (Suc k) (cs @ ds)"
  unfolding given_up_def by (metis concat.simps(2) length_Cons list.pred_inject(2))

text \<open>A call that submits \<open>m\<close>, or a refused connection.\<close>

primrec tries :: "address \<Rightarrow> Message \<Rightarrow> rpc_call \<Rightarrow> bool" where
  "tries addr m (Connect a fd) \<longleftrightarrow> a = addr \<and> fd < 0"
| "tries addr m (Send fd m' n) \<longleftrightarrow> m' = m"
| "tries addr m (Receive fd m' n) \<longleftrightarrow> False"
| "tries addr m (Close fd) \<longleftrightarrow> False"

lemma send_request_tries:
  assumes "send_request env r m th = (ok, th')" and "cl_calls th' = cl_calls th @ cs"
  shows "list_ex (tries (router_address r) m) cs" and "Receive fd x n \<notin> set cs"
  using assms
  by (auto simp: send_request_def send_with_retry_def Client_connect_def close_connection_def Let_def
      split: if_splits prod.splits)

lemma tries_in_vain: "list_ex (tries addr m) cs \<Longrightarrow> (\<And>fd x n. Receive fd x n \<notin> set cs) \<Longrightarrow> in_vain addr cs"
proof -
  assume "list_ex (tries addr m) cs" and no: "\<And>fd x n. Receive fd x n \<notin> set cs"
  then obtain c where "c \<in> set cs" "tries addr m c" by (auto simp: list_ex_iff)
  then have "(\<exists>fd x n. Send fd x n \<in> set cs) \<or> (\<exists>fd<0. Connect addr fd \<in> set cs)"
    by (cases rule: rpc_call.exhaust[of c]) auto
  then show ?thesis using no by (simp add: in_vain_def no_success_def)
qed

lemma attempt_segment:
  assumes "attempt env r i t th = (out, th')" and "cl_calls th' = cl_calls th @ cs"
  shows "if out = RETRY then in_vain (router_address r) cs else answered_by i t cs"
proof -
  obtain sz request th1 where t1: "create_task env r (submit_message i t) th = (sz, request, th1)" by (metis prod_cases3)
  note frame = create_task_submit[OF t1]
  define th2 where "th2 = th1\<lparr>readings := Suc (readings th1)\<rparr>"
  obtain sent th3 where t3: "send_request env r request th2 = (sent, th3)" by fastforce
  obtain ds where ds: "cl_calls th3 = cl_calls th2 @ ds" "sent \<longrightarrow> (\<exists>es fd n. ds = es @ [Send fd request n] \<and> 0 < n)"
    using send_request_trace[OF t3] by blast
  note tries = send_request_tries[OF t3 ds(1)]
  have base: "cl_calls th2 = cl_calls th" using frame by (simp add: th2_def)
  have req: "is_submit i request" "sm_task_id (submit request) = t"
    using frame by (simp_all add: is_submit_def submit_message_def Message_new_def)
  obtain n response cs4 where rcv:
      "receive_with_retry (cl_remote env) Message_default (connection th3) (cl_calls th3) = (n, response, cs4)"
    by (metis prod_cases3)
  obtain es where es: "cs4 = cl_calls th3 @ es" "\<forall>c\<in>set es. \<exists>fd. c = Receive fd response n"
      "0 < n \<longrightarrow> (\<exists>fd. es = [Receive fd response n])"
    using rcv by (auto simp: receive_with_retry_def Let_def split: if_splits prod.splits)
  have vain: "in_vain (router_address r) ds" using tries by (rule tries_in_vain)
  have vain': "in_vain (router_address r) (ds @ es)" if "n \<le> 0 \<or> rm_success (result response) = 0"
    using vain es(2) that by (fastforce simp: in_vain_def no_success_def)
  have good: "answered_by i t (ds @ es)" if "sent" "0 < n" "rm_success (result response) \<noteq> 0"
  proof -
    obtain cs' fd k fd' where "ds = cs' @ [Send fd request k]" "0 < k" "es = [Receive fd' response n]"
      using ds(2) es(3) \<open>sent\<close> \<open>0 < n\<close> by blast
    moreover have "no_success ds" using vain by (simp add: in_vain_def)
    ultimately show ?thesis using req \<open>0 < n\<close> \<open>rm_success (result response) \<noteq> 0\<close> unfolding answered_by_def by fastforce
  qed
  show ?thesis
    using assms t1 t3 rcv ds(1) es(1) base vain vain' good
    by (auto simp: attempt_def cl_now_def Let_def simp flip: th2_def split: if_splits)
qed

lemma attempts_segment:
  assumes "attempts env r i t k th = (out, th')"
  shows "\<exists>cs. cl_calls th' = cl_calls th @ cs \<and> submits_only i t (2 * k) cs \<and>
    length (cl_latencies th') = length (cl_latencies th) + (if out = RETRY then 0 else 1) \<and>
    (if out = RETRY then given_up (router_address r) k cs else answered_by i t cs)"
  using assms
proof (induction k arbitrary: th)
  case 0
  then show ?case by (auto simp: submits_only_def given_up_def)
next
  case (Suc k)
  obtain out1 th1 where a: "attempt env r i t th = (out1, th1)" by fastforce
  obtain cs where cs: "cl_calls th1 = cl_calls th @ cs" "submits_only i t 2 cs"
      "length (cl_latencies th1) = length (cl_latencies th) + (if out1 = RETRY then 0 else 1)"
    using attempt_trace[OF a] by blast
  note seg = attempt_segment[OF a cs(1)]
  show ?case
  proof (cases "out1 = RETRY")
    case True
    then have "attempts env r i t k th1 = (out, th')" using Suc.prems a by simp
    from Suc.IH[OF this] obtain ds where ds: "cl_calls th' = cl_calls th1 @ ds" "submits_only i t (2 * k) ds"
      "length (cl_latencies th') = length (cl_latencies th1) + (if out = RETRY then 0 else 1)"
      "if out = RETRY then given_up (router_address r) k ds else answered_by i t ds"
      by blast
    have "if out = RETRY then given_up (router_address r) (Suc k) (cs @ ds) else answered_by i t (cs @ ds)"
      using ds(4) seg True given_up_Cons[of "router_address r" cs k ds] answered_by_prepend[of cs i t ds]
      by (auto simp: in_vain_def)
    then show ?thesis
      using cs ds(1,3) True submits_only_append[OF cs(2) ds(2)] by (intro exI[of _ "cs @ ds"]) simp
  next
    case False
    then have "out = out1" "th' = th1" using Suc.prems a by simp_all
    then show ?thesis
      using False cs seg by (intro exI[of _ cs]) (auto simp: submits_only_def)
  qed
qed

lemma tasks_loop_segments:
  assumes "tasks_loop env r i ts th = (out, th')"
  shows "\<exists>segs rest. cl_calls th' = cl_calls th @ concat segs @ rest \<and> length segs \<le> length ts \<and>
    list_all2 (\<lambda>cs t. submits_only i (num_tasks r * ucast i + t) 6 cs \<and> answered_by i (num_tasks r * ucast i + t) cs)
      segs (take (length segs) ts) \<and>
    length (cl_latencies th') = length (cl_latencies th) + length segs \<and> (out = DONE \<longrightarrow> length segs = length ts) \<and>
    (if out = RETRY then length segs < length ts \<and> submits_only i (num_tasks r * ucast i + ts ! length segs) 6 rest \<and>
       given_up (router_address r) 3 rest else rest = [])"
  using assms
proof (induction ts arbitrary: th)
  case Nil
  then show ?case by (intro exI[of _ "[]"]) simp
next
  case (Cons t ts)
  let ?t = "num_tasks r * ucast i + t"
  have three: "RETRY_TASK + 1 = 3" and six: "2 * 3 = (6::nat)" by (simp_all add: RETRY_TASK_def)
  obtain out1 th1 where a: "attempts env r i ?t (RETRY_TASK + 1) th = (out1, th1)" by fastforce
  obtain cs where cs: "cl_calls th1 = cl_calls th @ cs" "submits_only i ?t 6 cs"
      "length (cl_latencies th1) = length (cl_latencies th) + (if out1 = RETRY then 0 else 1)"
      "if out1 = RETRY then given_up (router_address r) 3 cs else answered_by i ?t cs"
    using attempts_segment[OF a[unfolded three]] by (simp only: six) blast
  consider "out1 = DONE" | "out1 = RETRY" | "out1 = ABORTED" by (cases out1)
  then show ?case
  proof cases
    case 1
    then have "tasks_loop env r i ts th1 = (out, th')" using Cons.prems a by simp
    from Cons.IH[OF this] obtain segs rest where IH: "cl_calls th' = cl_calls th1 @ concat segs @ rest" "length segs \<le> length ts"
      "list_all2 (\<lambda>cs t. submits_only i (num_tasks r * ucast i + t) 6 cs \<and> answered_by i (num_tasks r * ucast i + t) cs)
        segs (take (length segs) ts)"
      "length (cl_latencies th') = length (cl_latencies th1) + length segs" "out = DONE \<longrightarrow> length segs = length ts"
      "if out = RETRY then length segs < length ts \<and> submits_only i (num_tasks r * ucast i + ts ! length segs) 6 rest \<and>
        given_up (router_address r) 3 rest else rest = []"
      by blast
    then show ?thesis using cs 1 by (intro exI[of _ "cs # segs"] exI[of _ rest]) (auto split: if_splits)
  next
    case 2
    then show ?thesis using Cons.prems a cs by (intro exI[of _ "[]"] exI[of _ cs]) auto
  next
    case 3
    then show ?thesis using Cons.prems a cs by (intro exI[of _ "[cs]"] exI[of _ "[]"]) auto
  qed
qed

text \<open>The range of ids of client \<open>i\<close>; distinct clients have disjoint ranges if the ids fit into 64 bits.\<close>

definition id_range :: "u64 \<Rightarrow> u32 \<Rightarrow> nat set" where
  "id_range tasks i = {unat tasks * unat i ..< unat tasks * (unat i + 1)}"

lemma id_ranges_disjoint: "i \<noteq> j \<Longrightarrow> id_range tasks i \<inter> id_range tasks j = {}"
proof (induction i j rule: linorder_wlog)
  case (le i j)
  then have "i < j" by simp
  then have "unat i + 1 \<le> unat j" by (simp add: word_less_nat_alt)
  then have "unat tasks * (unat i + 1) \<le> unat tasks * unat j" by (rule mult_le_mono2)
  then show ?case by (auto simp: id_range_def simp del: mult_Suc_right add_Suc_right)
next
  case (sym i j)
  then show ?case by blast
qed

lemma unat_task_id:
  assumes "unat tasks * unat n \<le> 2 ^ 64" and "i < n" and "t < unat tasks"
  shows "unat ((tasks :: u64) * ucast (i :: u32) + of_nat t) = unat tasks * unat i + t"
proof -
  have "unat tasks * unat i + t < unat tasks * (unat i + 1)" using assms(3) by simp
  also have "\<dots> \<le> unat tasks * unat (n :: u32)" using assms(2) by (intro mult_le_mono2) (simp add: word_less_nat_alt)
  also note assms(1)
  finally have lt: "unat tasks * unat i + t < 2 ^ 64" .
  have "tasks * ucast i + of_nat t = (of_nat (unat tasks * unat i + t) :: u64)"
    by (simp add: of_nat_unat)
  then show ?thesis using lt by (simp only: unsigned_of_nat) (simp add: take_bit_nat_eq_self)
qed

lemma set_concat_map2_replicate: "set (concat (map2 replicate ks xs)) \<subseteq> set xs"
  by (auto dest: set_zip_rightD)

text \<open>C29:
  A client thread submits its own range of task ids, in order and without gaps. After the
  connection its calls fall into one group per task \<open>t = 0, 1, \<dots>\<close>: everything sent in
  the group is a SUBMIT with the thread's client id and the task id \<open>num_tasks * id + t\<close>, at most
  six times (three attempts, each with at most one reconnection), and the group ends with such a
  submission and the first answer of the group that reports success, for which one latency was recorded; so no task is submitted before the
  one before it was answered. The thread ends with all tasks answered, or with a failed assertion
  after the last answer, or gives up on the next task after three attempts in each of which it
  sent something or was refused a connection and got no answer that reports success. Unless it aborts, it then
  closes its connection.
\<close>

theorem client_submits_range:
  assumes "client_worker env r i = (out, th)"
  shows "\<exists>fd segs rest closing. cl_calls th = Connect (router_address r) fd # concat segs @ rest @ closing \<and>
    length segs = length (cl_latencies th) \<and> length segs \<le> unat (num_tasks r) \<and>
    (\<forall>t<length segs. submits_only i (num_tasks r * ucast i + of_nat t) 6 (segs ! t) \<and>
       answered_by i (num_tasks r * ucast i + of_nat t) (segs ! t)) \<and>
    (out = DONE \<longrightarrow> length segs = unat (num_tasks r)) \<and>
    (if out = RETRY then length segs < unat (num_tasks r) \<and>
       submits_only i (num_tasks r * ucast i + of_nat (length segs)) 6 rest \<and> given_up (router_address r) 3 rest
     else rest = []) \<and>
    (if out = ABORTED then closing = [] else (\<forall>c\<in>set closing. \<exists>fd. c = Close fd) \<and> sock_fd (connection th) < 0)"
proof -
  let ?ts = "map of_nat [0..<unat (num_tasks r)] :: u64 list"
  obtain up c cs0 where c: "Client_connect (cl_remote env) (router_address r) Client_new [] = (up, c, cs0)" by (metis prod_cases3)
  then have cs0: "cs0 = [Connect (router_address r) (sock_fd c)]"
    by (auto simp: Client_connect_def close_connection_def Client_new_def Let_def)
  define th0 where "th0 = ClientThread_new\<lparr>connection := c, cl_calls := cs0\<rparr>"
  have start: "cl_calls th0 = cs0" "cl_latencies th0 = []" by (simp_all add: th0_def ClientThread_new_def)
  obtain out1 th1 where l: "tasks_loop env r i ?ts th0 = (out1, th1)" by fastforce
  obtain segs rest where s: "cl_calls th1 = cs0 @ concat segs @ rest" "length segs \<le> unat (num_tasks r)"
      "list_all2 (\<lambda>cs t. submits_only i (num_tasks r * ucast i + t) 6 cs \<and> answered_by i (num_tasks r * ucast i + t) cs)
        segs (take (length segs) ?ts)"
      "length (cl_latencies th1) = length segs" "out1 = DONE \<longrightarrow> length segs = unat (num_tasks r)"
      "if out1 = RETRY then length segs < unat (num_tasks r) \<and> submits_only i (num_tasks r * ucast i + ?ts ! length segs) 6 rest \<and>
        given_up (router_address r) 3 rest else rest = []"
    using tasks_loop_segments[OF l] by (simp only: start length_map length_upt diff_zero list.size(3) add_0) blast
  have last: "out1 = RETRY \<longrightarrow> submits_only i (num_tasks r * ucast i + of_nat (length segs)) 6 rest"
    using s(6) by (auto split: if_splits)
  have segs: "\<forall>t<length segs. submits_only i (num_tasks r * ucast i + of_nat t) 6 (segs ! t) \<and>
      answered_by i (num_tasks r * ucast i + of_nat t) (segs ! t)"
    using s(2,3) by (simp add: list_all2_conv_all_nth)
  obtain c2 cs2 where cl: "close_connection (connection th1) (cl_calls th1) = (c2, cs2)" by fastforce
  obtain ds where ds: "cs2 = cl_calls th1 @ ds" "\<forall>d\<in>set ds. \<exists>fd. d = Close fd" "sock_fd c2 < 0"
    using cl by (auto simp: close_connection_def split: if_splits)
  have res: "(out, th) = (if out1 = ABORTED then (out1, th1) else (out1, th1\<lparr>connection := c2, cl_calls := cs2\<rparr>))"
    using assms c l cl by (auto simp: client_worker_def ClientThread_new_def th0_def split: if_splits)
  show ?thesis
    by (rule exI[of _ "sock_fd c"], rule exI[of _ segs], rule exI[of _ rest], rule exI[of _ "if out1 = ABORTED then [] else ds"])
      (use res s(1,2,4-6) last cs0 segs ds in \<open>auto split: if_splits\<close>)
qed

lemma submitted_range:
  assumes "unat (num_tasks r) * unat (num_clients r) \<le> 2 ^ 64" and "i < num_clients r"
    and "client_worker env r i = (out, th)"
  shows "unat ` set (submitted_ids (cl_calls th)) \<subseteq> id_range (num_tasks r) i"
proof -
  let ?ids = "map (\<lambda>t. num_tasks r * ucast i + of_nat t) [0..<unat (num_tasks r)]"
  obtain ks where "submitted_ids (cl_calls th) = concat (map2 replicate ks ?ids)"
    using client_worker_trace[OF assms(3)] by blast
  then have "set (submitted_ids (cl_calls th)) \<subseteq> set ?ids"
    using set_concat_map2_replicate[of ks ?ids] by simp
  then show ?thesis
    using unat_task_id[OF assms(1,2)] by (fastforce simp: id_range_def)
qed

text \<open>
  Two clients of a load generator never submit the same task id, as long as the ids of all
  clients fit into 64 bits.
\<close>

theorem client_ids_disjoint:
  assumes "unat (num_tasks r) * unat (num_clients r) \<le> 2 ^ 64" and "i < num_clients r" and "j < num_clients r" and "i \<noteq> j"
    and "client_worker env r i = (out, th)" and "client_worker env' r j = (out', th')"
  shows "set (submitted_ids (cl_calls th)) \<inter> set (submitted_ids (cl_calls th')) = {}"
  using submitted_range[OF assms(1,2,5)] submitted_range[OF assms(1,3,6)] id_ranges_disjoint[OF assms(4), of "num_tasks r"]
  by blast

text \<open>C30:
  A client aborts only on a wrong answer: when the assertion of a thread of a running load
  generator fails, its last two calls are a word-count request and an answer whose number is
  not the number of words of the text that was sent.
\<close>

theorem client_abort_wrong_answer:
  assumes "client_worker env (prepare_run r) i = (ABORTED, th)"
  shows "\<exists>cs fd fd' request n response n'. cl_calls th = cs @ [Send fd request n, Receive fd' response n'] \<and> 0 < n' \<and>
    sm_type (submit request) = WORD_COUNT \<and>
    rm_result (result response) \<noteq> of_nat (card (word_starts (sm_words (submit request))))"
  using client_worker_trace[OF assms] unfolding wrong_count_def by blast

text \<open>A network that accepts everything and always gives the same answer.\<close>

definition answering :: "u32 \<Rightarrow> int \<Rightarrow> ClientEnv" where
  "answering count idx = \<lparr>cl_remote = \<lparr>connect_result = \<lambda>_. 5, send_result_at = \<lambda>_. 1,
       receive_result = \<lambda>_. (1, (Message_new RESULT)\<lparr>result := \<lparr>rm_task_id = 0, rm_result = count, rm_success = 1\<rparr>\<rparr>)\<rparr>,
     cl_clock = \<lambda>n. of_nat (1000 * n), coin = \<lambda>_. True, size_draw = \<lambda>_. idx\<rparr>"

definition two_clients :: "RequestType \<Rightarrow> ClientRunner" where
  "two_clients ty = ClientRunner_new 2 2 9000 ''127.0.0.1'' ty"

lemma upt_0_2: "[0..<2] = [0, Suc 0]"
  by (simp add: numeral_2_eq_2)

lemmas client_eval = client_worker_def ClientThread_new_def two_clients_def ClientRunner_new_def Client_connect_def
  close_connection_def Client_new_def answering_def attempt_def create_task_def create_synthetic_task_def create_word_count_task_def
  random_size_def cl_now_def send_request_def send_with_retry_def receive_with_retry_def RETRY_TASK_def submit_message_def
  Message_new_def ResultMsg_default_def SubmitMsg_default_def upt_0_2 Let_def submitted_ids_def

lemma two_clients_run:
  "fst (client_worker (answering 0 0) (two_clients REQ_SYNTHETIC) 0) = DONE"
  "submitted_ids (cl_calls (snd (client_worker (answering 0 0) (two_clients REQ_SYNTHETIC) 0))) = [0, 1]"
  "submitted_ids (cl_calls (snd (client_worker (answering 0 0) (two_clients REQ_SYNTHETIC) 1))) = [2, 3]"
  by (simp_all add: client_eval numeral_3_eq_3)

theorem client_submits_range_witness:
  "length (cl_latencies (snd (client_worker (answering 0 0) (two_clients REQ_SYNTHETIC) 0))) = 2"
  using client_submits_range[of "answering 0 0" "two_clients REQ_SYNTHETIC" 0, OF surjective_pairing] two_clients_run(1)
  by (auto simp: two_clients_def ClientRunner_new_def)

theorem client_ids_disjoint_witness:
  "set (submitted_ids (cl_calls (snd (client_worker (answering 0 0) (two_clients REQ_SYNTHETIC) 0)))) \<inter>
   set (submitted_ids (cl_calls (snd (client_worker (answering 0 0) (two_clients REQ_SYNTHETIC) 1)))) = {} \<and>
   submitted_ids (cl_calls (snd (client_worker (answering 0 0) (two_clients REQ_SYNTHETIC) 1))) = [2, 3]"
  using client_ids_disjoint[of "two_clients REQ_SYNTHETIC" 0 1 "answering 0 0" _ _ "answering 0 0", OF _ _ _ _ surjective_pairing surjective_pairing]
    two_clients_run(3)
  by (simp add: two_clients_def ClientRunner_new_def)

theorem client_abort_wrong_answer_witness:
  "fst (client_worker (answering 7 0) (prepare_run (two_clients REQ_WORD_COUNT)) 0) = ABORTED \<and>
   (\<exists>cs fd fd' request n response n'.
     cl_calls (snd (client_worker (answering 7 0) (prepare_run (two_clients REQ_WORD_COUNT)) 0)) =
       cs @ [Send fd request n, Receive fd' response n'] \<and> sm_type (submit request) = WORD_COUNT \<and>
     rm_result (result response) \<noteq> of_nat (card (word_starts (sm_words (submit request)))))"
proof -
  let ?c = "client_worker (answering 7 0) (prepare_run (two_clients REQ_WORD_COUNT)) 0"
  have out: "fst ?c = ABORTED"
    by (simp add: client_eval prepare_run_def SHORT_TEXT_WORDS_def numeral_3_eq_3)
  then show ?thesis
    using client_abort_wrong_answer[of "answering 7 0" "two_clients REQ_WORD_COUNT" 0 "snd ?c"] by (metis surjective_pairing)
qed

subsection \<open>Late answers\<close>

text \<open>
  A retry draws the size of the task again but keeps its id, and an answer is not compared with
  the request it is for.
\<close>

lemma word_attempt:
  assumes "req_type r = REQ_WORD_COUNT" and "0 \<le> sock_fd (connection th)"
    and "0 < send_result_at (cl_remote env) (length (cl_calls th))"
  shows "attempt env r i t th = (let
      sz = fst (random_size env th);
      request = fst (snd (create_word_count_task env r (submit_message i t) th));
      cs = cl_calls th @ [Send (sock_fd (connection th)) request (send_result_at (cl_remote env) (length (cl_calls th)))];
      (n, m) = receive_result (cl_remote env) (length (cl_calls th) + 1);
      m' = (if 0 < n then m else Message_default);
      th' = th\<lparr>cl_calls := cs @ [Receive (sock_fd (connection th)) m' n], readings := readings th + 2\<rparr>
    in if n \<le> 0 then (RETRY, th')
    else let th' = th'\<lparr>readings := readings th + 3\<rparr> in if rm_success (result m) = 0 then (RETRY, th')
    else (if rm_result (result m) \<noteq> of_nat (get_text_size sz) then ABORTED else DONE,
      th'\<lparr>cl_latencies := cl_latencies th @ [(cl_clock env (readings th + 2) - cl_clock env (readings th + 1)) div 1000]\<rparr>))"
  using assms
  by (auto simp: attempt_def create_task_def create_word_count_task_def random_size_def cl_now_def send_request_def
      send_with_retry_def receive_with_retry_def Let_def split: prod.splits)

text \<open>C31:
  A correct answer that arrives late aborts the client. A thread submits a long text, its
  wait times out, the retry submits a short text under the same task id, and then the result of
  the first submission arrives: its number is that of the words of the first text, but
  the assertion compares it with the size of the second, and the process aborts.
\<close>

theorem late_answer_aborts:
  assumes "r = prepare_run r0" and "req_type r0 = REQ_WORD_COUNT" and "0 \<le> sock_fd (connection th)"
    and "size_draw env (readings th) = 2" and "size_draw env (readings th + 2) = 0"
    and "\<forall>k. 0 < send_result_at (cl_remote env) k"
    and "fst (receive_result (cl_remote env) (length (cl_calls th) + 1)) \<le> 0"
    and "receive_result (cl_remote env) (length (cl_calls th) + 3) = (n, response)" and "0 < n"
    and "result response = \<lparr>rm_task_id = t, rm_result = of_nat (card (word_starts (long_text r))), rm_success = 1\<rparr>"
  shows "\<exists>th' first second. attempts env r i t (RETRY_TASK + 1) th = (ABORTED, th') \<and>
    submissions (cl_calls th') = submissions (cl_calls th) @ [first, second] \<and>
    sm_task_id (submit first) = t \<and> sm_task_id (submit second) = t \<and>
    rm_result (result response) = of_nat (card (word_starts (sm_words (submit first))))"
proof -
  have ty: "req_type r = REQ_WORD_COUNT" using assms(1,2) by (simp add: prepare_run_def Let_def)
  have long: "long_text r = generate_text LONG_TEXT_WORDS CLEAN" using assms(1,2) by (simp add: prepare_run_def Let_def)
  obtain n1 m1 where r1: "receive_result (cl_remote env) (length (cl_calls th) + 1) = (n1, m1)" "n1 \<le> 0"
    using assms(7) by (metis prod.collapse)
  define first where "first = fst (snd (create_word_count_task env r (submit_message i t) th))"
  define th1 where "th1 = th\<lparr>cl_calls := cl_calls th @
      [Send (sock_fd (connection th)) first (send_result_at (cl_remote env) (length (cl_calls th)))] @
      [Receive (sock_fd (connection th)) Message_default n1], readings := readings th + 2\<rparr>"
  have a1: "attempt env r i t th = (RETRY, th1)"
    using word_attempt[OF ty assms(3) spec[OF assms(6)], of i t] r1
    by (simp add: Let_def th1_def flip: first_def)
  have first: "sm_task_id (submit first) = t" "sm_words (submit first) = long_text r"
    using assms(4) by (simp_all add: first_def create_word_count_task_def random_size_def submit_message_def Let_def)
  define second where "second = fst (snd (create_word_count_task env r (submit_message i t) th1))"
  have second: "sm_task_id (submit second) = t"
    by (simp add: second_def create_word_count_task_def random_size_def submit_message_def Let_def)
  have th1: "0 \<le> sock_fd (connection th1)" "length (cl_calls th1) + 1 = length (cl_calls th) + 3"
    "readings th1 = readings th + 2"
    using assms(3) by (simp_all add: th1_def)
  have sz: "fst (random_size env th1) = SHORT" using assms(5) th1(3) by (simp add: random_size_def Let_def)
  have ne: "rm_result (result response) \<noteq> of_nat (get_text_size SHORT)" "rm_success (result response) \<noteq> 0"
    using assms(10) long by (simp_all add: generated_starts LONG_TEXT_WORDS_def SHORT_TEXT_WORDS_def)
  have r2: "receive_result (cl_remote env) (length (cl_calls th1) + 1) = (n, response)" using assms(8) th1(2) by (simp only:)
  obtain th2 where a2: "attempt env r i t th1 = (ABORTED, th2)" "submissions (cl_calls th2) = submissions (cl_calls th1) @ [second]"
    using word_attempt[OF ty th1(1) spec[OF assms(6)], of i t] r2 assms(9) sz ne
    by (simp add: Let_def flip: second_def)
  have "attempts env r i t (RETRY_TASK + 1) th = (ABORTED, th2)"
    using a1 a2(1) by (simp add: RETRY_TASK_def numeral_3_eq_3)
  then show ?thesis
    using a2(2) first second assms(10) by (intro exI[of _ th2] exI[of _ first] exI[of _ second]) (simp add: th1_def)
qed

definition late_env :: ClientEnv where
  "late_env = \<lparr>cl_remote = \<lparr>connect_result = \<lambda>_. 5, send_result_at = \<lambda>_. 1,
       receive_result = \<lambda>k. if k = 1 then (-2, Message_default)
         else (1, (Message_new RESULT)\<lparr>result := \<lparr>rm_task_id = 3, rm_result = 1000, rm_success = 1\<rparr>\<rparr>)\<rparr>,
     cl_clock = of_nat, coin = \<lambda>_. True, size_draw = \<lambda>n. if n = 0 then 2 else 0\<rparr>"

theorem late_answer_aborts_witness:
  "\<exists>th'. attempts late_env (prepare_run (two_clients REQ_WORD_COUNT)) 1 3 (RETRY_TASK + 1)
     (ClientThread_new\<lparr>connection := \<lparr>sock_fd = 5\<rparr>\<rparr>) = (ABORTED, th') \<and> length (submissions (cl_calls th')) = 2"
proof -
  let ?r = "prepare_run (two_clients REQ_WORD_COUNT)" and ?th = "ClientThread_new\<lparr>connection := \<lparr>sock_fd = 5\<rparr>\<rparr>"
  have long: "card (word_starts (long_text ?r)) = 1000"
    by (simp add: prepare_run_def two_clients_def ClientRunner_new_def Let_def generated_starts LONG_TEXT_WORDS_def)
  have ty: "req_type (two_clients REQ_WORD_COUNT) = REQ_WORD_COUNT" by (simp add: two_clients_def ClientRunner_new_def)
  have ex: "\<exists>th' first second. attempts late_env ?r 1 3 (RETRY_TASK + 1) ?th = (ABORTED, th') \<and>
      submissions (cl_calls th') = submissions (cl_calls ?th) @ [first, second] \<and>
      sm_task_id (submit first) = 3 \<and> sm_task_id (submit second) = 3 \<and>
      rm_result (result ((Message_new RESULT)\<lparr>result := \<lparr>rm_task_id = 3, rm_result = 1000, rm_success = 1\<rparr>\<rparr>)) =
        of_nat (card (word_starts (sm_words (submit first))))"
    by (rule late_answer_aborts[OF refl, where n = 1])
      (simp_all add: late_env_def ClientThread_new_def long ty)
  then show ?thesis by (auto simp: ClientThread_new_def)
qed

subsection \<open>Statistics\<close>

lemma stats_fold:
  "fold stats_step xs (completed, mx, mn, acc, cleaned) =
     (completed + of_nat (length xs), fold max xs mx, fold min xs mn, acc + sum_list xs, cleaned @ xs)"
  by (induction xs arbitrary: completed mx mn acc cleaned)
    (simp_all add: stats_step_def max.commute min.commute ac_simps)

lemma stats_fold_rows:
  "fold (fold stats_step) rows (completed, mx, mn, acc, cleaned) =
     (let xs = concat rows in
      (completed + of_nat (length xs), fold max xs mx, fold min xs mn, acc + sum_list xs, cleaned @ xs))"
  by (induction rows arbitrary: completed mx mn acc cleaned) (simp_all add: stats_fold Let_def ac_simps)

lemma fold_max_word: "xs \<noteq> [] \<Longrightarrow> fold max xs (0 :: u64) = Max (set xs)"
  using Max.set_eq_fold[of 0 xs] by (simp add: Max_insert[of "set xs" 0] max_absorb2)

lemma fold_min_word: "xs \<noteq> [] \<Longrightarrow> fold min xs (-1 :: u64) = Min (set xs)"
  using Min.set_eq_fold[of "-1" xs] by (simp add: Min_insert[of "set xs" "-1"] min_absorb2)

text \<open>The index of a quantile in 64-bit arithmetic is that of the natural numbers.\<close>

lemma quantile_index:
  assumes "n * 95 < 2 ^ 64"
  shows "unat (of_nat n div 2 :: u64) = n div 2" and "unat (of_nat n * 95 div 100 :: u64) = n * 95 div 100"
proof -
  have n: "unat (of_nat n :: u64) = n" using assms by (simp add: unat_of_nat)
  then have "unat (of_nat n * 95 :: u64) = n * 95" using assms by (simp add: unat_word_ariths)
  then show "unat (of_nat n * 95 div 100 :: u64) = n * 95 div 100" by (simp add: unat_div)
  show "unat (of_nat n div 2 :: u64) = n div 2" using n by (simp add: unat_div)
qed

definition has_rank :: "u64 list \<Rightarrow> nat \<Rightarrow> u64 \<Rightarrow> bool" where
  "has_rank xs k v \<longleftrightarrow> v \<in> set xs \<and> k < length (filter (\<lambda>x. x \<le> v) xs) \<and>
     length xs - k \<le> length (filter (\<lambda>x. v \<le> x) xs)"

lemma sort_has_rank: "k < length xs \<Longrightarrow> has_rank xs k (sort xs ! k)"
  using sorted_nth_rank[of "sort xs" k] nth_mem[of k "sort xs"] by (simp add: has_rank_def filter_sort_length)

text \<open>C32:
  The summary of a run is that of all the latencies of all clients: their number, minimum,
  maximum, and as 50th and 95th percentile samples of the right rank (at least \<open>n / 2\<close>, or
  \<open>95 n / 100\<close>, samples are smaller or equal and the others are at least as large); no index
  is outside the samples. Without any latency everything is zero.
\<close>

theorem compute_stats_correct:
  assumes "length (concat rows) * 95 < 2 ^ 64"
  shows "\<exists>st. compute_stats fl rows seconds = Some st \<and> st_completed st = of_nat (length (concat rows)) \<and>
    (if concat rows = [] then st_min_latency_us st = 0 \<and> st_max_latency_us st = 0 \<and> st_p50_latency_us st = 0 \<and> st_p95_latency_us st = 0
     else st_min_latency_us st = Min (set (concat rows)) \<and> st_max_latency_us st = Max (set (concat rows)) \<and>
       has_rank (concat rows) (length (concat rows) div 2) (st_p50_latency_us st) \<and>
       has_rank (concat rows) (length (concat rows) * 95 div 100) (st_p95_latency_us st))"
proof -
  define xs where "xs = concat rows"
  have acc: "fold (fold stats_step) rows (0, 0, -1, 0, []) = (of_nat (length xs), fold max xs 0, fold min xs (-1), sum_list xs, xs)"
    by (simp add: stats_fold_rows Let_def xs_def)
  have idx: "unat (of_nat (length xs) div 2 :: u64) = length xs div 2"
      "unat (of_nat (length xs) * 95 div 100 :: u64) = length xs * 95 div 100"
    using quantile_index assms by (simp_all add: xs_def)
  show ?thesis
  proof (cases "xs = []")
    case True
    then show ?thesis using acc by (simp add: compute_stats_def Let_def xs_def[symmetric])
  next
    case False
    have pos: "(0 :: u64) < of_nat (length xs)"
    proof -
      have "unat (of_nat (length xs) :: u64) = length xs" using assms by (simp add: unat_of_nat xs_def)
      then show ?thesis using False by (simp add: word_less_nat_alt)
    qed
    have lt: "length xs div 2 < length xs" "length xs * 95 div 100 < length xs"
      using False by (simp_all add: div_less_iff_less_mult)
    then show ?thesis
      using acc idx pos False sort_has_rank[OF lt(1)] sort_has_rank[OF lt(2)] fold_max_word[OF False] fold_min_word[OF False]
      by (simp add: compute_stats_def Let_def nth_checked_def xs_def[symmetric])
  qed
qed

definition rat_ops :: "rat FloatOps" where
  "rat_ops = \<lparr>of_u64 = \<lambda>n. of_nat (unat n), quotient = (/), positive = \<lambda>q. 0 < q, zero_double = 0,
     to_seconds = \<lambda>n. of_nat (unat n) / 1000000000\<rparr>"

theorem compute_stats_correct_witness:
  "\<exists>st :: rat Stats. compute_stats rat_ops [[40, 10], [], [30]] 2 = Some st \<and> st_completed st = 3 \<and> st_min_latency_us st = 10 \<and>
     st_max_latency_us st = 40"
  using compute_stats_correct[of "[[40, 10], [], [30]]" rat_ops 2] by (auto simp: numeral_3_eq_3)

end
