(* ===== verification/Command_Line.thy ===== *)
theory Command_Line
  imports Router Client_Runner
begin

text \<open>
  The start of the five programs: validation and endpoint parsing of
  \<^verbatim>\<open>include/utils/utils.hpp\<close> and the option loops of the \<^verbatim>\<open>main\<close> functions. An exception of the
  source is a value of \<open>cli_error\<close>; a program shows its help, reports an error (and exits with
  \<open>-1\<close>), or runs with a configuration.

  The conversions of the C++ library (\<^verbatim>\<open>std::stoi\<close>, \<^verbatim>\<open>stoul\<close>, \<^verbatim>\<open>stoull\<close>) skip white space, take
  a sign and as many digits as there are, ignore the rest of the text, and throw when there
  is no digit or the number does not fit; the unsigned ones negate a number with a minus sign
  modulo \<open>2 ^ 64\<close>. \<open>None\<close> is an exception.
\<close>

subsection \<open>Numbers\<close>

definition isspace :: "char \<Rightarrow> bool" where
  "isspace c = (let n = (of_char c :: nat) in n = 32 \<or> (9 \<le> n \<and> n \<le> 13))"

definition isdigit :: "char \<Rightarrow> bool" where
  "isdigit c = (let n = (of_char c :: nat) in 48 \<le> n \<and> n \<le> 57)"

definition digits_value :: "string \<Rightarrow> nat" where
  "digits_value ds = foldl (\<lambda>n d. 10 * n + (of_char d - 48)) 0 ds"

definition read_number :: "string \<Rightarrow> (bool \<times> nat) option" where
  "read_number s = (let
     s = dropWhile isspace s;
     (neg, s) = (case s of [] \<Rightarrow> (False, []) | c # cs \<Rightarrow>
       if c = CHR ''-'' then (True, cs) else if c = CHR ''+'' then (False, cs) else (False, s));
     ds = takeWhile isdigit s
   in if ds = [] then None else Some (neg, digits_value ds))"

definition stoi :: "string \<Rightarrow> int option" where
  "stoi s = (case read_number s of
     None \<Rightarrow> None
   | Some (neg, n) \<Rightarrow> let v = (if neg then - int n else int n) in
       if - (2 ^ 31) \<le> v \<and> v < 2 ^ 31 then Some v else None)"

definition stoul :: "string \<Rightarrow> u64 option" where
  "stoul s = (case read_number s of
     None \<Rightarrow> None
   | Some (neg, n) \<Rightarrow> if n < 2 ^ 64 then Some (if neg then - of_nat n else of_nat n) else None)"

subsection \<open>Validation\<close>

datatype cli_error =
    Missing_value string
  | Not_positive string
  | Port_range
  | Workers_range
  | Clients_range
  | Endpoint_format
  | Endpoint_port
  | Not_numeric string
  | Shard_format
  | Shard_endpoints
  | Task_type string
  | Invalid_argument string
  | Missing_options

definition validate_numeric :: "u64 \<Rightarrow> string \<Rightarrow> cli_error + unit" where
  "validate_numeric val label = (if val \<le> 0 then Inl (Not_positive label) else Inr ())"

definition validate_port :: "int \<Rightarrow> cli_error + unit" where
  "validate_port port = (if port \<le> 0 \<or> port > 65535 then Inl Port_range else Inr ())"

definition validate_workers :: "u64 \<Rightarrow> cli_error + unit" where
  "validate_workers n = (if n = 0 \<or> n > of_nat MAX_WORKER_THREADS then Inl Workers_range else Inr ())"

definition validate_clients :: "u64 \<Rightarrow> cli_error + unit" where
  "validate_clients n = (if n = 0 \<or> n > of_nat MAX_CLIENTS then Inl Clients_range else Inr ())"

text \<open>\<^verbatim>\<open>find\<close> and \<^verbatim>\<open>substr\<close> at the first occurrence of a character.\<close>

definition split_at :: "char \<Rightarrow> string \<Rightarrow> (string \<times> string) option" where
  "split_at c s = (if c \<in> set s then Some (takeWhile (\<lambda>x. x \<noteq> c) s, tl (dropWhile (\<lambda>x. x \<noteq> c) s)) else None)"

definition parse_endpoint :: "string \<Rightarrow> cli_error + address" where
  "parse_endpoint input = (case split_at CHR '':'' input of
     None \<Rightarrow> Inl Endpoint_format
   | Some (ip, port_str) \<Rightarrow> (case stoi port_str of
       None \<Rightarrow> Inl Endpoint_port
     | Some port \<Rightarrow> (case validate_port port of
         Inl e \<Rightarrow> Inl e
       | Inr _ \<Rightarrow> Inr (ip, word_of_int port))))"

subsection \<open>Options\<close>

text \<open>The value of \<^verbatim>\<open>--port\<close>, in the same words in every program.\<close>

definition port_value :: "string \<Rightarrow> string \<Rightarrow> cli_error + u16" where
  "port_value opt v = (case stoi v of
     None \<Rightarrow> Inl (Not_numeric opt)
   | Some p \<Rightarrow> (case validate_port p of Inl e \<Rightarrow> Inl e | Inr _ \<Rightarrow> Inr (word_of_int p)))"

definition workers_value :: "string \<Rightarrow> string \<Rightarrow> cli_error + u64" where
  "workers_value opt v = (case stoul v of
     None \<Rightarrow> Inl (Not_numeric opt)
   | Some n \<Rightarrow> (case validate_workers n of Inl e \<Rightarrow> Inl e | Inr _ \<Rightarrow> Inr n))"

text \<open>The number of clients is cut to 32 bits before it is validated.\<close>

definition clients_value :: "string \<Rightarrow> string \<Rightarrow> cli_error + u32" where
  "clients_value opt v = (case stoul v of
     None \<Rightarrow> Inl (Not_numeric opt)
   | Some n \<Rightarrow> let clients = (ucast n :: u32) in
       (case validate_clients (ucast clients) of Inl e \<Rightarrow> Inl e | Inr _ \<Rightarrow> Inr clients))"

definition tasks_value :: "string \<Rightarrow> string \<Rightarrow> cli_error + u64" where
  "tasks_value opt v = (case stoul v of
     None \<Rightarrow> Inl (Not_numeric opt)
   | Some n \<Rightarrow> (case validate_numeric n ''Number of tasks'' of Inl e \<Rightarrow> Inl e | Inr _ \<Rightarrow> Inr n))"

definition get_request_type :: "string \<Rightarrow> cli_error + RequestType" where
  "get_request_type s =
     (if s = ''synthetic'' then Inr REQ_SYNTHETIC
      else if s = ''word'' then Inr REQ_WORD_COUNT
      else if s = ''mixed'' then Inr REQ_MIXED
      else Inl (Task_type s))"

definition address_endpoint :: "address \<Rightarrow> Endpoint" where
  "address_endpoint a = \<lparr>ep_port = snd a, ep_ip = fst a\<rparr>"

definition parse_shard :: "string \<Rightarrow> cli_error + RouterShardGroup" where
  "parse_shard shard = (case split_at CHR '','' shard of
     None \<Rightarrow> Inl Shard_format
   | Some (primary_str, backup_str) \<Rightarrow>
       if CHR '','' \<in> set backup_str then Inl Shard_endpoints
       else (case parse_endpoint primary_str of
         Inl e \<Rightarrow> Inl e
       | Inr primary \<Rightarrow> (case parse_endpoint backup_str of
           Inl e \<Rightarrow> Inl e
         | Inr backup \<Rightarrow> Inr (RouterShardGroup_new (address_endpoint primary) (address_endpoint backup)))))"

subsection \<open>The programs\<close>

datatype 'a start = Help | Failed cli_error | Run 'a

definition is_help :: "string \<Rightarrow> bool" where
  "is_help s \<longleftrightarrow> s = ''-h'' \<or> s = ''--help''"

definition is_port :: "string \<Rightarrow> bool" where
  "is_port s \<longleftrightarrow> s = ''-p'' \<or> s = ''--port''"

record CoordinatorArgs =
  co_port :: u16
  co_port_set :: bool
  co_peers :: "address list"

fun coordinator_args :: "string list \<Rightarrow> CoordinatorArgs \<Rightarrow> CoordinatorArgs start" where
  "coordinator_args [] a = Run a"
| "coordinator_args (cur # rest) a =
     (if is_help cur then Help
      else if is_port cur then (case rest of [] \<Rightarrow> Failed (Missing_value cur) | v # rest \<Rightarrow>
        (case port_value cur v of Inl e \<Rightarrow> Failed e
         | Inr p \<Rightarrow> coordinator_args rest (a\<lparr>co_port := p, co_port_set := True\<rparr>)))
      else if cur = ''--peer'' then (case rest of [] \<Rightarrow> Failed (Missing_value cur) | v # rest \<Rightarrow>
        (case parse_endpoint v of Inl e \<Rightarrow> Failed e
         | Inr peer \<Rightarrow> coordinator_args rest (a\<lparr>co_peers := co_peers a @ [peer]\<rparr>)))
      else Failed (Invalid_argument cur))"

definition coordinator_main :: "string list \<Rightarrow> (u16 \<times> address) start" where
  "coordinator_main args = (case coordinator_args args \<lparr>co_port = 0, co_port_set = False, co_peers = []\<rparr> of
     Help \<Rightarrow> Help | Failed e \<Rightarrow> Failed e
   | Run a \<Rightarrow> if \<not> co_port_set a \<or> length (co_peers a) \<noteq> 1 then Failed Missing_options
              else Run (co_port a, hd (co_peers a)))"

record RouterArgs =
  ro_port :: u16
  ro_port_set :: bool
  ro_shards :: "RouterShardGroup list"

fun router_args :: "string list \<Rightarrow> RouterArgs \<Rightarrow> RouterArgs start" where
  "router_args [] a = Run a"
| "router_args (cur # rest) a =
     (if is_help cur then Help
      else if is_port cur then (case rest of [] \<Rightarrow> Failed (Missing_value cur) | v # rest \<Rightarrow>
        (case port_value cur v of Inl e \<Rightarrow> Failed e
         | Inr p \<Rightarrow> router_args rest (a\<lparr>ro_port := p, ro_port_set := True\<rparr>)))
      else if cur = ''-s'' \<or> cur = ''--shard'' then (case rest of [] \<Rightarrow> Failed (Missing_value cur) | v # rest \<Rightarrow>
        (case parse_shard v of Inl e \<Rightarrow> Failed e
         | Inr shard \<Rightarrow> router_args rest (a\<lparr>ro_shards := ro_shards a @ [shard]\<rparr>)))
      else Failed (Invalid_argument cur))"

definition router_main :: "string list \<Rightarrow> (u16 \<times> RouterShardGroup list) start" where
  "router_main args = (case router_args args \<lparr>ro_port = 0, ro_port_set = False, ro_shards = []\<rparr> of
     Help \<Rightarrow> Help | Failed e \<Rightarrow> Failed e
   | Run a \<Rightarrow> if \<not> ro_port_set a \<or> ro_shards a = [] then Failed Missing_options
              else Run (ro_port a, ro_shards a))"

record WorkerArgs =
  wo_ip :: string
  wo_port :: u16
  wo_workers :: u64
  wo_port_set :: bool
  wo_workers_set :: bool

fun worker_args :: "string list \<Rightarrow> WorkerArgs \<Rightarrow> WorkerArgs start" where
  "worker_args [] a = Run a"
| "worker_args (cur # rest) a =
     (if is_help cur then Help
      else if is_port cur then (case rest of [] \<Rightarrow> Failed (Missing_value cur) | v # rest \<Rightarrow>
        (case port_value cur v of Inl e \<Rightarrow> Failed e
         | Inr p \<Rightarrow> worker_args rest (a\<lparr>wo_port := p, wo_port_set := True\<rparr>)))
      else if cur = ''-w'' \<or> cur = ''--workers'' then (case rest of [] \<Rightarrow> Failed (Missing_value cur) | v # rest \<Rightarrow>
        (case workers_value cur v of Inl e \<Rightarrow> Failed e
         | Inr n \<Rightarrow> worker_args rest (a\<lparr>wo_workers := n, wo_workers_set := True\<rparr>)))
      else if cur = ''--ip'' then (case rest of [] \<Rightarrow> Failed (Missing_value cur) | v # rest \<Rightarrow>
        worker_args rest (a\<lparr>wo_ip := v\<rparr>))
      else Failed (Invalid_argument cur))"

definition worker_main :: "string list \<Rightarrow> (address \<times> u64) start" where
  "worker_main args = (case worker_args args \<lparr>wo_ip = ''127.0.0.1'', wo_port = 0, wo_workers = 0,
       wo_port_set = False, wo_workers_set = False\<rparr> of
     Help \<Rightarrow> Help | Failed e \<Rightarrow> Failed e
   | Run a \<Rightarrow> if \<not> wo_port_set a \<or> \<not> wo_workers_set a then Failed Missing_options
              else Run ((wo_ip a, wo_port a), wo_workers a))"

record ClientArgs =
  cl_ip :: string
  cl_port :: u16
  cl_clients :: u32
  cl_tasks :: u64
  cl_type :: RequestType
  cl_port_set :: bool
  cl_clients_set :: bool
  cl_tasks_set :: bool
  cl_type_set :: bool

fun client_args :: "string list \<Rightarrow> ClientArgs \<Rightarrow> ClientArgs start" where
  "client_args [] a = Run a"
| "client_args (cur # rest) a =
     (if is_help cur then Help
      else if is_port cur then (case rest of [] \<Rightarrow> Failed (Missing_value cur) | v # rest \<Rightarrow>
        (case port_value cur v of Inl e \<Rightarrow> Failed e
         | Inr p \<Rightarrow> client_args rest (a\<lparr>cl_port := p, cl_port_set := True\<rparr>)))
      else if cur = ''-c'' \<or> cur = ''--clients'' then (case rest of [] \<Rightarrow> Failed (Missing_value cur) | v # rest \<Rightarrow>
        (case clients_value cur v of Inl e \<Rightarrow> Failed e
         | Inr n \<Rightarrow> client_args rest (a\<lparr>cl_clients := n, cl_clients_set := True\<rparr>)))
      else if cur = ''-n'' \<or> cur = ''--num_tasks'' then (case rest of [] \<Rightarrow> Failed (Missing_value cur) | v # rest \<Rightarrow>
        (case tasks_value cur v of Inl e \<Rightarrow> Failed e
         | Inr n \<Rightarrow> client_args rest (a\<lparr>cl_tasks := n, cl_tasks_set := True\<rparr>)))
      else if cur = ''-t'' \<or> cur = ''--task_type'' then (case rest of [] \<Rightarrow> Failed (Missing_value cur) | v # rest \<Rightarrow>
        (case get_request_type v of Inl e \<Rightarrow> Failed e
         | Inr ty \<Rightarrow> client_args rest (a\<lparr>cl_type := ty, cl_type_set := True\<rparr>)))
      else if cur = ''--ip'' then (case rest of [] \<Rightarrow> Failed (Missing_value cur) | v # rest \<Rightarrow>
        client_args rest (a\<lparr>cl_ip := v\<rparr>))
      else Failed (Invalid_argument cur))"

text \<open>
  The initial \<^verbatim>\<open>task_type{}\<close> is no value of the enumeration; it is never read, since a missing
  \<^verbatim>\<open>--task_type\<close> is an error.
\<close>

definition client_main :: "string list \<Rightarrow> ClientRunner start" where
  "client_main args = (case client_args args \<lparr>cl_ip = ''127.0.0.1'', cl_port = 0, cl_clients = 0, cl_tasks = 0,
       cl_type = REQ_SYNTHETIC, cl_port_set = False, cl_clients_set = False, cl_tasks_set = False, cl_type_set = False\<rparr> of
     Help \<Rightarrow> Help | Failed e \<Rightarrow> Failed e
   | Run a \<Rightarrow> if \<not> cl_port_set a \<or> \<not> cl_type_set a \<or> \<not> cl_tasks_set a \<or> \<not> cl_clients_set a
              then Failed Missing_options
              else Run (ClientRunner_new (cl_tasks a) (cl_clients a) (cl_port a) (cl_ip a) (cl_type a)))"

record TopArgs =
  to_ip :: string
  to_port :: u16
  to_port_set :: bool

fun top_args :: "string list \<Rightarrow> TopArgs \<Rightarrow> TopArgs start" where
  "top_args [] a = Run a"
| "top_args (cur # rest) a =
     (if is_help cur then Help
      else if is_port cur then (case rest of [] \<Rightarrow> Failed (Missing_value cur) | v # rest \<Rightarrow>
        (case port_value cur v of Inl e \<Rightarrow> Failed e
         | Inr p \<Rightarrow> top_args rest (a\<lparr>to_port := p, to_port_set := True\<rparr>)))
      else if cur = ''--ip'' then (case rest of [] \<Rightarrow> Failed (Missing_value cur) | v # rest \<Rightarrow>
        top_args rest (a\<lparr>to_ip := v\<rparr>))
      else Failed (Invalid_argument cur))"

definition top_main :: "string list \<Rightarrow> address start" where
  "top_main args = (case top_args args \<lparr>to_ip = ''127.0.0.1'', to_port = 0, to_port_set = False\<rparr> of
     Help \<Rightarrow> Help | Failed e \<Rightarrow> Failed e
   | Run a \<Rightarrow> if \<not> to_port_set a then Failed Missing_options else Run (to_ip a, to_port a))"

subsection \<open>Accepted configurations\<close>

lemma port_word:
  assumes "validate_port p = Inr u"
  shows "(word_of_int p :: u16) \<noteq> 0" and "uint (word_of_int p :: u16) = p"
proof -
  have p: "0 < p" "p < 2 ^ 16" using assms by (auto simp: validate_port_def split: if_splits)
  then show "uint (word_of_int p :: u16) = p" by (simp add: uint_word_of_int)
  with p show "(word_of_int p :: u16) \<noteq> 0" by auto
qed

lemma port_value_ok: "port_value opt v = Inr p \<Longrightarrow> p \<noteq> 0"
  by (auto simp: port_value_def port_word split: option.splits sum.splits)

lemma parse_endpoint_ok: "parse_endpoint s = Inr a \<Longrightarrow> snd a \<noteq> 0"
  by (auto simp: parse_endpoint_def port_word split: option.splits sum.splits)

lemma workers_value_ok: "workers_value opt v = Inr n \<Longrightarrow> 1 \<le> unat n \<and> unat n \<le> MAX_WORKER_THREADS"
  by (auto simp: workers_value_def validate_workers_def MAX_WORKER_THREADS_def word_le_nat_alt linorder_not_less unat_gt_0 Suc_le_eq
      split: option.splits sum.splits if_splits)

lemma clients_value_ok: "clients_value opt v = Inr n \<Longrightarrow> 1 \<le> unat n \<and> unat n \<le> MAX_CLIENTS"
proof -
  assume a: "clients_value opt v = Inr n"
  then have n: "(ucast n :: u64) \<noteq> 0" "(ucast n :: u64) \<le> 256"
    by (auto simp: clients_value_def validate_clients_def MAX_CLIENTS_def Let_def linorder_not_less
        split: option.splits sum.splits if_splits)
  have "unat n < 2 ^ 64" using unsigned_less[of n, where ?'a = nat] by simp
  then have u: "unat (ucast n :: u64) = unat n" by (simp add: unsigned_ucast_eq take_bit_nat_eq_self)
  have "unat n \<noteq> 0" using n(1) u by (metis unat_eq_zero)
  moreover have "unat n \<le> 256" using n(2) u by (simp add: word_le_nat_alt)
  ultimately show ?thesis by (simp add: MAX_CLIENTS_def)
qed

lemma tasks_value_ok: "tasks_value opt v = Inr n \<Longrightarrow> n \<noteq> 0"
  by (auto simp: tasks_value_def validate_numeric_def split: option.splits sum.splits if_splits)

definition shard_ok :: "RouterShardGroup \<Rightarrow> bool" where
  "shard_ok g \<longleftrightarrow> ep_port (primary_ep g) \<noteq> 0 \<and> ep_port (backup_ep g) \<noteq> 0 \<and> active_target g = PRIMARY"

lemma parse_shard_ok: "parse_shard s = Inr g \<Longrightarrow> shard_ok g"
  by (auto simp: parse_shard_def shard_ok_def RouterShardGroup_new_def address_endpoint_def dest!: parse_endpoint_ok
      split: option.splits sum.splits if_splits)

lemma coordinator_args_ok:
  "coordinator_args args a = Run a' \<Longrightarrow> (co_port_set a \<longrightarrow> co_port a \<noteq> 0) \<Longrightarrow> list_all (\<lambda>p. snd p \<noteq> 0) (co_peers a) \<Longrightarrow>
     (co_port_set a' \<longrightarrow> co_port a' \<noteq> 0) \<and> list_all (\<lambda>p. snd p \<noteq> 0) (co_peers a')"
  by (induction args a rule: coordinator_args.induct)
    (auto simp: port_value_ok parse_endpoint_ok split: if_splits list.splits sum.splits)

lemma router_args_ok:
  "router_args args a = Run a' \<Longrightarrow> (ro_port_set a \<longrightarrow> ro_port a \<noteq> 0) \<Longrightarrow> list_all shard_ok (ro_shards a) \<Longrightarrow>
     (ro_port_set a' \<longrightarrow> ro_port a' \<noteq> 0) \<and> list_all shard_ok (ro_shards a')"
  by (induction args a rule: router_args.induct)
    (auto simp: port_value_ok parse_shard_ok split: if_splits list.splits sum.splits)

definition workers_ok :: "WorkerArgs \<Rightarrow> bool" where
  "workers_ok a \<longleftrightarrow> (wo_port_set a \<longrightarrow> wo_port a \<noteq> 0) \<and>
     (wo_workers_set a \<longrightarrow> 1 \<le> unat (wo_workers a) \<and> unat (wo_workers a) \<le> MAX_WORKER_THREADS)"

lemma workers_ok_update:
  "workers_ok a \<Longrightarrow> port_value opt v = Inr p \<Longrightarrow> workers_ok (a\<lparr>wo_port := p, wo_port_set := True\<rparr>)"
  "workers_ok a \<Longrightarrow> workers_value opt v = Inr n \<Longrightarrow> workers_ok (a\<lparr>wo_workers := n, wo_workers_set := True\<rparr>)"
  "workers_ok a \<Longrightarrow> workers_ok (a\<lparr>wo_ip := ip\<rparr>)"
  using port_value_ok[of opt v] workers_value_ok[of opt v] by (simp_all add: workers_ok_def)

lemma worker_args_ok: "worker_args args a = Run a' \<Longrightarrow> workers_ok a \<Longrightarrow> workers_ok a'"
proof (induction args a rule: worker_args.induct)
  case (2 cur rest a)
  then show ?case using workers_ok_update by (force split: if_splits list.splits sum.splits)
qed simp

definition clients_ok :: "ClientArgs \<Rightarrow> bool" where
  "clients_ok a \<longleftrightarrow> (cl_port_set a \<longrightarrow> cl_port a \<noteq> 0) \<and> (cl_tasks_set a \<longrightarrow> cl_tasks a \<noteq> 0) \<and>
     (cl_clients_set a \<longrightarrow> 1 \<le> unat (cl_clients a) \<and> unat (cl_clients a) \<le> MAX_CLIENTS)"

lemma clients_ok_update:
  "clients_ok a \<Longrightarrow> port_value opt v = Inr p \<Longrightarrow> clients_ok (a\<lparr>cl_port := p, cl_port_set := True\<rparr>)"
  "clients_ok a \<Longrightarrow> clients_value opt v = Inr n \<Longrightarrow> clients_ok (a\<lparr>cl_clients := n, cl_clients_set := True\<rparr>)"
  "clients_ok a \<Longrightarrow> tasks_value opt v = Inr t \<Longrightarrow> clients_ok (a\<lparr>cl_tasks := t, cl_tasks_set := True\<rparr>)"
  "clients_ok a \<Longrightarrow> clients_ok (a\<lparr>cl_type := ty, cl_type_set := True\<rparr>)" "clients_ok a \<Longrightarrow> clients_ok (a\<lparr>cl_ip := ip\<rparr>)"
  using port_value_ok[of opt v] clients_value_ok[of opt v] tasks_value_ok[of opt v] by (simp_all add: clients_ok_def)

lemma client_args_ok: "client_args args a = Run a' \<Longrightarrow> clients_ok a \<Longrightarrow> clients_ok a'"
proof (induction args a rule: client_args.induct)
  case (2 cur rest a)
  show ?case
  proof (cases rest)
    case Nil
    then show ?thesis using 2(6) by (simp split: if_splits)
  next
    case (Cons v rest')
    note IH = 2(1-5)
    show ?thesis using 2(6,7) IH clients_ok_update Cons by (force split: if_splits sum.splits)
  qed
qed simp

lemma top_args_ok: "top_args args a = Run a' \<Longrightarrow> (to_port_set a \<longrightarrow> to_port a \<noteq> 0) \<Longrightarrow> to_port_set a' \<longrightarrow> to_port a' \<noteq> 0"
  by (induction args a rule: top_args.induct)
    (auto simp: port_value_ok split: if_splits list.splits sum.splits)

lemma router_main_Run:
  assumes run: "router_main args = Run (port, groups)"
  shows "\<exists>a. router_args args \<lparr>ro_port = 0, ro_port_set = False, ro_shards = []\<rparr> = Run a \<and>
    ro_port_set a \<and> port = ro_port a \<and> ro_shards a \<noteq> [] \<and> groups = ro_shards a"
proof (cases "router_args args \<lparr>ro_port = 0, ro_port_set = False, ro_shards = []\<rparr>")
  case (Run a)
  have "router_main args = (if \<not> ro_port_set a \<or> ro_shards a = [] then Failed Missing_options else Run (ro_port a, ro_shards a))"
    unfolding router_main_def Run by (rule start.case)
  then have "ro_port_set a \<and> port = ro_port a \<and> ro_shards a \<noteq> [] \<and> groups = ro_shards a"
    unfolding run by (rule contrapos_pp) (simp, blast)
  then show ?thesis using Run by blast
qed (use run in \<open>simp_all add: router_main_def\<close>)

text \<open>C33:
  A program only starts with a usable configuration: whatever the arguments are, when the option
  loops accept them every port is one of \<open>1 \<dots> 65535\<close>, a worker process has
  \<open>1 \<dots> 8\<close> execution threads, the load generator has \<open>1 \<dots> 256\<close> clients and at least one
  task per client, a router has at least one shard, each with the primary as active target.
\<close>

theorem accepted_configuration:
  "(coordinator_main args = Run (port, peer) \<longrightarrow> 0 < port \<and> 0 < snd peer) \<and>
   (router_main args = Run (port, groups) \<longrightarrow> 0 < port \<and> groups \<noteq> [] \<and>
      list_all (\<lambda>g. 0 < ep_port (primary_ep g) \<and> 0 < ep_port (backup_ep g) \<and> active_target g = PRIMARY) groups) \<and>
   (worker_main args = Run (coord, n) \<longrightarrow> 0 < snd coord \<and> 1 \<le> unat n \<and> unat n \<le> 8) \<and>
   (client_main args = Run r \<longrightarrow> 0 < snd (router_address r) \<and> 0 < num_tasks r \<and>
      1 \<le> unat (num_clients r) \<and> unat (num_clients r) \<le> 256 \<and> length (latencies_of r) = unat (num_clients r)) \<and>
   (top_main args = Run coord \<longrightarrow> 0 < snd coord)"
proof (intro conjI impI)
  assume "coordinator_main args = Run (port, peer)"
  then obtain a where a: "coordinator_args args \<lparr>co_port = 0, co_port_set = False, co_peers = []\<rparr> = Run a"
      "co_port_set a" "port = co_port a" "length (co_peers a) = 1" "peer = hd (co_peers a)"
    by (cases "coordinator_args args \<lparr>co_port = 0, co_port_set = False, co_peers = []\<rparr>")
      (auto simp: coordinator_main_def split: if_splits)
  then show "0 < port" "0 < snd peer"
    using coordinator_args_ok[OF a(1)] by (cases "co_peers a"; auto simp: word_gt_0)+
next
  assume run: "router_main args = Run (port, groups)"
  obtain a where a: "router_args args \<lparr>ro_port = 0, ro_port_set = False, ro_shards = []\<rparr> = Run a"
      "ro_port_set a" "port = ro_port a" "ro_shards a \<noteq> []" "groups = ro_shards a"
    using router_main_Run[OF run] by blast
  then show "0 < port" "groups \<noteq> []"
      "list_all (\<lambda>g. 0 < ep_port (primary_ep g) \<and> 0 < ep_port (backup_ep g) \<and> active_target g = PRIMARY) groups"
    using router_args_ok[OF a(1)] by (auto simp: list_all_iff word_gt_0 shard_ok_def)
next
  assume "worker_main args = Run (coord, n)"
  then obtain a where a: "workers_ok a" "wo_port_set a" "wo_workers_set a" "coord = (wo_ip a, wo_port a)" "n = wo_workers a"
    by (auto simp: worker_main_def workers_ok_def split: start.splits if_splits dest!: worker_args_ok)
  then show "0 < snd coord" "1 \<le> unat n" "unat n \<le> 8" by (auto simp: workers_ok_def word_gt_0 MAX_WORKER_THREADS_def)
next
  assume "client_main args = Run r"
  then obtain a where a: "clients_ok a" "cl_port_set a" "cl_clients_set a" "cl_tasks_set a"
      "r = ClientRunner_new (cl_tasks a) (cl_clients a) (cl_port a) (cl_ip a) (cl_type a)"
    by (auto simp: client_main_def clients_ok_def split: start.splits if_splits dest!: client_args_ok)
  then show "0 < snd (router_address r)" "0 < num_tasks r" "1 \<le> unat (num_clients r)" "unat (num_clients r) \<le> 256"
      "length (latencies_of r) = unat (num_clients r)"
    by (auto simp: clients_ok_def ClientRunner_new_def word_gt_0 MAX_CLIENTS_def)
next
  assume "top_main args = Run coord"
  then show "0 < snd coord"
    by (auto simp: top_main_def word_gt_0 split: start.splits if_splits dest!: top_args_ok)
qed

lemmas number_eval = stoi_def stoul_def read_number_def isspace_def isdigit_def digits_value_def
lemmas option_eval = is_help_def is_port_def port_value_def validate_port_def number_eval

lemma worker_main_example: "worker_main [''-p'', ''9000'', ''-w'', ''4''] = Run ((''127.0.0.1'', 9000), 4)"
  by (simp add: worker_main_def workers_value_def validate_workers_def MAX_WORKER_THREADS_def option_eval)

theorem accepted_configuration_witness:
  "worker_main [''-p'', ''9000'', ''-w'', ''4''] = Run ((''127.0.0.1'', 9000), 4) \<and> unat (4 :: u64) \<le> 8"
  using accepted_configuration[of "[''-p'', ''9000'', ''-w'', ''4'']" 0 "([], 0)" "[]" "(''127.0.0.1'', 9000)" 4
      "two_clients REQ_MIXED"] worker_main_example by blast

subsection \<open>Endpoints\<close>

fun decimal :: "nat \<Rightarrow> string" where
  "decimal n = (if n < 10 then [char_of (48 + n)] else decimal (n div 10) @ [char_of (48 + n mod 10)])"

declare decimal.simps [simp del]

lemma digit_char: "n < 10 \<Longrightarrow> isdigit (char_of (48 + n))" "n < 10 \<Longrightarrow> of_char (char_of (48 + n)) = 48 + n" for n :: nat
  by (simp_all add: isdigit_def)

lemma decimal_digits: "list_all isdigit (decimal n)" "decimal n \<noteq> []"
  by (induction n rule: decimal.induct; subst decimal.simps; simp add: digit_char)+

lemma digits_value_snoc: "digits_value (ds @ [d]) = 10 * digits_value ds + (of_char d - 48)"
  by (simp add: digits_value_def)

lemma digits_value_decimal: "digits_value (decimal n) = n"
proof (induction n rule: decimal.induct)
  case (1 n)
  then show ?case
    by (subst decimal.simps) (simp add: digits_value_snoc digits_value_snoc[of "[]", simplified] digit_char(2) digits_value_def[of "[]"])
qed

text \<open>The conversion reads the digits and ignores what follows them.\<close>

lemma read_number_decimal:
  assumes "junk = [] \<or> \<not> isdigit (hd junk)"
  shows "read_number (decimal n @ junk) = Some (False, n)"
proof -
  obtain c cs where d: "decimal n = c # cs" using decimal_digits(2) by (cases "decimal n") auto
  have all: "isdigit c" "list_all isdigit cs" using decimal_digits(1)[of n] d by simp_all
  have c: "\<not> isspace c" "c \<noteq> CHR ''-''" "c \<noteq> CHR ''+''"
    using all(1) by (auto simp: isdigit_def isspace_def Let_def)
  have "takeWhile isdigit (decimal n @ junk) = decimal n"
    using assms decimal_digits(1)[of n] by (cases junk) (auto simp: takeWhile_append2 list_all_iff)
  then show ?thesis
    using c d digits_value_decimal[of n] by (simp add: read_number_def Let_def)
qed

lemma split_at_append: "c \<notin> set xs \<Longrightarrow> split_at c (xs @ c # ys) = Some (xs, ys)"
  by (induction xs) (auto simp: split_at_def)

lemma parse_endpoint_decimal:
  assumes "CHR '':'' \<notin> set ip" and "0 < n" and "n < 65536" and "junk = [] \<or> \<not> isdigit (hd junk)"
  shows "parse_endpoint (ip @ '':'' @ decimal n @ junk) = Inr (ip, of_nat n)"
proof -
  have "stoi (decimal n @ junk) = Some (int n)"
    using read_number_decimal[OF assms(4)] assms(3) by (simp add: stoi_def)
  then show ?thesis
    using assms(1-3) by (simp add: parse_endpoint_def split_at_append validate_port_def)
qed

lemma no_comma_decimal: "CHR '','' \<notin> set (decimal n)"
  using decimal_digits(1)[of n] by (auto simp: list_all_iff isdigit_def Let_def)

text \<open>C34:
  The shard option means what it shows: for addresses without separators and ports in range,
  parsing \<open>ip:port,ip:port\<close> with the ports in decimal gives the two endpoints, the primary
  active. The second port may be followed by any text without a comma that does not start with a
  digit, although the error message says it has to be numeric.
\<close>

theorem shard_roundtrip:
  assumes "CHR '':'' \<notin> set ip" and "CHR '','' \<notin> set ip" and "CHR '':'' \<notin> set ip'" and "CHR '','' \<notin> set ip'"
    and "0 < n" and "n < 65536" and "0 < n'" and "n' < 65536"
    and "junk = [] \<or> \<not> isdigit (hd junk)" and "CHR '','' \<notin> set junk"
  shows "parse_shard (ip @ '':'' @ decimal n @ '','' @ ip' @ '':'' @ decimal n' @ junk) =
    Inr \<lparr>primary_ep = \<lparr>ep_port = of_nat n, ep_ip = ip\<rparr>, backup_ep = \<lparr>ep_port = of_nat n', ep_ip = ip'\<rparr>, active_target = PRIMARY\<rparr>"
proof -
  have split: "split_at CHR '','' (ip @ '':'' @ decimal n @ '','' @ ip' @ '':'' @ decimal n' @ junk) =
      Some (ip @ '':'' @ decimal n, ip' @ '':'' @ decimal n' @ junk)"
    using split_at_append[of "CHR '',''" "ip @ '':'' @ decimal n"] assms(2) no_comma_decimal[of n] by simp
  show ?thesis
    unfolding parse_shard_def split
    using parse_endpoint_decimal[OF assms(1,5,6), of "[]"] parse_endpoint_decimal[OF assms(3,7,8,9)] assms(4,10) no_comma_decimal[of n']
    by (simp add: RouterShardGroup_new_def address_endpoint_def)
qed

lemma decimal_ports: "decimal 9001 = ''9001''" "decimal 9002 = ''9002''"
  by (simp_all add: decimal.simps char_of_def bit_0)

theorem shard_roundtrip_witness:
  "parse_shard ''127.0.0.1:9001,127.0.0.1:9002abc'' =
    Inr \<lparr>primary_ep = \<lparr>ep_port = 9001, ep_ip = ''127.0.0.1''\<rparr>, backup_ep = \<lparr>ep_port = 9002, ep_ip = ''127.0.0.1''\<rparr>,
      active_target = PRIMARY\<rparr>"
  using shard_roundtrip[of "''127.0.0.1''" "''127.0.0.1''" 9001 9002 "''abc''"] by (simp add: decimal_ports isdigit_def)

text \<open>
  More than \<open>2 ^ 32\<close> clients pass as few, and a negative number of tasks as nearly \<open>2 ^ 64\<close>.
\<close>

lemma client_count_truncated: "clients_value ''-c'' ''4294967297'' = Inr 1"
  by (simp add: clients_value_def validate_clients_def MAX_CLIENTS_def number_eval Let_def)

lemma negative_task_count: "tasks_value ''-n'' ''-1'' = Inr 0xFFFFFFFFFFFFFFFF"
  by (simp add: tasks_value_def validate_numeric_def number_eval Let_def)

end
