(* ===== verification/Top_Display.thy ===== *)
theory Top_Display
  imports Rpc
begin

text \<open>
  The monitor (\<^verbatim>\<open>src/top/top.cpp\<close>): it asks a coordinator for its metrics once a second and
  draws them. The terminal library is a parameter in this sense: a frame is the list of texts
  printed, with row and column, in the order of the calls of \<^verbatim>\<open>mvprintw\<close>; the height \<open>lines\<close> of
  the terminal and the keys pressed are arguments. Colours and the clearing of lines are left out.
\<close>

subsection \<open>Frames\<close>

datatype shown =
    Text string
  | Address_field string
  | Port_field u16
  | Primary_field bool
  | Field string u64
  | Active_field u32
  | Worker_row u32 bool u64 u64 u64 u64
  | Lost_connection string u16

record Screen =
  row :: int
  printed :: "(int \<times> int \<times> shown) list"

definition print_row :: "int \<Rightarrow> shown \<Rightarrow> Screen \<Rightarrow> Screen" where
  "print_row col x s = s\<lparr>row := row s + 1, printed := printed s @ [(row s, col, x)]\<rparr>"

record Top =
  top_connection :: Client
  top_port :: u16
  top_ip :: string

definition Top_new :: "string \<Rightarrow> u16 \<Rightarrow> Top" where
  "Top_new ip port = \<lparr>top_connection = Client_new, top_port = port, top_ip = ip\<rparr>"

definition worker_row :: "WorkerMetrics \<Rightarrow> shown" where
  "worker_row m = Worker_row (wm_worker_id m) (wm_alive m \<noteq> 0) (wm_tasks_running m) (wm_tasks_completed m)
     (wm_avg_latency_us m) (last_heartbeat_ms m)"

definition draw_worker_metrics :: "int \<Rightarrow> WorkerMetrics \<Rightarrow> Screen \<Rightarrow> Screen" where
  "draw_worker_metrics lines m s = (if row s \<ge> lines - 1 then s else print_row 0 (worker_row m) s)"

primrec worker_rows :: "int \<Rightarrow> WorkerMetrics list \<Rightarrow> Screen \<Rightarrow> Screen" where
  "worker_rows lines [] s = s"
| "worker_rows lines (m # ms) s =
     (if row s \<ge> lines - 1 then s else worker_rows lines ms (draw_worker_metrics lines m s))"

definition draw_all_worker_metrics :: "int \<Rightarrow> WorkerMetrics list \<Rightarrow> Screen \<Rightarrow> Screen" where
  "draw_all_worker_metrics lines ms s = (let
     s = print_row 0 (Text ''Workers:'') s;
     s = print_row 0 (Text '' ID  | Alive | Running  | Completed  | Avg Lat(us) | Last HB(ms)'') s
   in worker_rows lines ms s)"

definition coordinator_fields :: "Top \<Rightarrow> CoordinatorMetrics \<Rightarrow> shown list" where
  "coordinator_fields t m = [Address_field (top_ip t), Port_field (top_port t), Primary_field (cm_is_primary m = 1),
     Field ''Throughput'' (throughput m), Field ''Queued'' (cm_tasks_queued m), Field ''Running'' (cm_tasks_running m),
     Field ''Completed'' (cm_tasks_completed m), Active_field (cm_active_workers m),
     Field ''Avg Latency'' (avg_latency_us m), Field ''P95 Latency'' (p95_latency_us m),
     Field ''Min Latency'' (min_latency_us m), Field ''Max Latency'' (max_latency_us m)]"

definition draw_coordinator_metrics :: "Top \<Rightarrow> CoordinatorMetrics \<Rightarrow> Screen \<Rightarrow> Screen" where
  "draw_coordinator_metrics t m s = (let
     s = print_row 0 (Text ''Coordinator:'') s;
     s = fold (print_row 2) (coordinator_fields t m) s
   in s\<lparr>row := row s + 1\<rparr>)"

definition draw :: "int \<Rightarrow> Top \<Rightarrow> TopResponseMsg \<Rightarrow> Screen" where
  "draw lines t response =
     draw_all_worker_metrics lines (workers_metrics response)
       (draw_coordinator_metrics t (coordinator_metrics response) \<lparr>row = 0, printed = []\<rparr>)"

subsection \<open>The loop\<close>

definition fetch_metrics :: "Remote \<Rightarrow> Top \<Rightarrow> Message \<Rightarrow> rpc_call list \<Rightarrow> bool \<times> Message \<times> rpc_call list" where
  "fetch_metrics w t response cs =
     (case send_with_retry w (Message_new TOP_REQUEST) (top_connection t) cs of (n, cs) \<Rightarrow>
      if n \<le> 0 then (False, response, cs)
      else case receive_with_retry w response (top_connection t) cs of (n, response, cs) \<Rightarrow>
        (n > 0, response, cs))"

definition top_frame :: "int \<Rightarrow> Top \<Rightarrow> Message \<Rightarrow> (int \<times> int \<times> shown) list" where
  "top_frame lines t response =
     printed (draw lines t (top_response response)) @ [(lines - 1, 0, Text (''Press '' @ [CHR 0x27] @ ''q'' @ [CHR 0x27] @ '' to quit''))]"

text \<open>At most \<open>n\<close> rounds; \<open>quit k\<close> tells whether the key pressed in round \<open>k\<close> is \<^verbatim>\<open>q\<close>.\<close>

primrec top_loop ::
  "Remote \<Rightarrow> int \<Rightarrow> (nat \<Rightarrow> bool) \<Rightarrow> Top \<Rightarrow> nat \<Rightarrow> nat \<Rightarrow> Message \<Rightarrow> rpc_call list \<Rightarrow> (int \<times> int \<times> shown) list list \<times> rpc_call list" where
  "top_loop w lines quit t 0 k response cs = ([], cs)"
| "top_loop w lines quit t (Suc n) k response cs =
     (case fetch_metrics w t response cs of (ok, response, cs) \<Rightarrow>
      if \<not> ok then ([[(0, 0, Lost_connection (top_ip t) (top_port t))]], cs)
      else let frame = top_frame lines t response in
        if quit k then ([frame], cs)
        else case top_loop w lines quit t n (Suc k) response cs of (frames, cs) \<Rightarrow> (frame # frames, cs))"

definition top_run :: "Remote \<Rightarrow> int \<Rightarrow> (nat \<Rightarrow> bool) \<Rightarrow> nat \<Rightarrow> Top \<Rightarrow> (int \<times> int \<times> shown) list list \<times> Top \<times> rpc_call list" where
  "top_run w lines quit n t = (case Client_connect w (top_ip t, top_port t) (top_connection t) [] of (up, c, cs) \<Rightarrow>
     let t = t\<lparr>top_connection := c\<rparr> in
     case top_loop w lines quit t n 0 Message_default cs of (frames, cs) \<Rightarrow> (frames, t, cs))"

definition top_close :: "Top \<Rightarrow> rpc_call list \<Rightarrow> Top \<times> rpc_call list" where
  "top_close t cs = (case close_connection (top_connection t) cs of (c, cs) \<Rightarrow> (t\<lparr>top_connection := c\<rparr>, cs))"

subsection \<open>Layout\<close>

lemma worker_rows_layout:
  "worker_rows lines ms s = s\<lparr>row := row s + int (length (take (nat (lines - 1 - row s)) ms)),
     printed := printed s @ map (\<lambda>(k, m). (row s + int k, 0, worker_row m)) (enumerate 0 (take (nat (lines - 1 - row s)) ms))\<rparr>"
proof (induction ms arbitrary: s)
  case (Cons m ms)
  show ?case
  proof (cases "row s \<ge> lines - 1")
    case False
    then have "nat (lines - 1 - row s) = Suc (nat (lines - 1 - (row s + 1)))" by simp
    then show ?thesis
      using False Cons
      by (simp add: draw_worker_metrics_def print_row_def enumerate_Suc_eq comp_def case_prod_unfold algebra_simps
          flip: of_nat_Suc)
  qed simp
qed simp

lemma coordinator_layout:
  "draw_coordinator_metrics t m \<lparr>row = 0, printed = []\<rparr> = \<lparr>row = 14,
     printed = (0, 0, Text ''Coordinator:'') # map (\<lambda>(k, x). (1 + int k, 2, x)) (enumerate 0 (coordinator_fields t m))\<rparr>"
  by (simp add: draw_coordinator_metrics_def coordinator_fields_def print_row_def Let_def)

lemma draw_layout:
  "printed (draw lines t response) =
     (0, 0, Text ''Coordinator:'') # map (\<lambda>(k, x). (1 + int k, 2, x)) (enumerate 0 (coordinator_fields t (coordinator_metrics response))) @
     [(14, 0, Text ''Workers:''), (15, 0, Text '' ID  | Alive | Running  | Completed  | Avg Lat(us) | Last HB(ms)'')] @
     map (\<lambda>(k, m). (16 + int k, 0, worker_row m)) (enumerate 0 (take (nat (lines - 17)) (workers_metrics response)))"
  by (simp add: draw_def draw_all_worker_metrics_def coordinator_layout worker_rows_layout print_row_def Let_def)

definition is_worker_row :: "shown \<Rightarrow> bool" where
  "is_worker_row x = (case x of Worker_row _ _ _ _ _ _ \<Rightarrow> True | _ \<Rightarrow> False)"

text \<open>
  A frame fits: every row of the terminal is printed at most once, none is outside, and the
  workers shown are the first ones that fit.
\<close>

definition frame_fits :: "int \<Rightarrow> WorkerMetrics list \<Rightarrow> (int \<times> int \<times> shown) list \<Rightarrow> bool" where
  "frame_fits lines ms frame \<longleftrightarrow> distinct (map fst frame) \<and> list_all (\<lambda>(r, _). 0 \<le> r \<and> r < lines) frame \<and>
     filter is_worker_row (map (\<lambda>(_, _, x). x) frame) = map worker_row (take (nat (lines - 17)) ms)"

lemma enumerate_maps:
  "map (\<lambda>p. r + int (fst p)) (enumerate 0 xs) = map (\<lambda>k. r + int k) [0..<length xs]"
  "map (\<lambda>p. f (snd p)) (enumerate 0 xs) = map f xs"
  using arg_cong[OF map_fst_enumerate[of 0 xs], of "map (\<lambda>k. r + int k)"] arg_cong[OF map_snd_enumerate[of 0 xs], of "map f"]
  by (simp_all add: comp_def del: map_fst_enumerate map_snd_enumerate)

lemma filter_worker_rows: "filter is_worker_row (map worker_row ms) = map worker_row ms"
  by (simp add: filter_map is_worker_row_def worker_row_def comp_def)

lemma top_frame_fits:
  assumes "17 \<le> lines"
  shows "frame_fits lines (workers_metrics (top_response m)) (top_frame lines t m)"
proof -
  let ?ws = "take (nat (lines - 17)) (workers_metrics (top_response m))"
  have rows: "map fst (top_frame lines t m) = [0, 1, 2, 3, 4, 5, 6, 7, 8, 9, 10, 11, 12, 14, 15] @ map (\<lambda>k. 16 + int k) [0..<length ?ws] @ [lines - 1]"
    by (simp add: top_frame_def draw_layout coordinator_fields_def comp_def case_prod_unfold enumerate_maps)
  have len: "int (length ?ws) \<le> lines - 17" using assms by simp
  have "distinct (map fst (top_frame lines t m))"
    unfolding rows using len assms by (auto simp: distinct_map inj_on_def)
  moreover have "\<forall>r \<in> set (map fst (top_frame lines t m)). 0 \<le> r \<and> r < lines"
    unfolding rows using len assms by auto
  then have "list_all (\<lambda>(r, _). 0 \<le> r \<and> r < lines) (top_frame lines t m)"
    by (auto simp: list_all_iff)
  moreover have "filter is_worker_row (map (\<lambda>(_, _, x). x) (top_frame lines t m)) = map worker_row ?ws"
    by (simp add: top_frame_def draw_layout coordinator_fields_def is_worker_row_def comp_def case_prod_unfold
        enumerate_maps(2) filter_worker_rows)
  ultimately show ?thesis by (simp add: frame_fits_def)
qed

subsection \<open>What the monitor shows\<close>

fun answer_of :: "rpc_call \<Rightarrow> Message list" where
  "answer_of (Receive fd m n) = (if n > 0 then [m] else [])"
| "answer_of _ = []"

fun is_request :: "rpc_call \<Rightarrow> bool" where
  "is_request (Send fd m n) \<longleftrightarrow> m = Message_new TOP_REQUEST"
| "is_request _ \<longleftrightarrow> True"

definition answers :: "rpc_call list \<Rightarrow> Message list" where
  "answers cs = concat (map answer_of cs)"

lemma fetch_metrics_trace:
  assumes "fetch_metrics w t response cs = (ok, response', cs')"
  shows "\<exists>ds. cs' = cs @ ds \<and> answers ds = (if ok then [response'] else []) \<and> list_all is_request ds"
proof -
  obtain n cs1 where s: "send_with_retry w (Message_new TOP_REQUEST) (top_connection t) cs = (n, cs1)" by fastforce
  obtain n2 m cs2 where r: "receive_with_retry w response (top_connection t) cs1 = (n2, m, cs2)" by (metis prod_cases3)
  obtain ds where ds: "cs1 = cs @ ds" "answers ds = []" "list_all is_request ds"
    using rpc.send_trace[OF s] by (fastforce simp: answers_def)
  obtain es where es: "cs2 = cs1 @ es" "answers es = (if 0 < n2 then [m] else [])" "list_all is_request es"
    using rpc.receive_trace[OF r] by (fastforce simp: answers_def)
  show ?thesis
  proof (cases "0 < n")
    case True
    then show ?thesis
      using assms s r ds es by (intro exI[of _ "ds @ es"]) (auto simp: fetch_metrics_def answers_def)
  next
    case False
    then show ?thesis using assms s ds by (intro exI[of _ ds]) (auto simp: fetch_metrics_def)
  qed
qed

lemma top_loop_trace:
  assumes "top_loop w lines quit t n k response cs = (frames, cs')"
  shows "\<exists>ds lost. cs' = cs @ ds \<and> list_all is_request ds \<and> frames = map (top_frame lines t) (answers ds) @ lost \<and>
    (lost = [] \<or> lost = [[(0, 0, Lost_connection (top_ip t) (top_port t))]]) \<and> length frames \<le> n"
  using assms
proof (induction n arbitrary: k response cs frames cs')
  case 0
  then show ?case by (simp add: answers_def)
next
  case (Suc n)
  obtain ok r1 cs1 where f: "fetch_metrics w t response cs = (ok, r1, cs1)" by (metis prod_cases3)
  obtain ds where ds: "cs1 = cs @ ds" "answers ds = (if ok then [r1] else [])" "list_all is_request ds"
    using fetch_metrics_trace[OF f] by blast
  obtain frames2 cs2 where l: "top_loop w lines quit t n (Suc k) r1 cs1 = (frames2, cs2)" by fastforce
  obtain es lost where es: "cs2 = cs1 @ es" "list_all is_request es" "frames2 = map (top_frame lines t) (answers es) @ lost"
      "lost = [] \<or> lost = [[(0, 0, Lost_connection (top_ip t) (top_port t))]]" "length frames2 \<le> n"
    using Suc.IH[OF l] by blast
  have app: "answers (ds @ es) = answers ds @ answers es" by (simp add: answers_def)
  consider "\<not> ok" | "ok" "quit k" | "ok" "\<not> quit k" by blast
  then show ?case
  proof cases
    case 3
    then show ?thesis
      using Suc.prems f ds l es app by (intro exI[of _ "ds @ es"] exI[of _ lost]) auto
  qed (use Suc.prems f ds in \<open>auto intro!: exI[of _ ds]\<close>)
qed

text \<open>C35:
  The monitor shows what the coordinator answered and nothing else. It sends nothing but
  monitoring requests, draws one frame per answer, in their order, and ends with the notice that the
  connection is lost if a request fails. On a terminal of at least 17 lines a frame prints
  no row twice and none outside the terminal, the line with the key to quit included, and
  it lists the first workers of the answer, as many as fit.
\<close>

theorem top_shows_answers:
  assumes "17 \<le> lines" and "top_run w lines quit n t = (frames, t', cs)"
  shows "\<exists>lost. frames = map (top_frame lines t') (answers cs) @ lost \<and>
    (lost = [] \<or> lost = [[(0, 0, Lost_connection (top_ip t) (top_port t))]]) \<and> length frames \<le> n \<and> list_all is_request cs \<and>
    list_all (\<lambda>m. frame_fits lines (workers_metrics (top_response m)) (top_frame lines t' m)) (answers cs)"
proof -
  obtain up c cs0 where c: "Client_connect w (top_ip t, top_port t) (top_connection t) [] = (up, c, cs0)" by (metis prod_cases3)
  have cs0: "answers cs0 = []" "list_all is_request cs0"
    using c by (auto simp: Client_connect_def close_connection_def answers_def Let_def split: if_splits)
  have l: "top_loop w lines quit (t\<lparr>top_connection := c\<rparr>) n 0 Message_default cs0 = (frames, cs)" "t' = t\<lparr>top_connection := c\<rparr>"
    using assms(2) c by (auto simp: top_run_def Let_def split: prod.splits)
  have app: "answers (cs0 @ ds) = answers cs0 @ answers ds" for ds by (simp add: answers_def)
  show ?thesis
    using top_loop_trace[OF l(1)] l(2) cs0 app top_frame_fits[OF assms(1)] by (auto simp: list_all_iff)
qed

definition answering_top :: Remote where
  "answering_top = \<lparr>connect_result = \<lambda>_. 5, send_result_at = \<lambda>k. if k < 3 then 1 else 0,
     receive_result = \<lambda>_. (1, (Message_new TOP_RESPONSE)\<lparr>top_response := TopResponseMsg_default\<lparr>workers_metrics :=
       [WorkerMetrics_default, WorkerMetrics_default\<lparr>wm_worker_id := 1\<rparr>]\<rparr>\<rparr>)\<rparr>"

theorem top_shows_answers_witness:
  "case top_run answering_top 24 (\<lambda>_. False) 5 (Top_new ''127.0.0.1'' 9000) of (frames, t', cs) \<Rightarrow>
     length (answers cs) = 1 \<and> length frames = 2 \<and> hd frames = top_frame 24 t' (hd (answers cs))"
proof -
  obtain frames t' cs where r: "top_run answering_top 24 (\<lambda>_. False) 5 (Top_new ''127.0.0.1'' 9000) = (frames, t', cs)"
    by (metis prod_cases3)
  have "length (answers cs) = 1 \<and> length frames = 2"
    using r by (auto simp: top_run_def Top_new_def Client_connect_def close_connection_def Client_new_def answering_top_def
        fetch_metrics_def send_with_retry_def receive_with_retry_def answers_def Let_def eval_nat_numeral)
  then show ?thesis
    using top_shows_answers[OF _ r] r by (cases "answers cs") auto
qed

end
