(* ===== verification/Task_Content.thy ===== *)
theory Task_Content
  imports Coordinator_Loop
begin

text \<open>
  What is in the task table and in the outgoing messages: a condition \<open>T\<close> on tasks and a condition \<open>M\<close> on
  messages that fit together (\<open>content_conditions\<close>) are kept by every operation of the
  scheduler, as long as the tasks it is given fulfil \<open>T\<close>. The lemmas are about partial
  correctness: that the operations return is shown elsewhere.
\<close>

definition content :: "(u64 \<Rightarrow> Task \<Rightarrow> bool) \<Rightarrow> (Message \<Rightarrow> bool) \<Rightarrow> Coordinator \<Rightarrow> bool" where
  "content T M s \<longleftrightarrow> shared_inv (shared s) \<and> log_inv s \<and> log_typed s \<and>
     (\<forall>k t. umap_find (tasks s) k = Some t \<longrightarrow> T k t) \<and> (\<forall>oe\<in>set (out_stream s). M (oe_msg oe))"

text \<open>Fields that do not matter.\<close>

lemma content_upd [simp]:
  "content T M (s\<lparr>is_primary := a\<rparr>) = content T M s" "content T M (s\<lparr>current_epoch := e\<rparr>) = content T M s"
  "content T M (s\<lparr>metrics := m\<rparr>) = content T M s" "content T M (s\<lparr>client_fds := c\<rparr>) = content T M s"
  "content T M (s\<lparr>queued_backlog := q\<rparr>) = content T M s" "content T M (s\<lparr>completed_backlog := q\<rparr>) = content T M s"
  "content T M (s\<lparr>workers_states := w\<rparr>) = content T M s" "content T M (s\<lparr>active_workers := ids\<rparr>) = content T M s"
  "content T M (s\<lparr>available_ids := ids\<rparr>) = content T M s" "content T M (s\<lparr>rr_index := n\<rparr>) = content T M s"
  "content T M (set_worker i ws s) = content T M s"
  by (simp_all add: content_def out_stream_def log_inv_def log_typed_def pending_def set_worker_def)

lemma content_set_task: "content T M s \<Longrightarrow> T k t \<Longrightarrow> content T M (set_task k t s)"
  by (auto simp: content_def set_task_def out_stream_def log_inv_def log_typed_def pending_def umap_find_assign)

lemma content_find: "content T M s \<Longrightarrow> umap_find (tasks s) k = Some t \<Longrightarrow> T k t"
  by (simp add: content_def)

lemma content_shared:
  assumes "content T M s" and "shared_inv sh" and "out_stream (s\<lparr>shared := sh\<rparr>) = out_stream s @ es"
    and "\<forall>oe\<in>set es. M (oe_msg oe)"
  shows "content T M (s\<lparr>shared := sh\<rparr>)"
  using assms by (auto simp: content_def log_typed_def)

lemma content_now:
  assumes "content T M s" and "now_ns_u64 env s = (now, s')"
  shows "content T M s'"
  using assms by (auto simp: content_def now_ns_u64_def out_stream_def log_inv_def log_typed_def pending_def shared_inv_def)

lemma content_push:
  assumes "content T M s" and "try_push_outgoing env ev s = (ok, s')" and "M (oe_msg ev)"
  shows "content T M s'"
proof -
  have "shared_inv (shared s)" using assms(1) by (simp add: content_def)
  from try_push_outgoing_eq[OF this assms(2)] obtain sh where
    "s' = s\<lparr>shared := sh\<rparr>" "shared_inv sh" "out_stream s' = out_stream s @ (if ok then [ev] else [])" by blast
  then show ?thesis
    using content_shared[OF assms(1), of sh "if ok then [ev] else []"] assms(3) by simp
qed

lemma content_add_to_log:
  assumes "content T M s" and "add_to_log msg s = Some s'" and "is_replication msg"
  shows "content T M s'"
proof -
  have inv: "log_inv s" using assms(1) by (simp add: content_def)
  obtain r w l where s': "s' = s\<lparr>replication_read_ptr := r, replication_write_ptr := w, replication_log := l\<rparr>"
    "log_inv s'" "pending s' = last_n (MAX_LOG_SIZE - 1) (pending s @ [msg])"
    using add_to_log_eq[OF inv, of msg] assms(2) by auto
  have "set (pending s') \<subseteq> set (pending s @ [msg])" unfolding s'(3) last_n_def by (rule set_drop_subset)
  then show ?thesis
    using assms s'(1,2) by (auto simp: content_def log_typed_def out_stream_def)
qed

lemma content_replicate_log:
  assumes "content T M s" and "replicate_log env s = Some s'" and rep: "\<And>m. is_replication m \<Longrightarrow> M m"
  shows "content T M s'"
proof -
  have inv: "log_inv s" "shared_inv (shared s)" using assms(1) by (simp_all add: content_def)
  obtain r sh k where e: "s' = s\<lparr>replication_read_ptr := r, shared := sh\<rparr>" "shared_inv sh"
      "log_inv (s\<lparr>replication_read_ptr := r\<rparr>)" "pending (s\<lparr>replication_read_ptr := r\<rparr>) = drop k (pending s)"
      "out_stream (s\<lparr>shared := sh\<rparr>) = out_stream s @ map rep_event (take k (pending s))"
    using replicate_log_eq[OF inv, of env] assms(2) by auto
  have "content T M (s\<lparr>shared := sh\<rparr>)"
  proof (rule content_shared[OF assms(1) e(2,5)])
    show "\<forall>oe\<in>set (map rep_event (take k (pending s))). M (oe_msg oe)"
      using assms(1) rep by (auto simp: content_def log_typed_def rep_event_def dest!: in_set_takeD)
  qed
  moreover have "pending s' = drop k (pending s)" "log_inv s'" using e(1,3,4) by (simp_all add: pending_def log_inv_def)
  ultimately show ?thesis
    using e(1) by (auto simp: content_def log_typed_def out_stream_def dest: in_set_dropD)
qed

subsection \<open>Conditions that fit together\<close>

locale content_conditions =
  fixes T :: "u64 \<Rightarrow> Task \<Rightarrow> bool" and M :: "Message \<Rightarrow> bool"
  assumes assign_msg: "T k t \<Longrightarrow> M (assign_message ep t)"
    and result_msg: "T k t \<Longrightarrow> M (result_message ep t)"
    and other_msg: "m_type m \<noteq> ASSIGN \<Longrightarrow> m_type m \<noteq> RESULT \<Longrightarrow> M m"
    and requeued_task: "T k t \<Longrightarrow> T k (t\<lparr>t_state := QUEUED\<rparr>)"
    and running_task: "T k t \<Longrightarrow> T k (t\<lparr>t_worker_id := w, t_state := RUNNING, started_at := now\<rparr>)"
begin

lemma rep_msg: "is_replication m \<Longrightarrow> M m"
  by (rule other_msg) (auto simp: is_replication_def)

lemma rep_messages: "is_replication (assign_rep_message ep t)" "is_replication (complete_rep_message ep t)"
  by (simp_all add: is_replication_def assign_rep_message_def complete_rep_message_def Message_new_def Let_def split: TaskType.splits)

lemma replicate_content: "replicate_log env s = Some s' \<Longrightarrow> content T M s \<Longrightarrow> content T M s'"
  using content_replicate_log rep_msg by blast

lemmas replicate_content_upd = replicate_content[of env "s\<lparr>completed_backlog := b\<rparr>" for env s b, simplified]
  replicate_content[of env "s\<lparr>queued_backlog := b\<rparr>" for env s b, simplified]

lemma assign_content:
  assumes "assign_loop env k is s = Some (ok, s')" and "content T M s"
  shows "content T M s'"
  using assms
proof (induction "is" arbitrary: s)
  case (Cons i "is")
  obtain w wid where w: "vec_at (active_workers s) ((rr_index s + i) mod length (active_workers s)) = Some wid"
    "worker_at s wid = Some w"
    using Cons.prems(1) by (auto simp: Let_def split: bind_splits)
  show ?case
  proof (cases "length (running_tasks w) \<ge> WORKER_MAX_QUEUE_DEPTH")
    case True
    then show ?thesis using Cons w by (simp add: Let_def)
  next
    case False
    then obtain t where t: "umap_find (tasks s) k = Some t"
      using Cons.prems(1) w by (auto simp: Let_def split: bind_splits)
    obtain ok1 s1 where p: "try_push_outgoing env \<lparr>oe_fd = ws_fd w, oe_msg = assign_message (current_epoch s) t\<rparr> s = (ok1, s1)"
      by fastforce
    have Tk: "T k t" using content_find[OF Cons.prems(2) t] .
    have c1: "content T M s1" using content_push[OF Cons.prems(2) p] assign_msg[OF Tk] by simp
    show ?thesis
    proof (cases ok1)
      case True
      obtain now s2 where n: "now_ns_u64 env (s1\<lparr>rr_index := ((rr_index s + i) mod length (active_workers s) + 1) mod length (active_workers s1)\<rparr>) = (now, s2)"
        by fastforce
      have c2: "content T M s2" using content_now[OF _ n] c1 by simp
      define t' where "t' = t\<lparr>t_worker_id := wid, t_state := RUNNING, started_at := now\<rparr>"
      have c3: "content T M (set_task k t' s2)" using content_set_task[OF c2] running_task[OF Tk] by (simp add: t'_def)
      have c4: "content T M (set_worker j ws (set_task k t' s2)\<lparr>metrics := m\<rparr>)" for j ws m using c3 by simp
      show ?thesis
        using Cons.prems(1) False w t p True n
        by (auto simp: Let_def simp flip: t'_def split: bind_splits dest: content_add_to_log[OF c4 _ rep_messages(1)])
    next
      case False
      then show ?thesis using Cons.prems(1) \<open>\<not> WORKER_MAX_QUEUE_DEPTH \<le> length (running_tasks w)\<close> w t p c1 by (simp add: Let_def)
    qed
  qed
qed simp

lemma result_content:
  assumes "send_result env t s = Some (ok, s')" and "content T M s" and "T k t"
  shows "content T M s'"
proof -
  define fd where "fd = (case umap_find (client_fds s) (t_client_id t) of None \<Rightarrow> -1 | Some fd \<Rightarrow> fd)"
  obtain ok1 s1 where p: "try_push_outgoing env \<lparr>oe_fd = fd, oe_msg = result_message (current_epoch s) t\<rparr> s = (ok1, s1)"
    by fastforce
  have "content T M s1" using content_push[OF assms(2) p] result_msg[OF assms(3)] by simp
  then show ?thesis
    using assms(1) p content_add_to_log[OF _ _ rep_messages(2)]
    by (auto simp: send_result_def Let_def simp flip: fd_def split: if_splits bind_splits)
qed

lemma completed_loop_content:
  assumes "completed_loop env s = Some s'" and "content T M s"
  shows "content T M s'"
proof -
  have "env = env \<longrightarrow> content T M s \<longrightarrow> content T M s'"
  proof (rule completed_loop.raw_induct[where P = "\<lambda>e s r. e = env \<longrightarrow> content T M s \<longrightarrow> content T M r",
        OF _ assms(1)], intro impI)
    fix rec e s r
    assume IH: "\<And>e s r. rec e s = Some r \<Longrightarrow> e = env \<longrightarrow> content T M s \<longrightarrow> content T M r"
      and body: "(case completed_backlog s of
        [] \<Rightarrow> Some s
      | task_id # rest \<Rightarrow> (case umap_find (tasks s) task_id of
          None \<Rightarrow> rec e (s\<lparr>completed_backlog := rest\<rparr>)
        | Some task \<Rightarrow> do {
            (sent, s) \<leftarrow> send_result e task s;
            if sent then do {
              s \<leftarrow> replicate_log e (s\<lparr>completed_backlog := rest\<rparr>);
              rec e s
            } else Some s
          })) = Some r" and e: "e = env" and s: "content T M s"
    show "content T M r"
      using body s e content_find[OF s]
      by (auto split: list.splits option.splits if_splits prod.splits bind_splits
          dest!: IH[rule_format] dest: replicate_content_upd result_content)
  qed
  then show ?thesis using assms(2) by blast
qed

lemma queued_loop_content:
  assumes "queued_loop env s = Some s'" and "content T M s"
  shows "content T M s'"
proof -
  have "env = env \<longrightarrow> content T M s \<longrightarrow> content T M s'"
  proof (rule queued_loop.raw_induct[where P = "\<lambda>e s r. e = env \<longrightarrow> content T M s \<longrightarrow> content T M r",
        OF _ assms(1)], intro impI)
    fix rec e s r
    assume IH: "\<And>e s r. rec e s = Some r \<Longrightarrow> e = env \<longrightarrow> content T M s \<longrightarrow> content T M r"
      and body: "(case queued_backlog s of
        [] \<Rightarrow> Some s
      | task_id # rest \<Rightarrow> do {
          _ \<leftarrow> umap_find (tasks s) task_id;
          (assigned, s) \<leftarrow> assign_task e task_id s;
          if assigned then do {
            s \<leftarrow> replicate_log e (s\<lparr>queued_backlog := rest\<rparr>);
            rec e s
          } else Some s
        }) = Some r" and e: "e = env" and s: "content T M s"
    show "content T M r"
      using body s e
      by (auto simp: assign_task_def Let_def split: list.splits if_splits prod.splits bind_splits
          dest!: IH[rule_format] assign_content dest: replicate_content_upd)
  qed
  then show ?thesis using assms(2) by blast
qed

lemma backlog_content: "process_backlog env s = Some s' \<Longrightarrow> content T M s \<Longrightarrow> content T M s'"
  using completed_loop_content queued_loop_content by (auto simp: process_backlog_def split: bind_splits)

lemma submit_content:
  assumes "process_submit_event env ev s = Some s'" and "content T M s"
    and "\<And>now. T (sm_task_id (submit (ie_msg ev))) (submitted_task (submit (ie_msg ev)) now)"
  shows "content T M s'"
proof -
  define m where "m = submit (ie_msg ev)"
  obtain now s1 where n: "now_ns_u64 env (s\<lparr>is_primary := True, client_fds := umap_assign (sm_client_id m) (ie_fd ev) (client_fds s)\<rparr>) = (now, s1)"
    by fastforce
  have k: "t_id (submitted_task m now) = sm_task_id m" by (simp add: submitted_task_simps)
  have c: "content T M (set_task (sm_task_id m) (submitted_task m now) s1\<lparr>metrics := ms\<rparr>)" for ms
    using content_set_task[OF content_now[OF _ n]] assms(2,3) by (simp add: m_def)
  show ?thesis
    using assms(1) n k
    by (auto simp: process_submit_event_def assign_task_def Let_def simp flip: m_def
        split: bind_splits prod.splits if_splits dest!: assign_content[OF _ c] replicate_content)
qed

lemma complete_content:
  assumes "process_complete_event env ev s = Some s'" and "content T M s"
    and "\<And>t. T (com_task_id (complete (ie_msg ev))) t \<Longrightarrow>
      T (com_task_id (complete (ie_msg ev))) (completed_task (complete (ie_msg ev)) t)"
  shows "content T M s'"
proof (cases "umap_find (tasks s) (com_task_id (complete (ie_msg ev)))")
  case None
  then show ?thesis using assms(1,2) by (auto simp: process_complete_event_def)
next
  case (Some t)
  define t' where "t' = completed_task (complete (ie_msg ev)) t"
  have t': "T (com_task_id (complete (ie_msg ev))) t'" using assms(3) content_find[OF assms(2) Some] by (simp add: t'_def)
  have c: "content T M (set_worker j w (set_task (com_task_id (complete (ie_msg ev))) t' (s\<lparr>is_primary := True\<rparr>)\<lparr>metrics := ms\<rparr>))" for j w ms
    using content_set_task[of T M "s\<lparr>is_primary := True\<rparr>"] assms(2) t' by simp
  show ?thesis
    using assms(1) Some
    by (auto simp: process_complete_event_def Let_def simp flip: t'_def
        split: bind_splits prod.splits if_splits dest!: result_content[OF _ c t'] replicate_content)
qed

lemma requeue_content:
  assumes "requeue_running ks j s = Some s'" and "content T M s"
  shows "content T M s'"
  using assms
proof (induction ks arbitrary: s)
  case (Cons k ks)
  show ?case
    using Cons.prems(1)
    by (auto simp: Let_def split: bind_splits
        dest!: Cons.IH intro!: content_set_task[OF Cons.prems(2)] requeued_task dest: content_find[OF Cons.prems(2)])
qed simp

lemma mark_inactive_content: "mark_inactive j s = Some s' \<Longrightarrow> content T M s \<Longrightarrow> content T M s'"
  by (auto simp: mark_inactive_def Let_def split: if_splits bind_splits)

lemma alive_content:
  assumes "is_alive env j s = Some (b, s')" and "content T M s"
  shows "content T M s'"
proof -
  obtain now s1 where n: "now_ns_u64 env s = (now, s1)" by fastforce
  note c1 = content_now[OF assms(2) n]
  show ?thesis
    using assms n c1
    by (auto simp: is_alive_def Let_def split: if_splits bind_splits dest!: requeue_content mark_inactive_content)
qed

lemma sweep_content:
  assumes "sweep_workers env s = Some s'" and "content T M s"
  shows "content T M s'"
proof -
  have "sweep_loop env js s = Some s' \<Longrightarrow> content T M s \<Longrightarrow> content T M s'" for js s
    by (induction js arbitrary: s) (auto split: bind_splits dest: alive_content)
  then show ?thesis using assms by (simp add: sweep_workers_def Let_def)
qed

lemma heartbeat_content:
  assumes "process_heartbeat_event env ev s = Some s'" and "content T M s"
  shows "content T M s'"
proof -
  obtain now s1 where n: "now_ns_u64 env s = (now, s1)" by fastforce
  show ?thesis
    using assms(1) n content_now[OF assms(2) n] by (auto simp: process_heartbeat_event_def Let_def split: bind_splits)
qed

lemma register_slot_content:
  assumes "register_slot env fd j s = Some s'" and "content T M s"
  shows "content T M s'"
  using assms
  by (auto simp: register_slot_def Let_def split: if_splits bind_splits prod.splits dest!: content_now[rotated])

lemma register_content:
  assumes "process_register_event env ev s = Some s'" and "content T M s"
  shows "content T M s'"
proof -
  define msg where "msg = (Message_new ACKNOWLEDGE)\<lparr>acknowledge :=
    \<lparr>ack_worker_id = (if available_ids s \<noteq> [] then last (available_ids s) else of_nat (length (workers_states s)))\<rparr>\<rparr>"
  obtain ok s1 where p: "try_push_outgoing env \<lparr>oe_fd = ie_fd ev, oe_msg = msg\<rparr> s = (ok, s1)" by fastforce
  have "M msg" by (rule other_msg) (simp_all add: msg_def Message_new_def)
  then have "content T M s1" using content_push[OF assms(2) p] by simp
  then show ?thesis
    using assms(1) p
    by (auto simp: process_register_event_def Let_def simp flip: msg_def split: if_splits bind_splits dest!: register_slot_content)
qed

lemma peer_reconnected_content:
  assumes "content T M s"
  shows "content T M (process_peer_reconnected env s)"
proof -
  define s1 where "s1 = s\<lparr>current_epoch := current_epoch s + 1\<rparr>"
  define ev where "ev = OutgoingEvent_default\<lparr>oe_msg := (Message_new SNAPSHOT)
    \<lparr>snapshot := \<lparr>snap_tasks = tasks s\<rparr>, epoch := current_epoch s + 1\<rparr>\<rparr>"
  obtain ok s2 where p: "try_push_outgoing env ev s1 = (ok, s2)" by fastforce
  have "M (oe_msg ev)" by (rule other_msg) (simp_all add: ev_def Message_new_def)
  then have "content T M s2" using content_push[OF _ p] assms by (simp add: s1_def)
  then show ?thesis using assms p by (simp add: process_peer_reconnected_def Let_def s1_def ev_def)
qed

lemma push_until_content:
  assumes "push_until env ev s = Some s'" and "content T M s" and "M (oe_msg ev)"
  shows "content T M s'"
proof -
  have "M (oe_msg ev) \<longrightarrow> content T M s \<longrightarrow> content T M s'"
  proof (rule push_until.raw_induct[where P = "\<lambda>e v s r. M (oe_msg v) \<longrightarrow> content T M s \<longrightarrow> content T M r", OF _ assms(1)],
      intro impI)
    fix rec e v s r
    assume IH: "\<And>e v s r. rec e v s = Some r \<Longrightarrow> M (oe_msg v) \<longrightarrow> content T M s \<longrightarrow> content T M r"
      and body: "(case try_push_outgoing e v s of (ok, s) \<Rightarrow> if ok then Some s else rec e v s) = Some r"
      and v: "M (oe_msg v)" and s: "content T M s"
    obtain ok s1 where p: "try_push_outgoing e v s = (ok, s1)" by fastforce
    then show "content T M r" using body content_push[OF s p v] IH[of e v s1 r] v by (cases ok) auto
  qed
  then show ?thesis using assms(2,3) by blast
qed

lemma top_content:
  assumes "process_top_request env ev s = Some s'" and "content T M s"
  shows "content T M s'"
proof -
  obtain now s1 where n: "now_ns_u64 env s = (now, s1)" by fastforce
  have top: "M ((Message_new TOP_RESPONSE)\<lparr>top_response := r\<rparr>)" for r
    by (rule other_msg) (simp_all add: Message_new_def)
  have c: "content T M (s1\<lparr>metrics := ms\<rparr>)" for ms using content_now[OF assms(2) n] by simp
  show ?thesis
    using assms(1) n top
    by (auto simp: process_top_request_def get_rolling_throughput_def Let_def
        split: bind_splits prod.splits dest!: push_until_content[OF _ content_now[OF c]])
qed

text \<open>A step of the scheduler: what it needs of the events from outside.\<close>

lemma step_content:
  assumes "sched_step env e s = Some s'" and "content T M s" and "sched_guard env e s"
    and "\<And>ev now. e = Task ev \<Longrightarrow> m_type (ie_msg ev) = SUBMIT \<Longrightarrow>
      T (sm_task_id (submit (ie_msg ev))) (submitted_task (submit (ie_msg ev)) now)"
    and "\<And>ev t. e = Task ev \<Longrightarrow> m_type (ie_msg ev) = COMPLETE \<Longrightarrow> T (com_task_id (complete (ie_msg ev))) t \<Longrightarrow>
      T (com_task_id (complete (ie_msg ev))) (completed_task (complete (ie_msg ev)) t)"
  shows "content T M s'"
proof (cases e)
  case (Control ev)
  then show ?thesis
    using assms(1,2) heartbeat_content register_content by (auto simp: handle_control_def split: MessageType.splits)
next
  case (Task ev)
  then show ?thesis
    using assms submit_content[of env ev s s'] complete_content[of env ev s s'] peer_reconnected_content top_content
    by (auto simp: handle_task_def task_guard_def split: MessageType.splits)
next
  case Network
  have sh: "shared_inv (shared s)" using assms(2) by (simp add: content_def)
  then show ?thesis
    using Network assms(1) content_shared[OF assms(2) network_turn_inv[OF sh], of env "[]"] network_turn_out[OF sh]
    by auto
qed (use assms(1,2) backlog_content replicate_content sweep_content in auto)

end

end
