(* ===== verification/Cluster.thy ===== *)
theory Cluster
  imports Task_Content Word_Count Scheduler_Thread
begin

text \<open>
  The coordinator together with its workers and clients: the workers answer assignments by
  executing them, the network may delay, reorder, repeat and lose what is sent, workers may
  die and tasks may be submitted again. Whatever happens, a result that goes to a client
  is the right answer to a submission of that task.
\<close>

subsection \<open>Right answers\<close>

definition expected :: "SubmitMsg \<Rightarrow> u32" where
  "expected m = (if sm_type m = WORD_COUNT then of_nat (card (word_starts (sm_words m))) else 0)"

definition right_answers :: "SubmitMsg set \<Rightarrow> u64 \<Rightarrow> u32 set" where
  "right_answers H k = expected ` {m \<in> H. sm_task_id m = k}"

definition task_of :: "SubmitMsg set \<Rightarrow> u64 \<Rightarrow> TaskType \<Rightarrow> string \<Rightarrow> bool" where
  "task_of H k ty ws \<longleftrightarrow> (\<exists>m\<in>H. sm_task_id m = k \<and> sm_type m = ty \<and> (ty = WORD_COUNT \<longrightarrow> sm_words m = ws))"

text \<open>A task comes from a submission, and what it has as its result is an answer to one.\<close>

definition task_content :: "SubmitMsg set \<Rightarrow> u64 \<Rightarrow> Task \<Rightarrow> bool" where
  "task_content H k t \<longleftrightarrow> t_id t = k \<and> task_of H k (t_type t) (words (word_count_task t)) \<and>
     (t_success t = 0 \<or> t_success t = 1 \<and> (t_type t = WORD_COUNT \<longrightarrow> t_result t \<in> right_answers H k))"

definition message_content :: "SubmitMsg set \<Rightarrow> Message \<Rightarrow> bool" where
  "message_content H m \<longleftrightarrow>
     (m_type m = ASSIGN \<longrightarrow> task_of H (am_task_id (assign m)) (am_type (assign m)) (am_words (assign m))) \<and>
     (m_type m = RESULT \<longrightarrow> rm_success (result m) = 0 \<or>
        rm_success (result m) = 1 \<and> rm_result (result m) \<in> right_answers H (rm_task_id (result m)))"

lemma result_message_content:
  assumes "task_content H k t"
  shows "message_content H (result_message ep t)"
proof (cases "t_type t = WORD_COUNT")
  case True
  then show ?thesis
    using assms by (auto simp: message_content_def result_message_def task_content_def Message_new_def Let_def)
next
  case False
  then have "0 \<in> right_answers H k"
    using assms by (force simp: task_content_def task_of_def right_answers_def expected_def)
  then show ?thesis
    using assms False
    by (auto simp: message_content_def result_message_def task_content_def Message_new_def ResultMsg_default_def Let_def)
qed

interpretation cluster: content_conditions "task_content H" "message_content H"
proof
  show "message_content H (assign_message ep t)" if "task_content H k t" for k t ep
    using that
    by (cases "t_type t")
      (auto simp: message_content_def assign_message_def task_content_def task_of_def Message_new_def Let_def)
  show "message_content H (result_message ep t)" if "task_content H k t" for k t ep
    using that by (rule result_message_content)
qed (simp_all add: message_content_def task_content_def)

subsection \<open>Submissions and completions\<close>

lemma submitted_content: "m \<in> H \<Longrightarrow> task_content H (sm_task_id m) (submitted_task m now)"
  by (auto simp: task_content_def task_of_def submitted_task_def Task_new_def Task_default_def Let_def split: TaskType.splits)

text \<open>A completion is a worker's answer to an assignment that was sent.\<close>

definition honest :: "IncomingEvent \<Rightarrow> Coordinator \<Rightarrow> bool" where
  "honest ev s \<longleftrightarrow> (\<exists>oe\<in>set (out_stream s). m_type (oe_msg oe) = ASSIGN \<and>
     (\<exists>started completed. complete (ie_msg ev) = execute_task started completed (assign (oe_msg oe))))"

lemma executed_content:
  assumes "task_of H (am_task_id a) (am_type a) (am_words a)" and "c = execute_task started completed a"
    and "task_content H (com_task_id c) t"
  shows "task_content H (com_task_id c) (completed_task c t)"
proof -
  obtain m where m: "m \<in> H" "sm_task_id m = am_task_id a" "sm_type m = am_type a"
      "am_type a = WORD_COUNT \<longrightarrow> sm_words m = am_words a"
    using assms(1) by (auto simp: task_of_def)
  have "expected m \<in> right_answers H (am_task_id a)" using m(1,2) by (auto simp: right_answers_def)
  moreover have "com_success c = 0 \<or> com_success c = 1 \<and> com_task_id c = am_task_id a \<and> com_result c = expected m"
    using m(3,4) assms(2)
    by (cases "am_type a")
      (simp_all add: execute_task_def execute_word_count_def execute_synthetic_def CompleteMsg_default_def expected_def
        count_loop_scan scan_word_starts)
  ultimately have "com_success c = 0 \<or> com_success c = 1 \<and> com_result c \<in> right_answers H (com_task_id c)" by auto
  then show ?thesis
    using assms(3) by (auto simp: task_content_def completed_task_def Let_def split: TaskType.splits)
qed

subsection \<open>Runs of the cluster\<close>

definition cluster_guard :: "Env \<Rightarrow> sched_event \<Rightarrow> Coordinator \<Rightarrow> bool" where
  "cluster_guard env e s \<longleftrightarrow> sched_guard env e s \<and>
     (case e of Task ev \<Rightarrow> m_type (ie_msg ev) = COMPLETE \<longrightarrow> honest ev s | _ \<Rightarrow> True)"

fun submission_in :: "sched_event \<Rightarrow> SubmitMsg list" where
  "submission_in (Task ev) = (if m_type (ie_msg ev) = SUBMIT then [submit (ie_msg ev)] else [])"
| "submission_in _ = []"

definition submitted_in :: "sched_event list \<Rightarrow> SubmitMsg set" where
  "submitted_in es = set (concat (map submission_in es))"

text \<open>The guard with the submissions of the whole run fixed.\<close>

definition bounded_guard :: "SubmitMsg set \<Rightarrow> Env \<Rightarrow> sched_event \<Rightarrow> Coordinator \<Rightarrow> bool" where
  "bounded_guard H env e s \<longleftrightarrow> cluster_guard env e s \<and> set (submission_in e) \<subseteq> H"

definition cluster_inv :: "SubmitMsg set \<Rightarrow> Coordinator \<Rightarrow> bool" where
  "cluster_inv H s \<longleftrightarrow> primary_inv s \<and> content (task_content H) (message_content H) s"

lemma cluster_step_ok:
  assumes "cluster_inv H s" and "bounded_guard H env e s"
  shows "\<exists>s'. sched_step env e s = Some s' \<and> cluster_inv H s'"
proof -
  have inv: "primary_inv s" "content (task_content H) (message_content H) s" using assms(1) by (simp_all add: cluster_inv_def)
  have g: "sched_guard env e s" using assms(2) by (simp add: bounded_guard_def cluster_guard_def)
  obtain s' where s': "sched_step env e s = Some s'" "primary_inv s'" using sched_step_ok[OF inv(1) g] by blast
  have "content (task_content H) (message_content H) s'"
  proof (rule cluster.step_content[OF s'(1) inv(2) g])
    show "task_content H (sm_task_id (submit (ie_msg ev))) (submitted_task (submit (ie_msg ev)) now)"
      if "e = Task ev" "m_type (ie_msg ev) = SUBMIT" for ev now
      using that assms(2) by (intro submitted_content) (simp add: bounded_guard_def)
    show "task_content H (com_task_id (complete (ie_msg ev))) (completed_task (complete (ie_msg ev)) t)"
      if "e = Task ev" "m_type (ie_msg ev) = COMPLETE" "task_content H (com_task_id (complete (ie_msg ev))) t" for ev t
    proof -
      have "honest ev s" using that(1,2) assms(2) by (simp add: bounded_guard_def cluster_guard_def)
      then obtain oe started completed where oe: "oe \<in> set (out_stream s)" "m_type (oe_msg oe) = ASSIGN"
          "complete (ie_msg ev) = execute_task started completed (assign (oe_msg oe))"
        by (auto simp: honest_def)
      then show ?thesis
        using executed_content[OF _ oe(3) that(3)] inv(2) by (simp add: content_def message_content_def)
    qed
  qed
  with s' show ?thesis by (simp add: cluster_inv_def)
qed

interpretation cluster_run: guarded_machine "sched_step env" "bounded_guard H env" "cluster_inv H"
  by unfold_locales (rule cluster_step_ok)

lemma guarded_run_bounded:
  "guarded_run step (cluster_guard env) es s \<Longrightarrow> submitted_in es \<subseteq> H \<Longrightarrow> guarded_run step (bounded_guard H env) es s"
  by (induction es arbitrary: s) (auto simp: bounded_guard_def submitted_in_def split: option.splits)

lemma Coordinator_init_cluster: "cluster_inv H Coordinator_init"
proof -
  have "tasks Coordinator_init = []" "out_stream Coordinator_init = []"
    using Coordinator_init_outgoing by (simp_all add: Coordinator_init_def out_stream_def Shared_init_def)
  then show ?thesis
    using Coordinator_init_primary Coordinator_init_shared Coordinator_init_log Coordinator_init_mirrors
    by (simp add: cluster_inv_def content_def)
qed

text \<open>C2:
  No wrong result leaves the coordinator. In every run of a primary with its workers, in which
  completions are answers of workers to assignments that were sent, delivered in any order,
  any number of times or never, while workers register and die, tasks are assigned again and clients
  submit again, every RESULT that is pushed for a client either says that it failed or
  carries the right answer to a submission of that task id: the number of words of the text
  that was submitted.
\<close>

theorem cluster_results_right:
  assumes "guarded_run (sched_step env) (cluster_guard env) es Coordinator_init"
  shows "\<exists>s. run_events (sched_step env) es Coordinator_init = Some s \<and>
    (\<forall>oe\<in>set (out_stream s). m_type (oe_msg oe) = RESULT \<longrightarrow> rm_success (result (oe_msg oe)) = 0 \<or>
       rm_success (result (oe_msg oe)) = 1 \<and> (\<exists>m\<in>submitted_in es. sm_task_id m = rm_task_id (result (oe_msg oe)) \<and>
         rm_result (result (oe_msg oe)) = (if sm_type m = WORD_COUNT then of_nat (card (word_starts (sm_words m))) else 0)))"
proof -
  have "guarded_run (sched_step env) (bounded_guard (submitted_in es) env) es Coordinator_init"
    using guarded_run_bounded[OF assms] by simp
  from cluster_run.run_ok[OF Coordinator_init_cluster this]
  obtain s where s: "run_events (sched_step env) es Coordinator_init = Some s" "cluster_inv (submitted_in es) s" by blast
  then show ?thesis
    by (fastforce simp: cluster_inv_def content_def message_content_def right_answers_def expected_def)
qed

subsection \<open>A run with a result\<close>

text \<open>Between two events the network thread empties the outgoing queue.\<close>

definition draining_env :: Env where
  "draining_env = \<lparr>now_at = \<lambda>_. 2000000000, drain_at = \<lambda>_. 2 ^ 64, control_at = \<lambda>_. [], task_at = \<lambda>_. []\<rparr>"

lemma drained:
  assumes "shared_inv (shared s)"
  shows "\<not> out_full (s\<lparr>shared := network_turn draining_env (shared s)\<rparr>)"
proof -
  let ?q = "outgoing_queue (shared s)" and ?sh = "network_turn draining_env (shared s)"
  have q: "spsc_inv ?q" using assms by (simp add: shared_inv_def)
  have "length (contents ?q) < 2 ^ 64"
    using spsc.items_le[OF q] unsigned_less[where ?'a = nat, of "capacity ?q"] by (simp add: bound_def del: length_contents)
  then have "contents (outgoing_queue ?sh) = []"
    using network_turn_outgoing(3)[OF q, of draining_env] by (simp add: draining_env_def del: length_contents)
  then show ?thesis
    using outgoing_bound_pos[OF network_turn_inv[OF assms, of draining_env]] by (simp add: out_full_def del: length_contents)
qed

definition words_submit :: SubmitMsg where
  "words_submit = \<lparr>sm_task_id = 5, sm_client_id = 1, sm_duration_us = 0, sm_type = WORD_COUNT, sm_words = ''to be or not''\<rparr>"

definition submit_words :: IncomingEvent where
  "submit_words = \<lparr>ie_fd = 8, ie_msg = (Message_new SUBMIT)\<lparr>submit := words_submit\<rparr>\<rparr>"

definition complete_words :: IncomingEvent where
  "complete_words = \<lparr>ie_fd = 9, ie_msg = (Message_new COMPLETE)\<lparr>complete :=
     execute_task 1 2 \<lparr>am_task_id = 5, am_duration_us = 0, am_type = WORD_COUNT, am_words = ''to be or not''\<rparr>\<rparr>\<rparr>"

lemma words_assign:
  "m_type (assign_message ep (submitted_task words_submit now)) = ASSIGN"
  "assign (assign_message ep (submitted_task words_submit now)) =
     \<lparr>am_task_id = 5, am_duration_us = 0, am_type = WORD_COUNT, am_words = ''to be or not''\<rparr>"
  by (simp_all add: assign_message_def submitted_task_def words_submit_def Task_new_def Task_default_def Message_new_def
      AssignMsg_default_def Let_def)

text \<open>The first worker that registers is free.\<close>

lemma registered_free:
  assumes "process_register_event env register_event Coordinator_init = Some s"
  shows "active_workers s = [0] \<and> length (workers_states s) = 1 \<and> has_room s (rr_place s 0)"
proof -
  let ?ev = "ack_event register_event (reg_id Coordinator_init)"
  obtain ok s1 where push: "try_push_outgoing env ?ev Coordinator_init = (ok, s1)" by fastforce
  have "fst (try_push_outgoing env ?ev Coordinator_init)"
    using Coordinator_init_outgoing by (intro try_push_outgoing_room Coordinator_init_shared)
      (simp add: COORDINATOR_OUTGOING_QUEUE_CAPACITY_def COORDINATOR_TASK_QUEUE_CAPACITY_def del: length_contents)
  then have ok using push by simp
  have room: "available_ids Coordinator_init = [] \<longrightarrow> Suc (length (workers_states Coordinator_init)) < 2 ^ 32"
    by (simp add: Coordinator_init_def)
  obtain now sh where s: "s = Coordinator_init\<lparr>
        workers_states := (slots Coordinator_init)[unat (reg_id Coordinator_init) := (slots Coordinator_init ! unat (reg_id Coordinator_init))
          \<lparr>alive := True, last_heartbeat_ns := now, ws_fd := ie_fd register_event, active_index := length (active_workers Coordinator_init)\<rparr>],
        active_workers := active_workers Coordinator_init @ [reg_id Coordinator_init], available_ids := butlast (available_ids Coordinator_init),
        shared := sh\<rparr>"
    using register_eq(2)[OF Coordinator_init_shared sched_invD(1)[OF Coordinator_init_sched] room push \<open>ok\<close>] assms by auto
  have init: "active_workers Coordinator_init = []" "workers_states Coordinator_init = []" "available_ids Coordinator_init = []"
    by (simp_all add: Coordinator_init_def)
  show ?thesis
    using s init by (simp add: reg_id_def slots_def has_room_def rr_place_def WorkerState_new_def
      WORKER_MAX_QUEUE_DEPTH_def WORKER_QUEUE_CAPACITY_def)
qed

text \<open>The text is assigned to it, and its answer is one to an assignment that was sent.\<close>

definition turn_of :: "Coordinator \<Rightarrow> Coordinator" where
  "turn_of s = s\<lparr>shared := network_turn draining_env (shared s)\<rparr>"

lemma turn_of:
  assumes "primary_inv s"
  shows "primary_inv (turn_of s)" "\<not> out_full (turn_of s)" "out_stream (turn_of s) = out_stream s"
proof -
  have sh: "shared_inv (shared s)" using sched_invD(3) primary_invD(1)[OF assms] by blast
  show "primary_inv (turn_of s)" using sched_step_ok[OF assms, of draining_env Network] by (simp add: turn_of_def)
  show "\<not> out_full (turn_of s)" "out_stream (turn_of s) = out_stream s"
    using drained[OF sh] network_turn_out[OF sh, of draining_env] by (simp_all add: turn_of_def)
qed

definition words_running :: "u64 \<Rightarrow> u64 \<Rightarrow> Task" where
  "words_running now started = (submitted_task words_submit now)\<lparr>t_worker_id := 0, t_state := RUNNING, started_at := started\<rparr>"

lemma words_assigned:
  "\<exists>s1 s3 now started. process_register_event draining_env register_event Coordinator_init = Some s1 \<and>
     process_submit_event draining_env submit_words (turn_of s1) = Some s3 \<and> primary_inv s3 \<and>
     length (workers_states s3) = 1 \<and> umap_find (tasks s3) 5 = Some (words_running now started) \<and> honest complete_words s3"
proof -
  obtain s1 where s1: "process_register_event draining_env register_event Coordinator_init = Some s1" "primary_inv s1"
    using register_ok[OF Coordinator_init_sched, of draining_env register_event] Coordinator_init_primary
    by (auto simp: Coordinator_init_def primary_inv_def)
  let ?s2 = "turn_of s1"
  have "active_workers ?s2 = [0]" "length (workers_states ?s2) = 1" "has_room ?s2 (rr_place ?s2 0)"
    using registered_free[OF s1(1)] by (auto simp: turn_of_def has_room_def rr_place_def)
  then have free: "\<not> blocked ?s2" "active_workers ?s2 = [0]" "length (workers_states ?s2) = 1"
    using turn_of(2)[OF s1(2)] by (auto simp: blocked_def)
  define now where "now = now_at draining_env (ticks (shared ?s2))"
  obtain s3 where s3: "process_submit_event draining_env submit_words ?s2 = Some s3" "primary_inv s3"
    "length (workers_states s3) = 1" "submit_outcome submit_words ?s2 now s3"
    using process_submit_ok[OF primary_invD(1)[OF turn_of(1)[OF s1(2)]], of draining_env submit_words]
      primary_invD(2)[OF turn_of(1)[OF s1(2)]] free(3)
    by (auto simp: primary_inv_def now_def)
  from s3(4) free(1,2) obtain started where
      a: "umap_find (tasks s3) 5 = Some (words_running now started)"
      "\<lparr>oe_fd = ws_fd (workers_states ?s2 ! 0), oe_msg = assign_message (current_epoch ?s2) (submitted_task words_submit now)\<rparr>
        \<in> set (out_stream s3)"
    by (auto simp: submit_outcome_def Let_def submit_words_def words_submit_def words_running_def Message_new_def)
  have "honest complete_words s3"
    unfolding honest_def by (intro bexI[OF _ a(2)]) (auto simp: words_assign complete_words_def Message_new_def)
  then show ?thesis using s1(1) s3(1-3) a(1) by blast
qed

text \<open>A worker registers, a text is submitted and assigned to it, and it answers.\<close>

theorem cluster_results_right_witness:
  "\<exists>s oe. run_events (sched_step draining_env) [Control register_event, Network, Task submit_words, Network, Task complete_words]
      Coordinator_init = Some s \<and> oe \<in> set (out_stream s) \<and> m_type (oe_msg oe) = RESULT \<and>
    rm_success (result (oe_msg oe)) = 1 \<and> rm_result (result (oe_msg oe)) = of_nat (card (word_starts ''to be or not''))"
proof -
  let ?es = "[Control register_event, Network, Task submit_words, Network, Task complete_words]"
  obtain s1 s3 now started where s1: "process_register_event draining_env register_event Coordinator_init = Some s1"
    and s3: "process_submit_event draining_env submit_words (turn_of s1) = Some s3" "primary_inv s3"
      "length (workers_states s3) = 1" "umap_find (tasks s3) 5 = Some (words_running now started)" "honest complete_words s3"
    using words_assigned by blast
  define s4 u where "s4 = turn_of s3" and "u = words_running now started"
  have s4: "primary_inv s4" "\<not> out_full s4" "umap_find (tasks s4) 5 = Some u" "length (workers_states s4) = 1" "honest complete_words s4"
    using turn_of[OF s3(2)] s3(3-5) by (simp_all add: s4_def u_def honest_def) (simp_all add: turn_of_def)
  have k: "com_task_id (complete (ie_msg complete_words)) = 5"
    by (simp add: complete_words_def execute_task_def execute_word_count_def Message_new_def)
  obtain s5 where s5: "process_complete_event draining_env complete_words s4 = Some s5" "complete_outcome complete_words s4 u s5"
    using process_complete_ok[OF primary_invD(1)[OF s4(1)] s4(3) k[symmetric], of draining_env] s4(4)
    by (auto simp: u_def words_running_def)
  have "workers_states s4 \<noteq> []" using s4(4) by auto
  then have run: "guarded_run (sched_step draining_env) (cluster_guard draining_env) ?es Coordinator_init"
    using s1 s3(1) s4(5) unfolding s4_def turn_of_def
    by (simp add: cluster_guard_def control_guard_def task_guard_def register_event_def submit_words_def complete_words_def
        handle_control_def handle_task_def Message_new_def Coordinator_init_def split: option.split)
  have res: "run_events (sched_step draining_env) ?es Coordinator_init = Some s5"
    using s1 s3(1) s5(1) unfolding s4_def turn_of_def
    by (simp add: register_event_def submit_words_def complete_words_def handle_control_def handle_task_def Message_new_def)
  let ?oe = "\<lparr>oe_fd = client_fd s4 u, oe_msg = result_message (current_epoch s4) (completed_task (complete (ie_msg complete_words)) u)\<rparr>"
  have oe: "?oe \<in> set (out_stream s5)" using s5(2) s4(2) by (auto simp: complete_outcome_def Let_def)
  have r: "m_type (oe_msg ?oe) = RESULT" "rm_success (result (oe_msg ?oe)) = 1" "rm_task_id (result (oe_msg ?oe)) = 5"
    by (simp_all add: result_message_def completed_task_def complete_words_def execute_task_def execute_word_count_def
        u_def words_running_def submitted_task_def words_submit_def Task_new_def Task_default_def Message_new_def Let_def)
  have "submitted_in ?es = {words_submit}"
    by (simp add: submitted_in_def submit_words_def complete_words_def Message_new_def)
  then have "rm_result (result (oe_msg ?oe)) = of_nat (card (word_starts ''to be or not''))"
    using cluster_results_right[OF run] oe r unfolding res by (auto simp: words_submit_def)
  then show ?thesis using res oe r by blast
qed

end
