(* ===== verification/Spec2Isabelle.thy ===== *)
theory Spec2Isabelle
  imports Net SPSC_Concurrent Word_Count Scheduler_Thread Recovery Router Process_Lifecycle Command_Line Top_Display Cluster
begin

text \<open>
  Verification of the distributed task coordinator.

  \<^bold>\<open>The program.\<close> Clients submit tasks (a synthetic delay or a word count) to a router, which
  forwards each to the active coordinator of a shard and fails over to its backup. A
  coordinator assigns tasks to registered workers, collects their results, answers the
  clients, detects dead workers, replicates assignments and completions to its peer, and reports
  to a monitor. A coordinator and a worker have a network thread and other threads, which
  talk through lock-free queues. All processes speak one message format over TCP.

  \<^bold>\<open>From source to theory\<close> (paths are relative to \<^verbatim>\<open>src/\<close>).
  \<^item> \<open>Prelude\<close>: hash maps and sets of the standard library as association lists and lists, with
    their laws as the locale \<open>hash_map\<close>; generic lemmas; the collections of rewrite rules.
    \<open>Config\<close>: \<^verbatim>\<open>include/config/system_config.hpp\<close>.
  \<^item> \<open>Buffer\<close>, \<open>Codec\<close>: \<^verbatim>\<open>include/serialization/buffer.hpp\<close>, for both byte orders; the contract of a
    serialise/deserialise pair is the locale \<open>codec\<close>, interpreted for every record that
    goes over the wire. \<open>Task\<close>, \<open>Top_Types\<close>, \<open>Message\<close>, \<open>Message_Codec\<close>: \<^verbatim>\<open>include/task\<close>,
    \<^verbatim>\<open>include/top/types.hpp\<close>, \<^verbatim>\<open>include/message\<close>.
  \<^item> \<open>Net\<close>: \<^verbatim>\<open>src/net/net_utils.cpp\<close>, over a kernel that may cut, interrupt, refuse or close any
    transfer. \<open>Sockets\<close>: \<^verbatim>\<open>connect_to_server\<close> and \<^verbatim>\<open>create_listening_socket\<close> of the same file and the accept
    loop of the router, as sequences of system calls. \<open>Rpc\<close>: \<^verbatim>\<open>src/rpc\<close>; the contract of a connection is the locale \<open>rpc_endpoint\<close>.
  \<^item> \<open>SPSC_Queue\<close>: \<^verbatim>\<open>include/lock_free/spsc_queue.hpp\<close> with its 64-bit wrapping indices, an instance of
    the locale \<open>bounded_queue\<close>; \<open>SPSC_Concurrent\<close>: the same operations as interleaved atomic
    steps of a producer and a consumer.
  \<^item> \<open>Coordinator_State\<close>, \<open>Coordinator_Metrics\<close>, \<open>Replication_Log\<close> (locale \<open>lossy_log\<close>), \<open>Worker_Pool\<close>,
    \<open>Scheduling\<close>, \<open>Replica\<close>, \<open>Top_Report\<close>, \<open>Coordinator_Loop\<close>: the scheduler thread of
    \<^verbatim>\<open>src/coordinator/coordinator.cpp\<close>, one definition per member function, on the record
    \<open>Coordinator\<close> of its fields. \<open>Coordinator_Network\<close>: its network thread.
    \<open>Failure_Detection\<close>, \<open>Task_Accounting\<close>, \<open>Task_Lifecycle\<close>, \<open>Scheduler_Thread\<close>, \<open>Recovery\<close>: theorems about
    them (locales \<open>guarded_machine\<close>, \<open>turn_closed\<close>). \<open>Task_Content\<close> (locale \<open>content_conditions\<close>): conditions on
    tasks and messages that every operation of the scheduler keeps; \<open>Cluster\<close>: the coordinator with
    its workers and clients.
  \<^item> \<open>Word_Count\<close>, \<open>Worker_Process\<close>: \<^verbatim>\<open>src/worker/worker.cpp\<close>; \<open>Worker_Answers\<close>: what a worker reports.
    \<open>Process_Lifecycle\<close>: \<^verbatim>\<open>Worker::run\<close> and \<^verbatim>\<open>Coordinator::run\<close> with their threads, as step relations. \<open>Router\<close>: \<^verbatim>\<open>src/router/router.cpp\<close>.
    \<open>Client_Runner\<close>: \<^verbatim>\<open>src/client/client.cpp\<close>. \<open>Top_Display\<close>: \<^verbatim>\<open>src/top/top.cpp\<close>.
    \<open>Command_Line\<close>: \<^verbatim>\<open>include/utils/utils.hpp\<close> and the five \<^verbatim>\<open>main.cpp\<close>.

  \<^bold>\<open>How the code is modelled.\<close> A class is a record of its fields, an enumeration a datatype (with a
  constructor for values outside it, where a cast can produce them), an integer a word of
  its width. A member function takes and returns the state; \<open>None\<close> is a failed assertion, an
  out-of-range access, an exception nobody catches, or not returning. Loops that
  need not end are partial functions, and the theorems say that they do end.

  \<^bold>\<open>Parameters.\<close> What the program does not decide itself is an argument: the clock and the turns of the
  network thread (\<open>Env\<close>, for the scheduler thread), the kernel and the turns of the
  scheduler (\<open>World\<close>, for the network thread), the kernel's answers to each transfer
  (\<open>Socket\<close>), the results of the calls that make sockets (\<open>Kernel\<close>), the results of calls on a connection (\<open>Remote\<close>), the other router threads
  (\<open>Others\<close>), the clock, poll results and execution threads of a worker (\<open>WorkerEnv\<close>), the
  clock and random draws of a client (\<open>ClientEnv\<close>) and floating-point arithmetic
  (\<open>FloatOps\<close>). Every theorem holds for all of them, or for those with a stated property that an
  example in the same theory has. The operations on a connection in \<open>Rpc\<close> return codes as \<open>Net\<close>
  derives them.

  \<^bold>\<open>What is shown.\<close>
  \<^item> The whole: whatever is delayed, repeated, reordered or lost between the coordinator and its
    workers, every result for a client is a failure or the right answer to a submission of that
    task; the completions of the worker process are those the coordinator assumes.
  \<^item> Queues: under every interleaving of atomic steps nothing is lost, duplicated or
    reordered, no slot is accessed by both sides at once, and the sequential operations refine a
    bounded list queue.
  \<^item> Wire: the fields a message type uses survive serialisation, framing, partial and interrupted
    transfers; a snapshot carries all but the texts of word counts.
  \<^item> Coordinator: in every run of a primary no call faults and no task is lost, and every iteration
    of the scheduler thread returns, as long as each event is one the protocol allows in the state in
    which it is handled (\<open>sched_guard\<close>, \<open>iteration_checked\<close>); submissions, assignments, completions,
    sweeps and registrations do what they promise; the network thread routes every event once.
  \<^item> Replication: the messages of each handler keep the backup a mirror, order does not matter
    within a task, a backup that missed messages is resynchronised by a snapshot, for which the
    network thread asks whenever it has made a new connection.
  \<^item> Worker: every task assigned is in the process or was reported, but for one report whose send failed
    and after which the process stops; the process ends after its network thread. Sockets: no
    descriptor leaks. Router: each request is answered by one message, a failure only when nobody
    answered, and the active target follows the answers. Client: each task of the own range is
    submitted until it is answered or given up, in order; ids are disjoint, the
    statistics are those of the latencies, an abort means a wrong answer. Monitor: one frame per
    answer, within the terminal. Command lines: accepted configurations are in range.
  \<^item> Behaviour that is shown and not meant: repeated prefixes after a partial send, aborts on
    short frames, heartbeats of dead workers, completions after a failover, the doubly closed peer
    connection, late answers that abort a client, truncated counts on the command line, a coordinator
    without a port that never ends, a listening socket that is closed three times, an execution
    thread that waits for ever at shutdown.

  \<^bold>\<open>Bounds and fuel.\<close> A number of rounds or iterations (\<open>network_worker\<close>, \<open>scheduler_worker\<close>,
  \<open>worker_loop\<close>, \<open>wk_network_loop\<close>, \<open>accept_loop\<close>, \<open>top_loop\<close>) bounds loops that run until the process is stopped;
  the theorems hold for every number. All other counters are those of the source. Theorems about
  counts that the source keeps in machine integers assume that they fit (for example
  \<open>95 * n < 2 ^ 64\<close> samples).

  \<^bold>\<open>Not modelled.\<close> The \<^verbatim>\<open>stop\<close> functions of the coordinator, the worker and the client, which are called
  by the destructors after \<^verbatim>\<open>run\<close> has joined every thread, and signals; the weak memory model
  (interleavings are sequentially consistent, and the acquire and release accesses of the queue
  order the slot accesses in the same way); sleeping and back-off times; debug output, help
  texts, colours and the terminal library; scripts, documentation and benchmarks.
\<close>

subsection \<open>The coordinator and its workers\<close>

text \<open>C6:
  The coordinator's assumption about its workers is met by the worker process. When the
  assignments a worker has received are among those that the coordinator has sent, every
  completion the worker sends in any run satisfies the condition under which no wrong result
  leaves the coordinator.
\<close>

theorem worker_completions_honest:
  assumes "wk_run env n (Worker_new addr k now) = Some wk"
    and "\<forall>fd m len. Receive fd m len \<in> set (wk_calls wk) \<and> 0 < len \<and> m_type m = ASSIGN \<longrightarrow>
      (\<exists>oe\<in>set (out_stream s). m_type (oe_msg oe) = ASSIGN \<and> assign (oe_msg oe) = assign m)"
    and "Send fd (ie_msg ev) r \<in> set (wk_calls wk)" and "m_type (ie_msg ev) = COMPLETE"
  shows "honest ev s"
proof -
  obtain pre post where calls: "wk_calls wk = pre @ Send fd (ie_msg ev) r # post" using split_list[OF assms(3)] by blast
  obtain src a len started completed where a: "Receive src a len \<in> set pre" "0 < len" "m_type a = ASSIGN"
      "Message.complete (ie_msg ev) = execute_task started completed (assign a)"
    using sent_answer[OF run_answers[OF assms(1)] calls assms(4)] by blast
  have "Receive src a len \<in> set (wk_calls wk)" using a(1) calls by simp
  then obtain oe where "oe \<in> set (out_stream s)" "m_type (oe_msg oe) = ASSIGN" "assign (oe_msg oe) = assign a"
    using assms(2) a(2,3) by blast
  then show ?thesis using a(4) unfolding honest_def by metis
qed

text \<open>The run of a worker that receives a text and reports its number of words.\<close>

definition sent_words :: Coordinator where
  "sent_words = Coordinator_init\<lparr>shared := (shared Coordinator_init)\<lparr>delivered := [\<lparr>oe_fd = 5,
     oe_msg = (Message_new ASSIGN)\<lparr>assign := answer_assign\<rparr>\<rparr>]\<rparr>\<rparr>"

theorem worker_completions_honest_witness:
  "\<exists>ev. m_type (ie_msg ev) = COMPLETE \<and> com_task_id (Message.complete (ie_msg ev)) = 7 \<and> honest ev sent_words"
proof -
  obtain wk where wk: "wk_run answer_env 1 (Worker_new (''127.0.0.1'', 9000) 2 0) = Some wk"
    "map completed_of (wk_calls wk) = [[], [], [], []] @ [[7]]"
    using answer_run by (auto simp del: One_nat_def)
  then obtain pre d where d: "wk_calls wk = pre @ [d]" "completed_of d = [7]" by (auto simp: map_eq_append_conv)
  obtain fd m r where s: "d = Send fd m r" "m_type m = COMPLETE" "com_task_id (Message.complete m) = 7"
    using d(2) by (cases d) (auto split: if_splits)
  have assigned: "assign m' = answer_assign" if "Receive c m' len \<in> set (wk_calls wk)" "0 < len" "m_type m' = ASSIGN" for c m' len
  proof -
    have "assignment_of (Receive c m' len) \<in> set (map assignment_of (wk_calls wk))"
      unfolding set_map by (rule imageI[OF that(1)])
    then have "assignment_of (Receive c m' len) \<in> {[], [answer_assign]}"
      using wk(1) answer_received by (auto simp del: One_nat_def assignment_of.simps set_map)
    then show ?thesis using that(2,3) by simp
  qed
  have out: "\<exists>oe\<in>set (out_stream sent_words). m_type (oe_msg oe) = ASSIGN \<and> assign (oe_msg oe) = answer_assign"
    by (simp add: sent_words_def out_stream_def Message_new_def)
  have h: "honest \<lparr>ie_fd = 9, ie_msg = m\<rparr> sent_words"
    by (rule worker_completions_honest[OF wk(1), where fd = fd and r = r]) (use assigned out d(1) s in auto)
  then show ?thesis using s(2,3) by (intro exI[of _ "\<lparr>ie_fd = 9, ie_msg = m\<rparr>"]) simp
qed

end
